(* ===== verification/Prelude.thy ===== *)
theory Prelude
  imports Main "HOL-Library.Word"
begin

text \<open>
  Shared vocabulary of the development: the machine integers of the sources, flat byte
  memory with the copies the code makes (\<open>memcpy\<close>, \<open>memmove\<close>), and the linear searches
  over the fixed tables of the servers.  The collections \<open>mem_simps\<close> and \<open>inv_intros\<close>
  gather the facts the component proofs use.
\<close>

unbundle bit_operations_syntax

named_theorems mem_simps "reads and writes of flat memory"
named_theorems inv_intros "preservation lemmas of the component invariants"

type_synonym u8 = "8 word"
type_synonym u16 = "16 word"
type_synonym u32 = "32 word"
type_synonym u64 = "64 word"
type_synonym size_t = "64 word"
type_synonym fd = int

section \<open>Flat memory\<close>

text \<open>
  A C array is a function from offsets; its declared size is not part of the function, so
  that every access is in range is a lemma about the component that owns the array.
\<close>

type_synonym 'a mem = "nat \<Rightarrow> 'a"

definition mem_read :: "'a mem \<Rightarrow> nat \<Rightarrow> nat \<Rightarrow> 'a list" where
  "mem_read m off n = map (\<lambda>i. m (off + i)) [0..<n]"

definition mem_write :: "'a mem \<Rightarrow> nat \<Rightarrow> 'a list \<Rightarrow> 'a mem" where
  "mem_write m off xs =
     (\<lambda>i. if off \<le> i \<and> i < off + length xs then xs ! (i - off) else m i)"

definition mem_move :: "'a mem \<Rightarrow> nat \<Rightarrow> nat \<Rightarrow> nat \<Rightarrow> 'a mem" where
  "mem_move m dst src n = mem_write m dst (mem_read m src n)"

lemma length_mem_read [simp]: "length (mem_read m off n) = n"
  by (simp add: mem_read_def)

lemma mem_read_0 [simp]: "mem_read m off 0 = []"
  by (simp add: mem_read_def)

lemma mem_read_eq_Nil [simp]: "mem_read m off n = [] \<longleftrightarrow> n = 0"
  by (simp add: mem_read_def)

lemma nth_mem_read [mem_simps]: "i < n \<Longrightarrow> mem_read m off n ! i = m (off + i)"
  by (simp add: mem_read_def)

lemma mem_write_Nil [simp]: "mem_write m off [] = m"
  by (rule ext) (simp add: mem_write_def, linarith)

lemma mem_read_append: "mem_read m off (a + b) = mem_read m off a @ mem_read m (off + a) b"
proof (rule nth_equalityI)
  fix i assume "i < length (mem_read m off (a + b))"
  then show "mem_read m off (a + b) ! i = (mem_read m off a @ mem_read m (off + a) b) ! i"
    by (auto simp: nth_append mem_simps)
qed simp

lemma mem_read_take [mem_simps]: "k \<le> n \<Longrightarrow> take k (mem_read m off n) = mem_read m off k"
  by (auto intro!: nth_equalityI simp: mem_simps)

lemma mem_read_drop [mem_simps]: "drop k (mem_read m off n) = mem_read m (off + k) (n - k)"
  by (auto intro!: nth_equalityI simp: mem_simps add.assoc)

lemma mem_read_write_same [mem_simps]: "mem_read (mem_write m off xs) off (length xs) = xs"
  by (auto intro!: nth_equalityI simp: mem_simps mem_write_def)

lemma mem_read_write_below [mem_simps]:
  "off + n \<le> off' \<Longrightarrow> mem_read (mem_write m off' xs) off n = mem_read m off n"
  by (auto intro!: nth_equalityI simp: mem_simps mem_write_def)

lemma mem_read_write_extend [mem_simps]:
  "mem_read (mem_write m (off + n) xs) off (n + length xs) = mem_read m off n @ xs"
  by (simp add: mem_read_append mem_read_write_below mem_read_write_same)

lemma mem_read_move [mem_simps]: "mem_read (mem_move m dst src n) dst n = mem_read m src n"
  using mem_read_write_same [of m dst "mem_read m src n"] by (simp add: mem_move_def)

section \<open>Linear search\<close>

text \<open>
  The lookups of the servers walk a table from slot 0 and return the first matching index,
  or \<open>-1\<close>; the \<open>-1\<close> is \<open>None\<close> here.
\<close>

primrec first_index :: "('a \<Rightarrow> bool) \<Rightarrow> 'a list \<Rightarrow> nat option" where
  "first_index P [] = None"
| "first_index P (x # xs) = (if P x then Some 0 else map_option Suc (first_index P xs))"

lemma first_index_None_iff: "first_index P xs = None \<longleftrightarrow> (\<forall>x \<in> set xs. \<not> P x)"
  by (induction xs) auto

lemma first_index_SomeD:
  "first_index P xs = Some i \<Longrightarrow> i < length xs \<and> P (xs ! i) \<and> (\<forall>j < i. \<not> P (xs ! j))"
proof (induction xs arbitrary: i)
  case (Cons x xs)
  then show ?case
    by (auto split: if_splits simp: less_Suc_eq_0_disj nth_Cons')
qed simp

lemma first_index_less [dest]: "first_index P xs = Some i \<Longrightarrow> i < length xs"
  by (blast dest: first_index_SomeD)

lemma first_index_holds: "first_index P xs = Some i \<Longrightarrow> P (xs ! i)"
  by (blast dest: first_index_SomeD)

lemma first_index_unique:
  "i < length xs \<Longrightarrow> P (xs ! i) \<Longrightarrow> (\<And>j. j < length xs \<Longrightarrow> P (xs ! j) \<Longrightarrow> j = i)
   \<Longrightarrow> first_index P xs = Some i"
  by (metis first_index_None_iff first_index_SomeD not_None_eq nth_mem)

lemma first_index_exists: "x \<in> set xs \<Longrightarrow> P x \<Longrightarrow> \<exists>i. first_index P xs = Some i"
  using first_index_None_iff by fastforce

lemma first_index_update:
  "P x = P (xs ! i) \<Longrightarrow> first_index P (xs[i := x]) = first_index P xs"
  by (induction xs arbitrary: i) (auto split: nat.splits)

section \<open>Lists as arrays\<close>

text \<open>An update that takes an element out of a filter: the measure of the loops over rings.\<close>

lemma length_filter_update:
  "c < length ring \<Longrightarrow> P (ring ! c) \<Longrightarrow> \<not> P d
   \<Longrightarrow> length (filter P (ring[c := d])) < length (filter P ring)"
  by (induction ring arbitrary: c) (fastforce split: nat.splits)+

lemma map_ring_update:
  "i \<notin> set js \<Longrightarrow> map (\<lambda>j. f (ring[i := d] ! j)) js = map (\<lambda>j. f (ring ! j)) js"
  by (rule map_cong [OF refl]) (metis nth_list_update_neq)

lemma ball_update:
  "i \<notin> S \<Longrightarrow> (\<forall>j \<in> S. P (xs[i := x] ! j)) \<longleftrightarrow> (\<forall>j \<in> S. P (xs ! j))"
  by (metis nth_list_update_neq)

end
