(* ===== verification/Posix.thy ===== *)
theory Posix
  imports Prelude
begin

text \<open>
  The answers of the system calls the user-space programs make, and their epoll event bits.
  The kernel is not part of the repository: each call's answer is an argument of the
  definition that makes the call, and the two facts POSIX documents about the byte counts
  (\<open>recv_ok\<close>, \<open>send_ok\<close>) are named hypotheses.
\<close>

datatype errno = EAGAIN | EWOULDBLOCK | EINTR | EOTHER nat

text \<open>\<open>recv\<close>: the bytes delivered (none: the peer's FIN), or an error.\<close>

datatype recv_ans = Recv "u8 list" | Recv_err errno

text \<open>\<open>send\<close>: the number of bytes the kernel took, or an error.\<close>

datatype send_ans = Sent nat | Send_err errno

definition recv_ok :: "(size_t \<Rightarrow> recv_ans) \<Rightarrow> bool" where
  "recv_ok k \<longleftrightarrow> (\<forall>n bs. k n = Recv bs \<longrightarrow> length bs \<le> unat n)"

definition send_ok :: "(u8 list \<Rightarrow> send_ans) \<Rightarrow> bool" where
  "send_ok k \<longleftrightarrow> (\<forall>bs n. k bs = Sent n \<longrightarrow> n \<le> length bs)"

lemma recv_okD: "recv_ok k \<Longrightarrow> k n = Recv bs \<Longrightarrow> length bs \<le> unat n"
  by (auto simp: recv_ok_def)

lemma send_okD: "send_ok k \<Longrightarrow> k bs = Sent n \<Longrightarrow> n \<le> length bs"
  by (auto simp: send_ok_def)

text \<open>The epoll event bits of Linux.\<close>

definition EPOLLIN :: u32 where "EPOLLIN = 0x001"
definition EPOLLOUT :: u32 where "EPOLLOUT = 0x004"
definition EPOLLERR :: u32 where "EPOLLERR = 0x008"
definition EPOLLHUP :: u32 where "EPOLLHUP = 0x010"
definition EPOLLRDHUP :: u32 where "EPOLLRDHUP = 0x2000"

lemmas epoll_bits = EPOLLIN_def EPOLLOUT_def EPOLLERR_def EPOLLHUP_def EPOLLRDHUP_def

text \<open>\<open>has evs b\<close> is the C condition \<open>evs & b\<close>.\<close>

definition has :: "u32 \<Rightarrow> u32 \<Rightarrow> bool" where
  "has evs b \<longleftrightarrow> evs AND b \<noteq> 0"

end
