(* ===== verification/Accel_Buffer.thy ===== *)
theory Accel_Buffer
  imports Posix
begin

text \<open>
  The forwarding buffer of \<open>tcp_accelerator/tcp_accelerator.c\<close>: \<open>struct io_buffer\<close> with its
  helpers, and the two operations that move bytes through it, \<open>receive_into_buffer\<close> and
  \<open>flush_buffer\<close>.  Indices are \<open>size_t\<close> (64-bit, wrapping).  The contract \<open>byte_channel\<close>
  says that filling appends to the bytes in transit and draining removes a prefix of them;
  the buffer is its instance.
\<close>

section \<open>The buffer\<close>

definition FORWARD_BUFFER_SIZE :: size_t where
  "FORWARD_BUFFER_SIZE = 64 * 1024"

record io_buffer =
  bdata :: "u8 mem"
  bstart :: size_t
  bend :: size_t

definition buffer_empty :: "io_buffer \<Rightarrow> bool" where
  "buffer_empty buf \<longleftrightarrow> bstart buf = bend buf"

definition buffer_pending :: "io_buffer \<Rightarrow> size_t" where
  "buffer_pending buf = bend buf - bstart buf"

definition buffer_space :: "io_buffer \<Rightarrow> size_t" where
  "buffer_space buf = FORWARD_BUFFER_SIZE - bend buf"

definition buffer_reset_if_empty :: "io_buffer \<Rightarrow> io_buffer" where
  "buffer_reset_if_empty buf =
     (if bstart buf = bend buf then buf\<lparr>bstart := 0, bend := 0\<rparr> else buf)"

definition buffer_compact :: "io_buffer \<Rightarrow> io_buffer" where
  "buffer_compact buf =
     (if bstart buf = 0 then buf
      else let pending = buffer_pending buf;
               moved = (if pending > 0
                        then mem_move (bdata buf) 0 (unat (bstart buf)) (unat pending)
                        else bdata buf)
           in buf\<lparr>bdata := moved, bstart := 0, bend := pending\<rparr>)"

section \<open>Reading and flushing\<close>

text \<open>What a handler does to the outside world, in order.\<close>

datatype io_act =
    A_recv fd "u8 list"   \<comment> \<open>\<open>recv\<close> returned these bytes; none is the peer's FIN\<close>
  | A_send fd "u8 list"   \<comment> \<open>\<open>send\<close> took these bytes\<close>
  | A_shutdown_wr fd      \<comment> \<open>\<open>shutdown(fd, SHUT_WR)\<close>\<close>
  | A_epoll_mod fd u32
  | A_epoll_add fd u32
  | A_epoll_del fd
  | A_close fd

fun recvd :: "fd \<Rightarrow> io_act list \<Rightarrow> u8 list" where
  "recvd f [] = []"
| "recvd f (A_recv g bs # as) = (if f = g then bs else []) @ recvd f as"
| "recvd f (_ # as) = recvd f as"

fun sent :: "fd \<Rightarrow> io_act list \<Rightarrow> u8 list" where
  "sent f [] = []"
| "sent f (A_send g bs # as) = (if f = g then bs else []) @ sent f as"
| "sent f (_ # as) = sent f as"

lemma recvd_append [simp]: "recvd f (as @ bs) = recvd f as @ recvd f bs"
  by (induction f as rule: recvd.induct) auto

lemma sent_append [simp]: "sent f (as @ bs) = sent f as @ sent f bs"
  by (induction f as rule: sent.induct) auto

definition receive_into_buffer ::
    "fd \<Rightarrow> (size_t \<Rightarrow> recv_ans) \<Rightarrow> io_buffer \<Rightarrow> int \<times> io_buffer \<times> io_act list" where
  "receive_into_buffer f k buf0 =
     (let buf = (if buffer_space buf0 = 0 \<and> bstart buf0 > 0 then buffer_compact buf0 else buf0);
          space = buffer_space buf
      in if space = 0 then (0, buf, [])
         else case k space of
           Recv bs \<Rightarrow>
             if length bs > 0
             then (1, buf\<lparr>bdata := mem_write (bdata buf) (unat (bend buf)) bs,
                          bend := bend buf + of_nat (length bs)\<rparr>, [A_recv f bs])
             else (2, buf, [A_recv f []])
         | Recv_err e \<Rightarrow>
             if e = EAGAIN \<or> e = EWOULDBLOCK then (0, buf, [])
             else if e = EINTR then (0, buf, [])
             else (-1, buf, []))"

definition flush_buffer ::
    "fd \<Rightarrow> (u8 list \<Rightarrow> send_ans) \<Rightarrow> io_buffer \<Rightarrow> int \<times> io_buffer \<times> io_act list" where
  "flush_buffer f k buf =
     (if buffer_empty buf then (0, buf, [])
      else let offered = mem_read (bdata buf) (unat (bstart buf)) (unat (buffer_pending buf))
           in case k offered of
                Sent n \<Rightarrow>
                  if n > 0
                  then (1, buffer_reset_if_empty (buf\<lparr>bstart := bstart buf + of_nat n\<rparr>),
                        [A_send f (take n offered)])
                  else (0, buf, [])
              | Send_err e \<Rightarrow>
                  if e = EAGAIN \<or> e = EWOULDBLOCK then (0, buf, [])
                  else if e = EINTR then (0, buf, [])
                  else (-1, buf, []))"

section \<open>Invariant and contents\<close>

definition buf_ok :: "io_buffer \<Rightarrow> bool" where
  "buf_ok buf \<longleftrightarrow> bstart buf \<le> bend buf \<and> bend buf \<le> FORWARD_BUFFER_SIZE"

text \<open>The bytes received and not yet sent.\<close>

definition in_transit :: "io_buffer \<Rightarrow> u8 list" where
  "in_transit buf = mem_read (bdata buf) (unat (bstart buf)) (unat (buffer_pending buf))"

lemma unat_FBS: "unat FORWARD_BUFFER_SIZE = 65536"
  by (simp add: FORWARD_BUFFER_SIZE_def)

lemma buf_ok_nat:
  "buf_ok buf \<longleftrightarrow> unat (bstart buf) \<le> unat (bend buf) \<and> unat (bend buf) \<le> 65536"
  by (simp add: buf_ok_def word_le_nat_alt unat_FBS)

lemma unat_pending:
  "buf_ok buf \<Longrightarrow> unat (buffer_pending buf) = unat (bend buf) - unat (bstart buf)"
  by (simp add: buf_ok_def buffer_pending_def unat_sub)

lemma unat_space: "buf_ok buf \<Longrightarrow> unat (buffer_space buf) = 65536 - unat (bend buf)"
  by (simp add: buf_ok_def buffer_space_def unat_sub unat_FBS)

lemma unat_add_of_nat:
  "unat (x :: size_t) + n \<le> 65536 \<Longrightarrow> unat (x + of_nat n) = unat x + n"
  by (simp add: unat_word_ariths unat_of_nat)

lemma length_in_transit: "buf_ok buf \<Longrightarrow> length (in_transit buf) = unat (bend buf) - unat (bstart buf)"
  by (simp add: in_transit_def unat_pending)

lemma buffer_empty_iff: "buf_ok buf \<Longrightarrow> buffer_empty buf \<longleftrightarrow> in_transit buf = []"
  by (auto simp add: buffer_empty_def in_transit_def unat_pending buf_ok_nat word_unat_eq_iff)

lemma buf_ok_compact [inv_intros]: "buf_ok buf \<Longrightarrow> buf_ok (buffer_compact buf)"
  using unat_pending [of buf] by (auto simp: buffer_compact_def buf_ok_nat Let_def)

lemma in_transit_compact: "buf_ok buf \<Longrightarrow> in_transit (buffer_compact buf) = in_transit buf"
  by (auto simp: buffer_compact_def in_transit_def Let_def buffer_pending_def mem_simps
      word_gt_0)

lemma buf_ok_reset [inv_intros]: "buf_ok buf \<Longrightarrow> buf_ok (buffer_reset_if_empty buf)"
  by (auto simp: buffer_reset_if_empty_def buf_ok_def)

lemma in_transit_reset: "in_transit (buffer_reset_if_empty buf) = in_transit buf"
  by (simp add: buffer_reset_if_empty_def in_transit_def buffer_pending_def)

text \<open>Filling.  The compaction step in front is a change of representation only.\<close>

definition make_room :: "io_buffer \<Rightarrow> io_buffer" where
  "make_room buf = (if buffer_space buf = 0 \<and> bstart buf > 0 then buffer_compact buf else buf)"

lemma make_room_ok [inv_intros]: "buf_ok buf \<Longrightarrow> buf_ok (make_room buf)"
  by (simp add: make_room_def inv_intros)

lemma in_transit_make_room: "buf_ok buf \<Longrightarrow> in_transit (make_room buf) = in_transit buf"
  by (simp add: make_room_def in_transit_compact)

definition append_bytes :: "io_buffer \<Rightarrow> u8 list \<Rightarrow> io_buffer" where
  "append_bytes buf bs = buf\<lparr>bdata := mem_write (bdata buf) (unat (bend buf)) bs,
                             bend := bend buf + of_nat (length bs)\<rparr>"

lemma append_bytes_ok:
  assumes "buf_ok buf" and "length bs \<le> unat (buffer_space buf)"
  shows "buf_ok (append_bytes buf bs) \<and> in_transit (append_bytes buf bs) = in_transit buf @ bs"
proof -
  let ?s = "unat (bstart buf)" and ?e = "unat (bend buf)"
  have le: "?s \<le> ?e" "?e + length bs \<le> 65536"
    using assms by (auto simp: buf_ok_nat unat_space)
  have e': "unat (bend buf + of_nat (length bs)) = ?e + length bs"
    using le by (simp add: unat_add_of_nat)
  have ok: "buf_ok (append_bytes buf bs)"
    using le e' by (simp add: buf_ok_nat append_bytes_def)
  have "mem_read (mem_write (bdata buf) (?s + (?e - ?s)) bs) ?s (?e - ?s + length bs)
        = mem_read (bdata buf) ?s (?e - ?s) @ bs"
    by (rule mem_read_write_extend)
  then have "in_transit (append_bytes buf bs) = in_transit buf @ bs"
    using le ok assms(1) e' by (simp add: in_transit_def unat_pending append_bytes_def)
  with ok show ?thesis ..
qed

lemma receive_eq:
  "receive_into_buffer f k buf =
     (if buffer_space (make_room buf) = 0 then (0, make_room buf, [])
      else case k (buffer_space (make_room buf)) of
        Recv bs \<Rightarrow> if length bs > 0 then (1, append_bytes (make_room buf) bs, [A_recv f bs])
                  else (2, make_room buf, [A_recv f []])
      | Recv_err e \<Rightarrow> if e = EAGAIN \<or> e = EWOULDBLOCK then (0, make_room buf, [])
                       else if e = EINTR then (0, make_room buf, []) else (-1, make_room buf, []))"
  unfolding receive_into_buffer_def make_room_def append_bytes_def by (simp only: Let_def)

lemma receive_cases:
  assumes "receive_into_buffer f k buf = (r, buf', acts)"
  obtains (none) "r \<in> {0, -1}" "buf' = make_room buf" "acts = []"
  | (fin) "r = 2" "buf' = make_room buf" "acts = [A_recv f []]"
  | (data) bs where "r = 1" "bs \<noteq> []" "k (buffer_space (make_room buf)) = Recv bs"
      "buf' = append_bytes (make_room buf) bs" "acts = [A_recv f bs]"
proof (cases "buffer_space (make_room buf) = 0")
  case True
  with assms receive_eq [of f k buf] none show thesis by simp
next
  case False
  with assms receive_eq [of f k buf] none fin data show thesis
    by (cases "k (buffer_space (make_room buf))") (auto split: if_splits)
qed

text \<open>Draining.\<close>

lemma advance_start:
  assumes "buf_ok buf" and "n \<le> length (in_transit buf)"
  shows "buf_ok (buf\<lparr>bstart := bstart buf + of_nat n\<rparr>)
    \<and> in_transit (buf\<lparr>bstart := bstart buf + of_nat n\<rparr>) = drop n (in_transit buf)"
proof -
  let ?s = "unat (bstart buf)" and ?e = "unat (bend buf)"
  have le: "?s + n \<le> ?e" "?e \<le> 65536"
    using assms by (auto simp: buf_ok_nat length_in_transit)
  then have s': "unat (bstart buf + of_nat n) = ?s + n"
    by (simp add: unat_add_of_nat)
  have ok: "buf_ok (buf\<lparr>bstart := bstart buf + of_nat n\<rparr>)"
    using le s' by (simp add: buf_ok_nat)
  with assms(1) le s' show ?thesis
    by (simp add: in_transit_def unat_pending mem_read_drop)
qed

lemma flush_cases:
  assumes "flush_buffer f k buf = (r, buf', acts)"
  obtains (none) "r \<in> {0, -1}" "buf' = buf" "acts = []"
  | (sent) n where "r = 1" "k (in_transit buf) = Sent n" "0 < n"
      "buf' = buffer_reset_if_empty (buf\<lparr>bstart := bstart buf + of_nat n\<rparr>)"
      "acts = [A_send f (take n (in_transit buf))]"
proof -
  have eq: "flush_buffer f k buf =
      (if buffer_empty buf then (0, buf, [])
       else case k (in_transit buf) of
         Sent n \<Rightarrow> if n > 0
                   then (1, buffer_reset_if_empty (buf\<lparr>bstart := bstart buf + of_nat n\<rparr>),
                         [A_send f (take n (in_transit buf))])
                   else (0, buf, [])
       | Send_err e \<Rightarrow> if e = EAGAIN \<or> e = EWOULDBLOCK then (0, buf, [])
                        else if e = EINTR then (0, buf, []) else (-1, buf, []))"
    unfolding flush_buffer_def in_transit_def by (simp only: Let_def)
  show thesis
  proof (cases "buffer_empty buf")
    case True
    with assms eq none show thesis by simp
  next
    case False
    with assms eq none sent show thesis
      by (cases "k (in_transit buf)") (auto split: if_splits)
  qed
qed

section \<open>The channel contract\<close>

locale byte_channel =
  fixes ok :: "'b \<Rightarrow> bool"
    and contents :: "'b \<Rightarrow> u8 list"
    and fill :: "fd \<Rightarrow> (size_t \<Rightarrow> recv_ans) \<Rightarrow> 'b \<Rightarrow> int \<times> 'b \<times> io_act list"
    and drain :: "fd \<Rightarrow> (u8 list \<Rightarrow> send_ans) \<Rightarrow> 'b \<Rightarrow> int \<times> 'b \<times> io_act list"
  assumes fill_keeps: "ok b \<Longrightarrow> recv_ok k \<Longrightarrow> fill f k b = (r, b', as) \<Longrightarrow> ok b'"
    and fill_appends: "ok b \<Longrightarrow> recv_ok k \<Longrightarrow> fill f k b = (r, b', as)
      \<Longrightarrow> contents b' = contents b @ recvd f as"
    and fill_acts: "fill f k b = (r, b', as) \<Longrightarrow> as = [] \<or> (\<exists>bs. as = [A_recv f bs])"
    and drain_keeps: "ok b \<Longrightarrow> send_ok q \<Longrightarrow> drain f q b = (r, b', as) \<Longrightarrow> ok b'"
    and drain_removes: "ok b \<Longrightarrow> send_ok q \<Longrightarrow> drain f q b = (r, b', as)
      \<Longrightarrow> contents b = sent f as @ contents b'"
    and drain_acts: "drain f q b = (r, b', as) \<Longrightarrow> as = [] \<or> (\<exists>bs. as = [A_send f bs])"
begin

text \<open>
  \<open>flow b rx tx b'\<close>: going from \<open>b\<close> to \<open>b'\<close> the channel took in \<open>rx\<close> and gave out \<open>tx\<close>,
  and lost, duplicated and reordered nothing.
\<close>

definition flow :: "'b \<Rightarrow> u8 list \<Rightarrow> u8 list \<Rightarrow> 'b \<Rightarrow> bool" where
  "flow b rx tx b' \<longleftrightarrow> contents b @ rx = tx @ contents b'"

lemma flow_refl: "flow b [] [] b"
  by (simp add: flow_def)

lemma flow_trans: "flow b rx tx b1 \<Longrightarrow> flow b1 rx' tx' b2 \<Longrightarrow> flow b (rx @ rx') (tx @ tx') b2"
  unfolding flow_def by (metis append.assoc)

lemma flow_fill:
  assumes "ok b" "recv_ok k" "fill f k b = (r, b', as)"
  shows "ok b' \<and> flow b (recvd f as) [] b' \<and> sent g as = []"
  using assms fill_keeps fill_appends fill_acts [OF assms(3)] by (auto simp: flow_def)

lemma flow_drain:
  assumes "ok b" "send_ok q" "drain f q b = (r, b', as)"
  shows "ok b' \<and> flow b [] (sent f as) b' \<and> recvd g as = []"
  using assms drain_keeps drain_removes drain_acts [OF assms(3)] by (auto simp: flow_def)

lemma flow_conserves: "flow b rx tx b' \<Longrightarrow> length (contents b) + length rx = length tx + length (contents b')"
  by (metis flow_def length_append)

end

interpretation fwd: byte_channel buf_ok in_transit receive_into_buffer flush_buffer
proof unfold_locales
  fix b k f r b' as
  assume ok: "buf_ok b" and k: "recv_ok k" and step: "receive_into_buffer f k b = (r, b', as)"
  have "buf_ok b' \<and> in_transit b' = in_transit b @ recvd f as"
    using step
  proof (cases rule: receive_cases)
    case (data bs)
    have "length bs \<le> unat (buffer_space (make_room b))"
      using k data(3) by (rule recv_okD)
    with data ok show ?thesis
      by (simp add: append_bytes_ok inv_intros in_transit_make_room)
  qed (use ok in \<open>simp_all add: inv_intros in_transit_make_room\<close>)
  then show "buf_ok b'" and "in_transit b' = in_transit b @ recvd f as" by simp_all
next
  fix f k b r b' as
  assume "receive_into_buffer f k b = (r, b', as)"
  then show "as = [] \<or> (\<exists>bs. as = [A_recv f bs])" by (cases rule: receive_cases) auto
next
  fix b q f r b' as
  assume ok: "buf_ok b" and q: "send_ok q" and step: "flush_buffer f q b = (r, b', as)"
  have "buf_ok b' \<and> in_transit b = sent f as @ in_transit b'"
    using step
  proof (cases rule: flush_cases)
    case (sent n)
    have "n \<le> length (in_transit b)" using q sent(2) by (rule send_okD)
    with sent ok show ?thesis
      using advance_start [of b n] by (simp add: inv_intros in_transit_reset)
  qed (use ok in simp_all)
  then show "buf_ok b'" and "in_transit b = sent f as @ in_transit b'" by simp_all
next
  fix f q b r b' as
  assume "flush_buffer f q b = (r, b', as)"
  then show "as = [] \<or> (\<exists>bs. as = [A_send f bs])" by (cases rule: flush_cases) auto
qed

end
