(* ===== verification/Accel_Conn.thy ===== *)
theory Accel_Conn
  imports Accel_Buffer
begin

text \<open>
  One split connection of \<open>tcp_accelerator.c\<close>: the two endpoints, a forwarding buffer per
  direction and the half-close flags, with the event handlers \<open>process_client_event\<close> and
  \<open>process_server_event\<close>, the interest calculation \<open>update_connection_events\<close> and the
  \<open>connection_finished\<close> test.  A run feeds a connection a list of epoll events, each with
  the kernel's answers to the calls its handler makes.
\<close>

section \<open>Data\<close>

datatype endpoint_type = ENDPOINT_LISTENER | ENDPOINT_CLIENT | ENDPOINT_SERVER

text \<open>\<open>ep_conn\<close> is the address of the owning connection, \<open>None\<close> for the null pointer.\<close>

record endpoint =
  ep_fd :: fd
  ep_type :: endpoint_type
  ep_conn :: "nat option"

record connection =
  client :: endpoint
  server :: endpoint
  c2s :: io_buffer
  s2c :: io_buffer
  client_read_open :: bool
  server_read_open :: bool
  client_write_closed :: bool
  server_write_closed :: bool

abbreviation cfd :: "connection \<Rightarrow> fd" where "cfd conn \<equiv> ep_fd (client conn)"
abbreviation sfd :: "connection \<Rightarrow> fd" where "sfd conn \<equiv> ep_fd (server conn)"

text \<open>The kernel's answers during one handler: one \<open>recv\<close>, one \<open>send\<close>, and \<open>epoll_ctl\<close>.\<close>

record sock_env =
  k_recv :: "size_t \<Rightarrow> recv_ans"
  k_send :: "u8 list \<Rightarrow> send_ans"
  k_mod :: "fd \<Rightarrow> u32 \<Rightarrow> bool"

definition env_ok :: "sock_env \<Rightarrow> bool" where
  "env_ok env \<longleftrightarrow> recv_ok (k_recv env) \<and> send_ok (k_send env)"

section \<open>Epoll interest\<close>

definition epoll_modify :: "(fd \<Rightarrow> u32 \<Rightarrow> bool) \<Rightarrow> endpoint \<Rightarrow> u32 \<Rightarrow> int \<times> io_act list" where
  "epoll_modify k ep events =
     (if k (ep_fd ep) events then (0, [A_epoll_mod (ep_fd ep) events]) else (-1, []))"

definition client_interest :: "connection \<Rightarrow> u32" where
  "client_interest conn =
     (let e = (if client_read_open conn \<and> (buffer_space (c2s conn) > 0 \<or> bstart (c2s conn) > 0)
               then EPOLLIN else 0);
          e = (if \<not> buffer_empty (s2c conn) then e OR EPOLLOUT else e)
      in e OR EPOLLRDHUP)"

definition server_interest :: "connection \<Rightarrow> u32" where
  "server_interest conn =
     (let e = (if server_read_open conn \<and> (buffer_space (s2c conn) > 0 \<or> bstart (s2c conn) > 0)
               then EPOLLIN else 0);
          e = (if \<not> buffer_empty (c2s conn) then e OR EPOLLOUT else e)
      in e OR EPOLLRDHUP)"

definition update_connection_events ::
    "(fd \<Rightarrow> u32 \<Rightarrow> bool) \<Rightarrow> connection \<Rightarrow> int \<times> io_act list" where
  "update_connection_events k conn =
     (case epoll_modify k (client conn) (client_interest conn) of (r, as) \<Rightarrow>
        if r < 0 then (-1, as)
        else case epoll_modify k (server conn) (server_interest conn) of (r', as') \<Rightarrow>
          if r' < 0 then (-1, as @ as') else (0, as @ as'))"

section \<open>The event handlers\<close>

definition process_client_event ::
    "sock_env \<Rightarrow> connection \<Rightarrow> u32 \<Rightarrow> int \<times> connection \<times> io_act list" where
  "process_client_event env conn events =
     (let (r, buf, as) = (if has events EPOLLIN
                          then receive_into_buffer (cfd conn) (k_recv env) (c2s conn)
                          else (0, c2s conn, []));
          conn = conn\<lparr>c2s := buf\<rparr>
      in if r < 0 then (-1, conn, as) else
      let conn = (if r = 2 then conn\<lparr>client_read_open := False\<rparr> else conn);
          (r, buf, as2) = (if has events EPOLLOUT
                           then flush_buffer (cfd conn) (k_send env) (s2c conn)
                           else (0, s2c conn, []));
          conn = conn\<lparr>s2c := buf\<rparr>;
          as = as @ as2
      in if r < 0 then (-1, conn, as)
      else if has events (EPOLLERR OR EPOLLHUP) then (-1, conn, as) else
      let conn = (if has events EPOLLRDHUP then conn\<lparr>client_read_open := False\<rparr> else conn);
          fin = (\<not> client_read_open conn \<and> buffer_empty (c2s conn) \<and> \<not> server_write_closed conn);
          as = (if fin then as @ [A_shutdown_wr (sfd conn)] else as);
          conn = (if fin then conn\<lparr>server_write_closed := True\<rparr> else conn);
          (r, as3) = update_connection_events (k_mod env) conn
      in (if r < 0 then -1 else 0, conn, as @ as3))"

definition process_server_event ::
    "sock_env \<Rightarrow> connection \<Rightarrow> u32 \<Rightarrow> int \<times> connection \<times> io_act list" where
  "process_server_event env conn events =
     (let (r, buf, as) = (if has events EPOLLIN
                          then receive_into_buffer (sfd conn) (k_recv env) (s2c conn)
                          else (0, s2c conn, []));
          conn = conn\<lparr>s2c := buf\<rparr>
      in if r < 0 then (-1, conn, as) else
      let conn = (if r = 2 then conn\<lparr>server_read_open := False\<rparr> else conn);
          (r, buf, as2) = (if has events EPOLLOUT
                           then flush_buffer (sfd conn) (k_send env) (c2s conn)
                           else (0, c2s conn, []));
          conn = conn\<lparr>c2s := buf\<rparr>;
          as = as @ as2
      in if r < 0 then (-1, conn, as)
      else if has events (EPOLLERR OR EPOLLHUP) then (-1, conn, as) else
      let conn = (if has events EPOLLRDHUP then conn\<lparr>server_read_open := False\<rparr> else conn);
          fin = (\<not> server_read_open conn \<and> buffer_empty (s2c conn) \<and> \<not> client_write_closed conn);
          as = (if fin then as @ [A_shutdown_wr (cfd conn)] else as);
          conn = (if fin then conn\<lparr>client_write_closed := True\<rparr> else conn);
          (r, as3) = update_connection_events (k_mod env) conn
      in (if r < 0 then -1 else 0, conn, as @ as3))"

definition connection_finished :: "connection \<Rightarrow> bool" where
  "connection_finished conn \<longleftrightarrow>
     \<not> client_read_open conn \<and> \<not> server_read_open conn \<and>
     buffer_empty (c2s conn) \<and> buffer_empty (s2c conn)"

text \<open>
  The main loop's treatment of one event of a connection: dispatch on the endpoint, then
  the connection lives on unless the handler failed or both directions are finished.
\<close>

datatype conn_event = Client_event sock_env u32 | Server_event sock_env u32

primrec process_event :: "connection \<Rightarrow> conn_event \<Rightarrow> int \<times> connection \<times> io_act list" where
  "process_event conn (Client_event env evs) = process_client_event env conn evs"
| "process_event conn (Server_event env evs) = process_server_event env conn evs"

fun conn_run :: "connection \<Rightarrow> conn_event list \<Rightarrow> bool \<times> connection \<times> io_act list" where
  "conn_run conn [] = (True, conn, [])"
| "conn_run conn (ev # evs) =
     (case process_event conn ev of (r, conn', as) \<Rightarrow>
        if r < 0 \<or> connection_finished conn' then (False, conn', as)
        else case conn_run conn' evs of (alive, conn'', as') \<Rightarrow> (alive, conn'', as @ as'))"

primrec event_env :: "conn_event \<Rightarrow> sock_env" where
  "event_env (Client_event env evs) = env"
| "event_env (Server_event env evs) = env"

end
