(* ===== verification/Accel_Half.thy ===== *)
theory Accel_Half
  imports Accel_Conn
begin

text \<open>
  The two event handlers of a split connection are the same program with the roles of the
  endpoints exchanged.  \<open>half_event\<close> is that program over the part of the connection it
  works on: the buffer it fills, its read-open flag, the peer's write-closed flag and the
  buffer it drains.  Both handlers are shown to be instances, and \<open>half_step\<close> says what an
  instance can do; the flow and half-close theorems are proved from it once.
\<close>

type_synonym half = "io_buffer \<times> bool \<times> bool \<times> io_buffer"

definition half_event :: "sock_env \<Rightarrow> u32 \<Rightarrow> fd \<Rightarrow> fd \<Rightarrow> (half \<Rightarrow> int \<times> io_act list) \<Rightarrow>
    half \<Rightarrow> int \<times> half \<times> io_act list" where
  "half_event env evs f g upd = (\<lambda>(inb, ro, wc, outb).
     case (if has evs EPOLLIN then receive_into_buffer f (k_recv env) inb else (0, inb, []))
     of (r1, b1, a1) \<Rightarrow>
     case (if has evs EPOLLOUT then flush_buffer f (k_send env) outb else (0, outb, []))
     of (r2, b2, a2) \<Rightarrow>
     if r1 < 0 then (-1, (b1, ro, wc, outb), a1)
     else if r2 < 0 \<or> has evs (EPOLLERR OR EPOLLHUP)
     then (-1, (b1, ro \<and> r1 \<noteq> 2, wc, b2), a1 @ a2)
     else let ro' = (ro \<and> r1 \<noteq> 2 \<and> \<not> has evs EPOLLRDHUP);
              fin = (\<not> ro' \<and> buffer_empty b1 \<and> \<not> wc)
          in case upd (b1, ro', wc \<or> fin, b2) of (r3, a3) \<Rightarrow>
             (if r3 < 0 then -1 else 0, (b1, ro', wc \<or> fin, b2),
              a1 @ a2 @ (if fin then [A_shutdown_wr g] else []) @ a3))"

definition client_half :: "connection \<Rightarrow> half" where
  "client_half conn = (c2s conn, client_read_open conn, server_write_closed conn, s2c conn)"

definition server_half :: "connection \<Rightarrow> half" where
  "server_half conn = (s2c conn, server_read_open conn, client_write_closed conn, c2s conn)"

definition set_client_half :: "connection \<Rightarrow> half \<Rightarrow> connection" where
  "set_client_half conn = (\<lambda>(inb, ro, wc, outb).
     conn\<lparr>c2s := inb, s2c := outb, client_read_open := ro, server_write_closed := wc\<rparr>)"

definition set_server_half :: "connection \<Rightarrow> half \<Rightarrow> connection" where
  "set_server_half conn = (\<lambda>(inb, ro, wc, outb).
     conn\<lparr>s2c := inb, c2s := outb, server_read_open := ro, client_write_closed := wc\<rparr>)"

lemmas half_defs = half_event_def client_half_def server_half_def
  set_client_half_def set_server_half_def

lemma process_client_half:
  "process_client_event env conn evs =
     (case half_event env evs (cfd conn) (sfd conn)
        (\<lambda>h. update_connection_events (k_mod env) (set_client_half conn h)) (client_half conn)
      of (r, h, as) \<Rightarrow> (r, set_client_half conn h, as))"
proof -
  obtain cl se b c co so cw sw where conn: "conn = \<lparr>client = cl, server = se, c2s = b, s2c = c,
      client_read_open = co, server_read_open = so, client_write_closed = cw,
      server_write_closed = sw\<rparr>"
    by (cases conn)
  obtain r1 b1 a1 where r1: "receive_into_buffer (ep_fd cl) (k_recv env) b = (r1, b1, a1)"
    by (metis prod_cases3)
  obtain r2 b2 a2 where r2: "flush_buffer (ep_fd cl) (k_send env) c = (r2, b2, a2)"
    by (metis prod_cases3)
  show ?thesis
    unfolding process_client_event_def half_defs conn
    by (cases "has evs EPOLLIN"; cases "has evs EPOLLOUT"; cases "has evs EPOLLRDHUP";
        cases "r1 = 2"; cases sw; cases co)
      (simp_all add: r1 r2 Let_def split: prod.split)
qed

lemma process_server_half:
  "process_server_event env conn evs =
     (case half_event env evs (sfd conn) (cfd conn)
        (\<lambda>h. update_connection_events (k_mod env) (set_server_half conn h)) (server_half conn)
      of (r, h, as) \<Rightarrow> (r, set_server_half conn h, as))"
proof -
  obtain cl se b c co so cw sw where conn: "conn = \<lparr>client = cl, server = se, c2s = b, s2c = c,
      client_read_open = co, server_read_open = so, client_write_closed = cw,
      server_write_closed = sw\<rparr>"
    by (cases conn)
  obtain r1 b1 a1 where r1: "receive_into_buffer (ep_fd se) (k_recv env) c = (r1, b1, a1)"
    by (metis prod_cases3)
  obtain r2 b2 a2 where r2: "flush_buffer (ep_fd se) (k_send env) b = (r2, b2, a2)"
    by (metis prod_cases3)
  show ?thesis
    unfolding process_server_event_def half_defs conn
    by (cases "has evs EPOLLIN"; cases "has evs EPOLLOUT"; cases "has evs EPOLLRDHUP";
        cases "r1 = 2"; cases cw; cases so)
      (simp_all add: r1 r2 Let_def split: prod.split)
qed

section \<open>What one half event can do\<close>

definition half_step :: "sock_env \<Rightarrow> u32 \<Rightarrow> fd \<Rightarrow> fd \<Rightarrow> half \<Rightarrow> int \<Rightarrow> half \<Rightarrow> io_act list \<Rightarrow> bool" where
  "half_step env evs f g = (\<lambda>(inb, ro, wc, outb) r (inb', ro', wc', outb') as.
     \<exists>a1 a2 fin a3.
       as = a1 @ a2 @ (if fin then [A_shutdown_wr g] else []) @ a3 \<and>
       (inb' = inb \<and> a1 = [] \<or>
        has evs EPOLLIN \<and> (\<exists>r1. receive_into_buffer f (k_recv env) inb = (r1, inb', a1))) \<and>
       (outb' = outb \<and> a2 = [] \<or>
        has evs EPOLLOUT \<and> (\<exists>r2. flush_buffer f (k_send env) outb = (r2, outb', a2))) \<and>
       (ro' \<longrightarrow> ro) \<and> wc' = (wc \<or> fin) \<and>
       (fin \<longrightarrow> \<not> ro' \<and> buffer_empty inb' \<and> \<not> wc) \<and>
       (\<forall>a \<in> set a3. \<exists>h e. a = A_epoll_mod h e) \<and>
       (r = 0 \<longrightarrow> (has evs EPOLLRDHUP \<longrightarrow> \<not> ro') \<and> (\<not> ro' \<and> buffer_empty inb' \<longrightarrow> wc')))"

lemma update_events_acts:
  "update_connection_events k conn = (r, as) \<Longrightarrow> \<forall>a \<in> set as. \<exists>h e. a = A_epoll_mod h e"
  by (auto simp: update_connection_events_def epoll_modify_def split: if_splits prod.splits)

lemma half_event_step:
  assumes ev: "half_event env evs f g upd h = (r, h', as)"
    and upd: "\<And>h r as. upd h = (r, as) \<Longrightarrow> \<forall>a \<in> set as. \<exists>i e. a = A_epoll_mod i e"
  shows "half_step env evs f g h r h' as"
proof -
  obtain inb ro wc outb where h: "h = (inb, ro, wc, outb)" by (metis prod_cases4)
  obtain r1 b1 a1 where r1: "(if has evs EPOLLIN then receive_into_buffer f (k_recv env) inb
      else (0, inb, [])) = (r1, b1, a1)" by (metis prod_cases3)
  obtain r2 b2 a2 where r2: "(if has evs EPOLLOUT then flush_buffer f (k_send env) outb
      else (0, outb, [])) = (r2, b2, a2)" by (metis prod_cases3)
  have in1: "b1 = inb \<and> a1 = [] \<or>
      has evs EPOLLIN \<and> (\<exists>r. receive_into_buffer f (k_recv env) inb = (r, b1, a1))"
    using r1 by (auto split: if_splits)
  have out2: "b2 = outb \<and> a2 = [] \<or>
      has evs EPOLLOUT \<and> (\<exists>r. flush_buffer f (k_send env) outb = (r, b2, a2))"
    using r2 by (auto split: if_splits)
  define ro' where "ro' \<longleftrightarrow> ro \<and> r1 \<noteq> 2 \<and> \<not> has evs EPOLLRDHUP"
  define fin where "fin \<longleftrightarrow> \<not> ro' \<and> buffer_empty b1 \<and> \<not> wc"
  obtain r3 a3 where r3: "upd (b1, ro', wc \<or> fin, b2) = (r3, a3)" by (metis prod.exhaust)
  have "half_event env evs f g upd h =
     (if r1 < 0 then (-1, (b1, ro, wc, outb), a1)
      else if r2 < 0 \<or> has evs (EPOLLERR OR EPOLLHUP) then (-1, (b1, ro \<and> r1 \<noteq> 2, wc, b2), a1 @ a2)
      else (if r3 < 0 then -1 else 0, (b1, ro', wc \<or> fin, b2),
            a1 @ a2 @ (if fin then [A_shutdown_wr g] else []) @ a3))"
    by (simp add: half_event_def h r1 r2 Let_def ro'_def [symmetric] fin_def [symmetric] r3)
  with ev consider (recv) "r = -1" "h' = (b1, ro, wc, outb)" "as = a1"
    | (send) "r = -1" "h' = (b1, ro \<and> r1 \<noteq> 2, wc, b2)" "as = a1 @ a2"
    | (upd) "h' = (b1, ro', wc \<or> fin, b2)"
        "as = a1 @ a2 @ (if fin then [A_shutdown_wr g] else []) @ a3"
    by (auto split: if_splits)
  then show ?thesis
  proof cases
    case recv
    show ?thesis unfolding half_step_def h recv prod.case
      by (rule exI [of _ a1], rule exI [of _ "[]"], rule exI [of _ False], rule exI [of _ "[]"])
        (use in1 in simp)
  next
    case send
    show ?thesis unfolding half_step_def h send prod.case
      by (rule exI [of _ a1], rule exI [of _ a2], rule exI [of _ False], rule exI [of _ "[]"])
        (use in1 out2 in simp)
  next
    case upd
    show ?thesis unfolding half_step_def h upd prod.case
      by (rule exI [of _ a1], rule exI [of _ a2], rule exI [of _ fin], rule exI [of _ a3])
        (use assms(2) [OF r3] in1 out2 in \<open>simp add: ro'_def fin_def\<close>)
  qed
qed

lemma client_event_step:
  assumes "process_client_event env conn evs = (r, conn', as)"
  obtains h where "half_step env evs (cfd conn) (sfd conn) (client_half conn) r h as"
    "conn' = set_client_half conn h"
proof -
  let ?upd = "\<lambda>h. update_connection_events (k_mod env) (set_client_half conn h)"
  obtain r' h as' where e: "half_event env evs (cfd conn) (sfd conn) ?upd (client_half conn) = (r', h, as')"
    by (metis prod_cases3)
  have "half_step env evs (cfd conn) (sfd conn) (client_half conn) r' h as'"
    using e update_events_acts by (rule half_event_step)
  with that assms show thesis by (simp add: process_client_half e)
qed

lemma server_event_step:
  assumes "process_server_event env conn evs = (r, conn', as)"
  obtains h where "half_step env evs (sfd conn) (cfd conn) (server_half conn) r h as"
    "conn' = set_server_half conn h"
proof -
  let ?upd = "\<lambda>h. update_connection_events (k_mod env) (set_server_half conn h)"
  obtain r' h as' where e: "half_event env evs (sfd conn) (cfd conn) ?upd (server_half conn) = (r', h, as')"
    by (metis prod_cases3)
  have "half_step env evs (sfd conn) (cfd conn) (server_half conn) r' h as'"
    using e update_events_acts by (rule half_event_step)
  with that assms show thesis by (simp add: process_server_half e)
qed

section \<open>Flow through one half event\<close>

lemma no_bytes_in_mods:
  "\<forall>a \<in> set as. \<exists>h e. a = A_epoll_mod h e \<Longrightarrow> recvd f as = [] \<and> sent f as = []"
  by (induction as) auto

lemma half_step_flow:
  assumes st: "half_step env evs f g (inb, ro, wc, outb) r (inb', ro', wc', outb') as"
    and ok: "buf_ok inb" "buf_ok outb" "env_ok env" and fg: "f \<noteq> g"
  shows "buf_ok inb' \<and> buf_ok outb' \<and>
    fwd.flow inb (recvd f as) [] inb' \<and> fwd.flow outb [] (sent f as) outb' \<and>
    recvd g as = [] \<and> sent g as = []"
proof -
  obtain a1 a2 fin a3 where as: "as = a1 @ a2 @ (if fin then [A_shutdown_wr g] else []) @ a3"
    and inn: "inb' = inb \<and> a1 = [] \<or> (\<exists>r1. receive_into_buffer f (k_recv env) inb = (r1, inb', a1))"
    and out: "outb' = outb \<and> a2 = [] \<or> (\<exists>r2. flush_buffer f (k_send env) outb = (r2, outb', a2))"
    and a3: "\<forall>a \<in> set a3. \<exists>h e. a = A_epoll_mod h e"
    using st unfolding half_step_def prod.case by blast
  have k: "recv_ok (k_recv env)" "send_ok (k_send env)"
    using ok(3) by (auto simp: env_ok_def)
  have in1: "buf_ok inb' \<and> fwd.flow inb (recvd f a1) [] inb' \<and> sent f a1 = [] \<and> sent g a1 = []
      \<and> recvd g a1 = []"
    using inn fwd.flow_fill [OF ok(1) k(1)] fwd.fill_acts fg ok(1)
    by (fastforce simp: fwd.flow_refl)
  have out2: "buf_ok outb' \<and> fwd.flow outb [] (sent f a2) outb' \<and> recvd f a2 = [] \<and> recvd g a2 = []
      \<and> sent g a2 = []"
    using out fwd.flow_drain [OF ok(2) k(2)] fwd.drain_acts fg ok(2)
    by (fastforce simp: fwd.flow_refl)
  from in1 out2 show ?thesis
    by (cases fin) (simp_all add: as no_bytes_in_mods [OF a3])
qed

end
