(* ===== verification/Accel_Flow.thy ===== *)
theory Accel_Flow
  imports Accel_Half
begin

text \<open>
  Runs of one split connection: what was received on one side is what was sent on the other
  side followed by what is still buffered, and the FIN of a direction is produced once, after
  the last byte of that direction.  Epoll reports \<open>EPOLLIN\<close> and \<open>EPOLLOUT\<close> only for a
  descriptor whose registered interest asks for them; \<open>armed_run\<close> states that of a run.
\<close>

definition conn_ok :: "connection \<Rightarrow> bool" where
  "conn_ok conn \<longleftrightarrow> buf_ok (c2s conn) \<and> buf_ok (s2c conn) \<and> cfd conn \<noteq> sfd conn"

text \<open>One direction each: \<open>c2s\<close> carries client bytes to the server, \<open>s2c\<close> the converse.\<close>

abbreviation conn_flow :: "connection \<Rightarrow> io_act list \<Rightarrow> connection \<Rightarrow> bool" where
  "conn_flow conn as conn' \<equiv>
     fwd.flow (c2s conn) (recvd (cfd conn) as) (sent (sfd conn) as) (c2s conn') \<and>
     fwd.flow (s2c conn) (recvd (sfd conn) as) (sent (cfd conn) as) (s2c conn')"

lemma event_flow:
  assumes "process_event conn ev = (r, conn', as)" and "conn_ok conn" and "env_ok (event_env ev)"
  shows "conn_ok conn' \<and> client conn' = client conn \<and> server conn' = server conn
    \<and> conn_flow conn as conn'"
proof (cases ev)
  case (Client_event env evs)
  with assms(1) have "process_client_event env conn evs = (r, conn', as)" by simp
  then obtain h where h: "half_step env evs (cfd conn) (sfd conn) (client_half conn) r h as"
    and c: "conn' = set_client_half conn h"
    by (rule client_event_step)
  obtain b ro wc o' where hh: "h = (b, ro, wc, o')" by (metis prod_cases4)
  show ?thesis
    using half_step_flow [OF h [unfolded client_half_def hh]] assms(2,3) Client_event
    by (simp add: conn_ok_def c set_client_half_def hh)
next
  case (Server_event env evs)
  with assms(1) have "process_server_event env conn evs = (r, conn', as)" by simp
  then obtain h where h: "half_step env evs (sfd conn) (cfd conn) (server_half conn) r h as"
    and c: "conn' = set_server_half conn h"
    by (rule server_event_step)
  obtain b ro wc o' where hh: "h = (b, ro, wc, o')" by (metis prod_cases4)
  show ?thesis
    using half_step_flow [OF h [unfolded server_half_def hh]] assms(2,3) Server_event
    by (simp add: conn_ok_def c set_server_half_def hh)
qed

lemma conn_run_step:
  assumes "process_event conn ev = (r, conn1, as1)"
  shows "conn_run conn (ev # evs) =
    (if r < 0 \<or> connection_finished conn1 then (False, conn1, as1)
     else (fst (conn_run conn1 evs), fst (snd (conn_run conn1 evs)), as1 @ snd (snd (conn_run conn1 evs))))"
  using assms by (simp split: prod.split)

lemma run_flow:
  "conn_run conn evs = (alive, conn', as) \<Longrightarrow> conn_ok conn \<Longrightarrow> \<forall>ev \<in> set evs. env_ok (event_env ev)
   \<Longrightarrow> conn_ok conn' \<and> client conn' = client conn \<and> server conn' = server conn
     \<and> conn_flow conn as conn'"
proof (induction evs arbitrary: conn alive conn' as)
  case Nil
  then show ?case by (simp add: fwd.flow_refl)
next
  case (Cons ev evs)
  obtain r conn1 as1 where e: "process_event conn ev = (r, conn1, as1)" by (metis prod_cases3)
  have ev: "conn_ok conn1" "client conn1 = client conn" "server conn1 = server conn"
      "conn_flow conn as1 conn1"
    using event_flow [OF e Cons.prems(2)] Cons.prems(3) by auto
  show ?case
  proof (cases "r < 0 \<or> connection_finished conn1")
    case True
    with Cons.prems(1) e have "conn' = conn1 \<and> as = as1" by simp
    with ev show ?thesis by simp
  next
    case False
    obtain al2 conn2 as2 where r2: "conn_run conn1 evs = (al2, conn2, as2)" by (metis prod_cases3)
    with False Cons.prems(1) e have eq: "conn' = conn2" "as = as1 @ as2" by auto
    have "conn_ok conn2 \<and> client conn2 = client conn1 \<and> server conn2 = server conn1
        \<and> conn_flow conn1 as2 conn2"
      using Cons.IH [OF r2 ev(1)] Cons.prems(3) by simp
    with ev show ?thesis
      unfolding eq by (auto intro: fwd.flow_trans)
  qed
qed

section \<open>Half close\<close>

definition armed :: "u32 \<Rightarrow> u32 \<Rightarrow> bool" where
  "armed interest evs \<longleftrightarrow> (has evs EPOLLIN \<longrightarrow> has interest EPOLLIN)
     \<and> (has evs EPOLLOUT \<longrightarrow> has interest EPOLLOUT)"

primrec armed_event :: "connection \<Rightarrow> conn_event \<Rightarrow> bool" where
  "armed_event conn (Client_event env evs) = armed (client_interest conn) evs"
| "armed_event conn (Server_event env evs) = armed (server_interest conn) evs"

fun armed_run :: "connection \<Rightarrow> conn_event list \<Rightarrow> bool" where
  "armed_run conn [] = True"
| "armed_run conn (ev # evs) =
     (armed_event conn ev \<and>
      (case process_event conn ev of (r, conn', as) \<Rightarrow>
         r < 0 \<or> connection_finished conn' \<or> armed_run conn' evs))"

lemma has_interest:
  "has (client_interest conn) EPOLLIN \<longleftrightarrow>
     client_read_open conn \<and> (buffer_space (c2s conn) > 0 \<or> bstart (c2s conn) > 0)"
  "has (client_interest conn) EPOLLOUT \<longleftrightarrow> \<not> buffer_empty (s2c conn)"
  "has (server_interest conn) EPOLLIN \<longleftrightarrow>
     server_read_open conn \<and> (buffer_space (s2c conn) > 0 \<or> bstart (s2c conn) > 0)"
  "has (server_interest conn) EPOLLOUT \<longleftrightarrow> \<not> buffer_empty (c2s conn)"
  by (simp_all add: client_interest_def server_interest_def has_def epoll_bits Let_def)

text \<open>Once a side's FIN has been passed on, its direction is closed and drained.\<close>

definition fin_inv :: "connection \<Rightarrow> bool" where
  "fin_inv conn \<longleftrightarrow>
     (server_write_closed conn \<longrightarrow> \<not> client_read_open conn \<and> buffer_empty (c2s conn)) \<and>
     (client_write_closed conn \<longrightarrow> \<not> server_read_open conn \<and> buffer_empty (s2c conn))"

text \<open>
  What one event does to the client-to-server direction, seen from the log: either no FIN
  is produced for the server, or it comes after every byte this event sends to the server.
\<close>

lemma armed_no_fill:
  assumes "half_step env evs f g (inb, False, wc, outb) r (inb', ro', wc', outb') as"
    and "\<not> has evs EPOLLIN"
  shows "inb' = inb \<and> \<not> ro' \<and> recvd f as = []"
proof -
  obtain a2 fin a3 where as: "as = a2 @ (if fin then [A_shutdown_wr g] else []) @ a3"
    and out: "a2 = [] \<or> (\<exists>r2. flush_buffer f (k_send env) outb = (r2, outb', a2))"
    and a3: "\<forall>a \<in> set a3. \<exists>h e. a = A_epoll_mod h e" and "inb' = inb" "\<not> ro'"
    using assms unfolding half_step_def prod.case by auto
  moreover have "recvd f a2 = []"
    using out fwd.drain_acts by fastforce
  ultimately show ?thesis by (simp add: no_bytes_in_mods [OF a3])
qed

lemma half_step_recvd:
  assumes "half_step env evs f g (inb, ro, wc, outb) r (inb', ro', wc', outb') as" and "h \<noteq> f"
  shows "recvd h as = []"
proof -
  obtain a1 a2 fin a3 where as: "as = a1 @ a2 @ (if fin then [A_shutdown_wr g] else []) @ a3"
    and inn: "a1 = [] \<or> (\<exists>r1. receive_into_buffer f (k_recv env) inb = (r1, inb', a1))"
    and out: "a2 = [] \<or> (\<exists>r2. flush_buffer f (k_send env) outb = (r2, outb', a2))"
    and a3: "\<forall>a \<in> set a3. \<exists>h e. a = A_epoll_mod h e"
    using assms unfolding half_step_def prod.case by blast
  have "recvd h a1 = []" using inn fwd.fill_acts assms(2) by fastforce
  moreover have "recvd h a2 = []" using out fwd.drain_acts by fastforce
  ultimately show ?thesis by (simp add: as no_bytes_in_mods [OF a3])
qed

lemma half_step_log:
  assumes "half_step env evs f g (inb, ro, wc, outb) r (inb', ro', wc', outb') as"
  shows "A_shutdown_wr f \<notin> set as \<or> f = g"
    and "wc \<Longrightarrow> wc' \<and> A_shutdown_wr g \<notin> set as"
    and "as = pre @ A_shutdown_wr g # post \<Longrightarrow>
      \<not> ro' \<and> buffer_empty inb' \<and> wc' \<and> A_shutdown_wr g \<notin> set pre \<and> A_shutdown_wr g \<notin> set post
      \<and> recvd f pre = recvd f as \<and> recvd f post = [] \<and> (\<forall>h. sent h post = [])"
    and "wc' \<Longrightarrow> \<not> wc \<Longrightarrow> A_shutdown_wr g \<in> set as"
    and "A_shutdown_wr g \<in> set as \<Longrightarrow> wc'"
proof -
  obtain a1 a2 fin a3 where as: "as = a1 @ a2 @ (if fin then [A_shutdown_wr g] else []) @ a3"
    and inn: "a1 = [] \<or> (\<exists>r1. receive_into_buffer f (k_recv env) inb = (r1, inb', a1))"
    and out: "a2 = [] \<or> (\<exists>r2. flush_buffer f (k_send env) outb = (r2, outb', a2))"
    and a3: "\<forall>a \<in> set a3. \<exists>h e. a = A_epoll_mod h e"
    and fin: "wc' = (wc \<or> fin)" "fin \<longrightarrow> \<not> ro' \<and> buffer_empty inb' \<and> \<not> wc"
    using assms unfolding half_step_def prod.case by blast
  have no: "A_shutdown_wr h \<notin> set a1" "A_shutdown_wr h \<notin> set a2" "A_shutdown_wr h \<notin> set a3" for h
    using inn out a3 fwd.fill_acts fwd.drain_acts by fastforce+
  show "A_shutdown_wr f \<notin> set as \<or> f = g" using no by (auto simp: as)
  show "wc' \<and> A_shutdown_wr g \<notin> set as" if wc using no fin that by (auto simp: as)
  show "A_shutdown_wr g \<in> set as" if wc' "\<not> wc" using that fin by (simp add: as)
  show "wc'" if "A_shutdown_wr g \<in> set as" using that fin no by (auto simp: as split: if_splits)
  show "\<not> ro' \<and> buffer_empty inb' \<and> wc' \<and> A_shutdown_wr g \<notin> set pre \<and> A_shutdown_wr g \<notin> set post
      \<and> recvd f pre = recvd f as \<and> recvd f post = [] \<and> (\<forall>h. sent h post = [])"
    if split: "as = pre @ A_shutdown_wr g # post"
  proof -
    have "A_shutdown_wr g \<in> set as" by (simp add: split)
    then have f: fin using no by (auto simp: as split: if_splits)
    then have "(a1 @ a2) @ A_shutdown_wr g # a3 = pre @ A_shutdown_wr g # post"
      using split by (simp add: as)
    then have "pre = a1 @ a2 \<and> post = a3"
      using append_Cons_eq_iff [of "A_shutdown_wr g" "a1 @ a2" a3 pre post] no [of g] by simp
    with f fin no [of g] show ?thesis
      by (simp add: as no_bytes_in_mods [OF a3])
  qed
qed

text \<open>
  One direction of a connection: the buffer, whether its source may still be read, and
  whether its FIN has been passed on.  \<open>dir_ok f g x as y\<close> collects what a piece \<open>as\<close> of the
  log may do to the direction from \<open>f\<close> to \<open>g\<close>; pieces compose.
\<close>

type_synonym dir = "io_buffer \<times> bool \<times> bool"

definition dir_inv :: "dir \<Rightarrow> bool" where
  "dir_inv = (\<lambda>(b, ro, wc). buf_ok b \<and> (wc \<longrightarrow> \<not> ro \<and> buffer_empty b))"

definition fin_last :: "fd \<Rightarrow> fd \<Rightarrow> u8 list \<Rightarrow> io_act list \<Rightarrow> bool" where
  "fin_last f g b as \<longleftrightarrow> (\<forall>pre post. as = pre @ A_shutdown_wr g # post \<longrightarrow>
     b @ recvd f pre = sent g pre \<and> recvd f post = [] \<and> sent g post = [] \<and>
     A_shutdown_wr g \<notin> set pre \<and> A_shutdown_wr g \<notin> set post)"

definition dir_ok :: "fd \<Rightarrow> fd \<Rightarrow> dir \<Rightarrow> io_act list \<Rightarrow> dir \<Rightarrow> bool" where
  "dir_ok f g = (\<lambda>(b, ro, wc) as (b', ro', wc').
     dir_inv (b', ro', wc') \<and> fwd.flow b (recvd f as) (sent g as) b' \<and>
     (wc \<longrightarrow> wc' \<and> A_shutdown_wr g \<notin> set as \<and> recvd f as = [] \<and> sent g as = []) \<and>
     (A_shutdown_wr g \<in> set as \<longrightarrow> wc') \<and> (ro' \<longrightarrow> ro) \<and>
     fin_last f g (in_transit b) as)"

lemma fin_last_notin: "A_shutdown_wr g \<notin> set as \<Longrightarrow> fin_last f g b as"
  by (auto simp: fin_last_def)

lemma dir_ok_refl: "dir_inv x \<Longrightarrow> dir_ok f g x [] x"
  by (cases x) (auto simp: dir_ok_def fwd.flow_refl fin_last_notin)

lemma dir_ok_trans:
  assumes 1: "dir_ok f g x as y" and 2: "dir_ok f g y bs z"
  shows "dir_ok f g x (as @ bs) z"
proof -
  obtain b ro wc b1 ro1 wc1 b2 ro2 wc2
    where x: "x = (b, ro, wc)" and y: "y = (b1, ro1, wc1)" and z: "z = (b2, ro2, wc2)"
    by (metis prod_cases3)
  note d = 1 [unfolded x y dir_ok_def prod.case] 2 [unfolded y z dir_ok_def prod.case]
  have flow: "fwd.flow b (recvd f (as @ bs)) (sent g (as @ bs)) b2"
    using d by (auto intro: fwd.flow_trans)
  have "fin_last f g (in_transit b) (as @ bs)"
  proof (cases "A_shutdown_wr g \<in> set as")
    case True
    then have bs: "A_shutdown_wr g \<notin> set bs" "recvd f bs = []" "sent g bs = []"
      using d by auto
    show ?thesis unfolding fin_last_def
    proof (intro allI impI)
      fix pre post assume "as @ bs = pre @ A_shutdown_wr g # post"
      then obtain post1 where "as = pre @ A_shutdown_wr g # post1" "post = post1 @ bs"
        using bs(1) by (auto simp: append_eq_append_conv2 append_eq_Cons_conv Cons_eq_append_conv)
      then show "in_transit b @ recvd f pre = sent g pre \<and> recvd f post = [] \<and> sent g post = [] \<and>
          A_shutdown_wr g \<notin> set pre \<and> A_shutdown_wr g \<notin> set post"
        using d(1) bs by (auto simp: fin_last_def)
    qed
  next
    case False
    show ?thesis unfolding fin_last_def
    proof (intro allI impI)
      fix pre post assume "as @ bs = pre @ A_shutdown_wr g # post"
      then obtain pre1 where "pre = as @ pre1" and bs: "bs = pre1 @ A_shutdown_wr g # post"
        using False by (auto simp: append_eq_append_conv2 append_eq_Cons_conv Cons_eq_append_conv)
      moreover have "in_transit b1 @ recvd f pre1 = sent g pre1 \<and> recvd f post = [] \<and> sent g post = []
          \<and> A_shutdown_wr g \<notin> set pre1 \<and> A_shutdown_wr g \<notin> set post"
        using d(2) bs by (auto simp: fin_last_def)
      moreover have "in_transit b @ recvd f as = sent g as @ in_transit b1"
        using d(1) by (simp add: fwd.flow_def)
      ultimately show "in_transit b @ recvd f pre = sent g pre \<and> recvd f post = [] \<and> sent g post = [] \<and>
          A_shutdown_wr g \<notin> set pre \<and> A_shutdown_wr g \<notin> set post"
        using False by simp (metis append.assoc)
    qed
  qed
  with d flow show ?thesis by (auto simp: x z dir_ok_def)
qed

lemma dir_own:
  assumes st: "half_step env evs f g (b, ro, wc, o1) r (b', ro', wc', o2) as"
    and ok: "dir_inv (b, ro, wc)" "buf_ok o1" "env_ok env" "f \<noteq> g"
    and arm: "has evs EPOLLIN \<Longrightarrow> ro"
  shows "dir_ok f g (b, ro, wc) as (b', ro', wc')"
proof -
  have fl: "buf_ok b'" "fwd.flow b (recvd f as) [] b'" "sent g as = []"
    using half_step_flow [OF st _ ok(2,3,4)] ok(1) by (auto simp: dir_inv_def)
  have mono: "ro' \<longrightarrow> ro" using st by (auto simp: half_step_def)
  have log: "wc \<Longrightarrow> wc' \<and> A_shutdown_wr g \<notin> set as"
    "A_shutdown_wr g \<in> set as \<Longrightarrow> wc'"
    "\<And>pre post. as = pre @ A_shutdown_wr g # post \<Longrightarrow>
      \<not> ro' \<and> buffer_empty b' \<and> A_shutdown_wr g \<notin> set pre \<and> A_shutdown_wr g \<notin> set post
      \<and> recvd f pre = recvd f as \<and> recvd f post = [] \<and> (\<forall>h. sent h post = [])"
    "wc' \<Longrightarrow> \<not> wc \<Longrightarrow> A_shutdown_wr g \<in> set as"
    using half_step_log [OF st] by blast+
  have closed: "b' = b \<and> \<not> ro' \<and> recvd f as = []" if wc
  proof -
    have "\<not> ro" using ok(1) that by (simp add: dir_inv_def)
    with st arm show ?thesis by (intro armed_no_fill [where wc = wc]) auto
  qed
  have "\<not> ro' \<and> buffer_empty b'" if wc'
  proof (cases wc)
    case True
    with closed ok(1) show ?thesis by (auto simp: dir_inv_def)
  next
    case False
    with log(4) that obtain pre post where "as = pre @ A_shutdown_wr g # post"
      by (meson split_list)
    with log(3) show ?thesis by blast
  qed
  moreover have "fin_last f g (in_transit b) as"
    unfolding fin_last_def
  proof (intro allI impI)
    fix pre post assume s: "as = pre @ A_shutdown_wr g # post"
    have "in_transit b @ recvd f as = in_transit b'" using fl(2) by (simp add: fwd.flow_def)
    moreover have "in_transit b' = []" using log(3) [OF s] fl(1) by (simp add: buffer_empty_iff)
    moreover have "sent g pre = []" using fl(3) s by simp
    ultimately show "in_transit b @ recvd f pre = sent g pre \<and> recvd f post = [] \<and> sent g post = [] \<and>
        A_shutdown_wr g \<notin> set pre \<and> A_shutdown_wr g \<notin> set post"
      using log(3) [OF s] by simp
  qed
  ultimately show ?thesis
    using fl mono log(1,2) closed by (auto simp: dir_ok_def dir_inv_def)
qed

lemma dir_other:
  assumes st: "half_step env evs g f (b2, ro2, wc2, b) r (b2', ro2', wc2', b') as"
    and ok: "dir_inv (b, ro, wc)" "buf_ok b2" "env_ok env" "f \<noteq> g"
  shows "dir_ok f g (b, ro, wc) as (b', ro, wc)"
proof -
  have fl: "buf_ok b'" "fwd.flow b [] (sent g as) b'" "recvd f as = []"
    using half_step_flow [OF st ok(2) _ ok(3)] ok(1,4) by (auto simp: dir_inv_def)
  have "A_shutdown_wr g \<notin> set as" using half_step_log(1) [OF st] ok(4) by blast
  moreover have "sent g as = [] \<and> buffer_empty b'" if wc
  proof -
    have "in_transit b = []" using ok(1) that buffer_empty_iff [of b] by (simp add: dir_inv_def)
    then have "sent g as = [] \<and> in_transit b' = []" using fl(2) by (simp add: fwd.flow_def)
    with fl(1) show ?thesis by (simp add: buffer_empty_iff)
  qed
  ultimately show ?thesis
    using fl ok(1) by (auto simp: dir_ok_def dir_inv_def fin_last_notin)
qed

definition dir_c2s :: "connection \<Rightarrow> dir" where
  "dir_c2s conn = (c2s conn, client_read_open conn, server_write_closed conn)"

definition dir_s2c :: "connection \<Rightarrow> dir" where
  "dir_s2c conn = (s2c conn, server_read_open conn, client_write_closed conn)"

definition conn_inv :: "connection \<Rightarrow> bool" where
  "conn_inv conn \<longleftrightarrow> dir_inv (dir_c2s conn) \<and> dir_inv (dir_s2c conn) \<and> cfd conn \<noteq> sfd conn"

definition dirs_ok :: "connection \<Rightarrow> io_act list \<Rightarrow> connection \<Rightarrow> bool" where
  "dirs_ok conn as conn' \<longleftrightarrow> client conn' = client conn \<and> server conn' = server conn \<and>
     dir_ok (cfd conn) (sfd conn) (dir_c2s conn) as (dir_c2s conn') \<and>
     dir_ok (sfd conn) (cfd conn) (dir_s2c conn) as (dir_s2c conn')"

lemma dirs_ok_inv: "dirs_ok conn as conn' \<Longrightarrow> conn_inv conn \<Longrightarrow> conn_inv conn'"
  by (auto simp: dirs_ok_def conn_inv_def dir_ok_def split: prod.splits)

lemma dirs_ok_refl: "conn_inv conn \<Longrightarrow> dirs_ok conn [] conn"
  by (simp add: dirs_ok_def conn_inv_def dir_ok_refl)

lemma dirs_ok_trans: "dirs_ok c as c1 \<Longrightarrow> dirs_ok c1 bs c2 \<Longrightarrow> dirs_ok c (as @ bs) c2"
  by (auto simp: dirs_ok_def intro: dir_ok_trans)

lemma event_dirs:
  assumes e: "process_event conn ev = (r, conn', as)" and inv: "conn_inv conn"
    and env: "env_ok (event_env ev)" and arm: "armed_event conn ev"
  shows "dirs_ok conn as conn'"
proof (cases ev)
  case (Client_event env' evs)
  with e have "process_client_event env' conn evs = (r, conn', as)" by simp
  then obtain h where h: "half_step env' evs (cfd conn) (sfd conn) (client_half conn) r h as"
    and c: "conn' = set_client_half conn h"
    by (rule client_event_step)
  obtain b ro wc o' where hh: "h = (b, ro, wc, o')" by (metis prod_cases4)
  note st = h [unfolded client_half_def hh]
  have "has evs EPOLLIN \<Longrightarrow> client_read_open conn"
    using arm Client_event by (auto simp: armed_def has_interest)
  with inv env Client_event show ?thesis
    using dir_own [OF st] dir_other [OF st, where ro = "server_read_open conn" and wc = "client_write_closed conn"]
    by (auto simp: dirs_ok_def conn_inv_def dir_c2s_def dir_s2c_def c set_client_half_def hh dir_inv_def)
next
  case (Server_event env' evs)
  with e have "process_server_event env' conn evs = (r, conn', as)" by simp
  then obtain h where h: "half_step env' evs (sfd conn) (cfd conn) (server_half conn) r h as"
    and c: "conn' = set_server_half conn h"
    by (rule server_event_step)
  obtain b ro wc o' where hh: "h = (b, ro, wc, o')" by (metis prod_cases4)
  note st = h [unfolded server_half_def hh]
  have "has evs EPOLLIN \<Longrightarrow> server_read_open conn"
    using arm Server_event by (auto simp: armed_def has_interest)
  with inv env Server_event show ?thesis
    using dir_own [OF st] dir_other [OF st, where ro = "client_read_open conn" and wc = "server_write_closed conn"]
    by (auto simp: dirs_ok_def conn_inv_def dir_c2s_def dir_s2c_def c set_server_half_def hh dir_inv_def)
qed

lemma run_dirs:
  "conn_run conn evs = (alive, conn', as) \<Longrightarrow> conn_inv conn \<Longrightarrow> \<forall>ev \<in> set evs. env_ok (event_env ev)
   \<Longrightarrow> armed_run conn evs \<Longrightarrow> dirs_ok conn as conn'"
proof (induction evs arbitrary: conn alive conn' as)
  case Nil
  then show ?case by (simp add: dirs_ok_refl)
next
  case (Cons ev evs)
  obtain r conn1 as1 where e: "process_event conn ev = (r, conn1, as1)" by (metis prod_cases3)
  have ev: "dirs_ok conn as1 conn1"
    using Cons.prems by (intro event_dirs [OF e]) auto
  show ?case
  proof (cases "r < 0 \<or> connection_finished conn1")
    case True
    with Cons.prems(1) e ev show ?thesis by simp
  next
    case False
    obtain al2 conn2 as2 where r2: "conn_run conn1 evs = (al2, conn2, as2)" by (metis prod_cases3)
    have "dirs_ok conn1 as2 conn2"
      using Cons.prems e False by (intro Cons.IH [OF r2] dirs_ok_inv [OF ev]) auto
    with ev False Cons.prems(1) e r2 show ?thesis
      by (auto intro: dirs_ok_trans)
  qed
qed

text \<open>A direction whose source is no longer read takes in nothing more.\<close>

lemma run_source_closed:
  "conn_run conn evs = (alive, conn', as) \<Longrightarrow> armed_run conn evs \<Longrightarrow> \<not> client_read_open conn
   \<Longrightarrow> cfd conn \<noteq> sfd conn \<Longrightarrow> recvd (cfd conn) as = [] \<and> \<not> client_read_open conn'"
proof (induction evs arbitrary: conn alive conn' as)
  case Nil
  then show ?case by simp
next
  case (Cons ev evs)
  obtain r conn1 as1 where e: "process_event conn ev = (r, conn1, as1)" by (metis prod_cases3)
  have ev: "recvd (cfd conn) as1 = [] \<and> \<not> client_read_open conn1 \<and> client conn1 = client conn
      \<and> server conn1 = server conn"
  proof (cases ev)
    case (Client_event env' evs)
    with e have "process_client_event env' conn evs = (r, conn1, as1)" by simp
    then obtain h where h: "half_step env' evs (cfd conn) (sfd conn) (client_half conn) r h as1"
      and c: "conn1 = set_client_half conn h"
      by (rule client_event_step)
    obtain b ro wc o' where hh: "h = (b, ro, wc, o')" by (metis prod_cases4)
    have no: "\<not> has evs EPOLLIN"
      using Cons.prems(2,3) Client_event by (auto simp: armed_def has_interest)
    have "half_step env' evs (cfd conn) (sfd conn)
        (c2s conn, False, server_write_closed conn, s2c conn) r (b, ro, wc, o') as1"
      using h Cons.prems(3) by (simp add: client_half_def hh)
    from armed_no_fill [OF this no] show ?thesis
      by (simp add: c set_client_half_def hh)
  next
    case (Server_event env' evs)
    with e have "process_server_event env' conn evs = (r, conn1, as1)" by simp
    then obtain h where h: "half_step env' evs (sfd conn) (cfd conn) (server_half conn) r h as1"
      and c: "conn1 = set_server_half conn h"
      by (rule server_event_step)
    obtain b ro wc o' where hh: "h = (b, ro, wc, o')" by (metis prod_cases4)
    have "recvd (cfd conn) as1 = []"
      using half_step_recvd [OF h [unfolded server_half_def hh]] Cons.prems(4) by blast
    with Cons.prems(3) show ?thesis by (simp add: c set_server_half_def hh)
  qed
  show ?case
  proof (cases "r < 0 \<or> connection_finished conn1")
    case True
    with Cons.prems(1) e ev show ?thesis by simp
  next
    case False
    obtain al2 conn2 as2 where r2: "conn_run conn1 evs = (al2, conn2, as2)" by (metis prod_cases3)
    have "recvd (cfd conn1) as2 = [] \<and> \<not> client_read_open conn2"
      using Cons.prems e False ev by (intro Cons.IH [OF r2]) auto
    with ev False Cons.prems(1) e r2 show ?thesis by auto
  qed
qed

end
