(* ===== verification/Accel_Main.thy ===== *)
theory Accel_Main
  imports Accel_Flow
begin

text \<open>
  The rest of \<open>tcp_accelerator.c\<close>: opening the listening and the remote sockets with their
  error paths, creating and destroying connections, and the event loop over the heap of
  connections.  A pointer to an endpoint names the connection that holds it; reading it
  after the connection was freed is undefined behaviour and makes the step \<open>None\<close>.
\<close>

section \<open>Sockets\<close>

definition O_NONBLOCK :: int where "O_NONBLOCK = 2048"

text \<open>The kernel's answers about one descriptor; negative (\<open>-1\<close> for \<open>fcntl\<close>) is failure.\<close>

record fd_env =
  getfl :: int
  setfl :: "int \<Rightarrow> int"
  rcvbuf :: int
  sndbuf :: int

definition set_nonblocking :: "fd_env \<Rightarrow> int" where
  "set_nonblocking e =
     (let flags = getfl e
      in if flags = -1 then -1
         else if setfl e (flags OR O_NONBLOCK) = -1 then -1
         else 0)"

definition tune_socket_buffers :: "fd_env \<Rightarrow> int" where
  "tune_socket_buffers e = (if rcvbuf e < 0 then -1 else if sndbuf e < 0 then -1 else 0)"

record dial_env =
  d_socket :: int
  d_fd :: fd_env
  d_pton :: int
  d_connect :: int

definition create_remote_socket :: "dial_env \<Rightarrow> int \<times> io_act list" where
  "create_remote_socket e =
     (let f = d_socket e
      in if f < 0 then (-1, [])
         else if tune_socket_buffers (d_fd e) < 0 then (-1, [A_close f])
         else if d_pton e \<noteq> 1 then (-1, [A_close f])
         else if d_connect e < 0 then (-1, [A_close f])
         else if set_nonblocking (d_fd e) < 0 then (-1, [A_close f])
         else (f, []))"

section \<open>Creating and destroying connections\<close>

definition zero_buffer :: io_buffer where
  "zero_buffer = \<lparr>bdata = (\<lambda>_. 0), bstart = 0, bend = 0\<rparr>"

definition new_connection :: "nat \<Rightarrow> fd \<Rightarrow> fd \<Rightarrow> connection" where
  "new_connection a client_fd server_fd =
     \<lparr>client = \<lparr>ep_fd = client_fd, ep_type = ENDPOINT_CLIENT, ep_conn = Some a\<rparr>,
      server = \<lparr>ep_fd = server_fd, ep_type = ENDPOINT_SERVER, ep_conn = Some a\<rparr>,
      c2s = zero_buffer, s2c = zero_buffer,
      client_read_open = True, server_read_open = True,
      client_write_closed = False, server_write_closed = False\<rparr>"

definition destroy_connection :: "connection \<Rightarrow> io_act list" where
  "destroy_connection conn =
     (if cfd conn \<ge> 0 then [A_epoll_del (cfd conn), A_close (cfd conn)] else []) @
     (if sfd conn \<ge> 0 then [A_epoll_del (sfd conn), A_close (sfd conn)] else [])"

text \<open>\<open>calloc\<close> answers an address or the null pointer.\<close>

record create_env =
  c_dial :: dial_env
  c_client :: fd_env
  c_calloc :: "nat option"
  c_add :: "fd \<Rightarrow> int"

definition create_connection ::
    "create_env \<Rightarrow> fd \<Rightarrow> (nat \<times> connection) option \<times> io_act list" where
  "create_connection e client_fd =
     (case create_remote_socket (c_dial e) of (server_fd, as) \<Rightarrow>
        if server_fd < 0 then (None, as @ [A_close client_fd])
        else if tune_socket_buffers (c_client e) < 0
        then (None, as @ [A_close server_fd, A_close client_fd])
        else if set_nonblocking (c_client e) < 0
        then (None, as @ [A_close server_fd, A_close client_fd])
        else case c_calloc e of
          None \<Rightarrow> (None, as @ [A_close server_fd, A_close client_fd])
        | Some a \<Rightarrow>
            let conn = new_connection a client_fd server_fd
            in if c_add e client_fd < 0 then (None, as @ destroy_connection conn)
               else let as = as @ [A_epoll_add client_fd (EPOLLIN OR EPOLLRDHUP)]
               in if c_add e server_fd < 0 then (None, as @ destroy_connection conn)
               else (Some (a, conn), as @ [A_epoll_add server_fd (EPOLLIN OR EPOLLRDHUP)]))"

section \<open>The event loop\<close>

datatype endpoint_ptr = P_listener | P_client nat | P_server nat

datatype accept_ans = Accepted fd create_env | Accept_err errno

type_synonym heap = "nat \<Rightarrow> connection option"

text \<open>
  The accept loop, over the kernel's answers to its \<open>accept\<close> calls: it ends at the first
  error other than \<open>EINTR\<close>.  The listening socket does not block, so the answers end so.
\<close>

fun accept_loop :: "accept_ans list \<Rightarrow> heap \<Rightarrow> heap \<times> io_act list" where
  "accept_loop [] hp = (hp, [])"
| "accept_loop (Accept_err e # ans) hp =
     (if e = EAGAIN \<or> e = EWOULDBLOCK then (hp, [])
      else if e = EINTR then accept_loop ans hp
      else (hp, []))"
| "accept_loop (Accepted f env # ans) hp =
     (case create_connection env f of (res, as) \<Rightarrow>
        let hp = (case res of None \<Rightarrow> hp | Some (a, conn) \<Rightarrow> hp(a \<mapsto> conn))
        in case accept_loop ans hp of (hp', as') \<Rightarrow> (hp', as @ as'))"

record loop_event =
  le_ptr :: endpoint_ptr
  le_events :: u32
  le_accepts :: "accept_ans list"
  le_env :: sock_env

primrec endpoint_at :: "heap \<Rightarrow> endpoint_ptr \<Rightarrow> endpoint option" where
  "endpoint_at hp P_listener = Some \<lparr>ep_fd = 0, ep_type = ENDPOINT_LISTENER, ep_conn = None\<rparr>"
| "endpoint_at hp (P_client a) = map_option client (hp a)"
| "endpoint_at hp (P_server a) = map_option server (hp a)"

definition settle :: "nat \<Rightarrow> int \<times> connection \<times> io_act list \<Rightarrow> heap \<Rightarrow> heap \<times> io_act list" where
  "settle a = (\<lambda>(r, conn, as) hp.
     if r < 0 \<or> connection_finished conn
     then (hp(a := None), as @ destroy_connection conn)
     else (hp(a \<mapsto> conn), as))"

definition handle_event :: "heap \<Rightarrow> loop_event \<Rightarrow> (heap \<times> io_act list) option" where
  "handle_event hp ev =
     (case endpoint_at hp (le_ptr ev) of
        None \<Rightarrow> None
      | Some ep \<Rightarrow>
          if ep_type ep = ENDPOINT_LISTENER then Some (accept_loop (le_accepts ev) hp)
          else case ep_conn ep of
            None \<Rightarrow> Some (hp, [])
          | Some a \<Rightarrow>
              (case hp a of
                 None \<Rightarrow> None
               | Some conn \<Rightarrow>
                   if ep_type ep = ENDPOINT_CLIENT
                   then Some (settle a (process_client_event (le_env ev) conn (le_events ev)) hp)
                   else Some (settle a (process_server_event (le_env ev) conn (le_events ev)) hp)))"

fun handle_batch :: "heap \<Rightarrow> loop_event list \<Rightarrow> (heap \<times> io_act list) option" where
  "handle_batch hp [] = Some (hp, [])"
| "handle_batch hp (ev # evs) =
     (case handle_event hp ev of
        None \<Rightarrow> None
      | Some (hp', as) \<Rightarrow> map_option (\<lambda>(hp'', as'). (hp'', as @ as')) (handle_batch hp' evs))"

section \<open>Setting up the listener\<close>

record listen_env =
  l_socket :: int
  l_reuse :: int
  l_fd :: fd_env
  l_bind :: int
  l_listen :: int
  l_epoll :: int
  l_add :: int

text \<open>\<open>main\<close> up to its event loop: the two descriptors, or the exit code and the closes.\<close>

definition accel_setup :: "listen_env \<Rightarrow> (int + fd \<times> fd) \<times> io_act list" where
  "accel_setup e =
     (let lfd = l_socket e
      in if lfd < 0 then (Inl 1, [])
         else if l_reuse e < 0 then (Inl 1, [A_close lfd])
         else if set_nonblocking (l_fd e) < 0 then (Inl 1, [A_close lfd])
         else if l_bind e < 0 then (Inl 1, [A_close lfd])
         else if l_listen e < 0 then (Inl 1, [A_close lfd])
         else if l_epoll e < 0 then (Inl 1, [A_close lfd])
         else if l_add e < 0 then (Inl 1, [A_close (l_epoll e), A_close lfd])
         else (Inr (lfd, l_epoll e), [A_epoll_add lfd EPOLLIN]))"

end
