(* ===== verification/Accel_Props.thy ===== *)
theory Accel_Props
  imports Accel_Main
begin

text \<open>
  The theorems about the accelerator: byte streams are preserved, half close is ordered,
  epoll interest implements back-pressure, descriptors are closed on every error path, and
  when a batch of events can and cannot touch freed memory.
\<close>

section \<open>Helper lemmas\<close>

lemma zero_buffer_facts [simp]:
  "buf_ok zero_buffer" "in_transit zero_buffer = []" "buffer_empty zero_buffer"
  by (simp_all add: zero_buffer_def buf_ok_def in_transit_def buffer_pending_def buffer_empty_def)

lemma new_connection_ok: "cf \<noteq> sf \<Longrightarrow> conn_ok (new_connection a cf sf)"
  by (simp add: conn_ok_def new_connection_def)

lemma new_connection_inv: "cf \<noteq> sf \<Longrightarrow> conn_inv (new_connection a cf sf)"
  by (simp add: conn_inv_def new_connection_def dir_inv_def dir_c2s_def dir_s2c_def)

lemma space_or_room:
  "buf_ok b \<Longrightarrow> buffer_space b > 0 \<or> bstart b > 0 \<longleftrightarrow> length (in_transit b) < 65536"
  by (simp add: word_greater_zero_iff word_unat_eq_iff unat_space length_in_transit buf_ok_nat) linarith

lemma room_after_make_room:
  assumes "buf_ok b" and "length (in_transit b) < 65536"
  shows "buffer_space (make_room b) \<noteq> 0"
proof (cases "buffer_space b = 0 \<and> bstart b > 0")
  case True
  then have "bstart (make_room b) = 0" by (simp add: make_room_def buffer_compact_def Let_def)
  moreover have "length (in_transit (make_room b)) < 65536"
    using assms by (simp add: in_transit_make_room)
  ultimately show ?thesis
    using space_or_room [of "make_room b"] make_room_ok [OF assms(1)] by (simp add: word_greater_zero_iff)
next
  case False
  with assms space_or_room [of b] show ?thesis by (auto simp: make_room_def word_greater_zero_iff)
qed

definition closes :: "fd \<Rightarrow> io_act list \<Rightarrow> nat" where
  "closes f as = length (filter (\<lambda>a. a = A_close f) as)"

lemma closes_simps [simp]:
  "closes f [] = 0"
  "closes f (A_close g # as) = (if f = g then Suc (closes f as) else closes f as)"
  "closes f (as @ bs) = closes f as + closes f bs"
  "closes f (A_epoll_add g e # as) = closes f as"
  "closes f (A_epoll_del g # as) = closes f as"
  by (simp_all add: closes_def)

lemma remote_socket_closes:
  "create_remote_socket e = (f, as) \<Longrightarrow>
    (f < 0 \<longrightarrow> f = -1 \<and> (0 \<le> d_socket e \<longrightarrow> as = [A_close (d_socket e)]) \<and> (d_socket e < 0 \<longrightarrow> as = []))
    \<and> (0 \<le> f \<longrightarrow> f = d_socket e \<and> as = [])"
  by (auto simp: create_remote_socket_def Let_def split: if_splits)

section \<open>Byte streams\<close>

text \<open>Claim C1: over any sequence of events of a new connection, in any interleaving of the
  two endpoints and with any partial sends, partial receives and errors, the bytes received
  from the client are exactly the bytes sent to the server, in order, followed by the bytes
  still buffered; and the same from the server to the client.\<close>

theorem stream_preserved:
  assumes "cf \<noteq> sf" and "\<forall>ev \<in> set evs. env_ok (event_env ev)"
    and "conn_run (new_connection a cf sf) evs = (alive, conn', as)"
  shows "recvd cf as = sent sf as @ in_transit (c2s conn')
    \<and> recvd sf as = sent cf as @ in_transit (s2c conn')"
proof -
  have "conn_flow (new_connection a cf sf) as conn'"
    using run_flow [OF assms(3) new_connection_ok [OF assms(1)] assms(2)] by blast
  then show ?thesis by (simp add: fwd.flow_def new_connection_def)
qed

text \<open>A sample environment: the peer has \<open>bs\<close> to say, and \<open>send\<close> takes at most \<open>n\<close> bytes.\<close>

definition demo_env :: "u8 list \<Rightarrow> nat \<Rightarrow> sock_env" where
  "demo_env bs n = \<lparr>k_recv = (\<lambda>s. Recv (take (unat s) bs)),
     k_send = (\<lambda>out. Sent (min n (length out))), k_mod = (\<lambda>_ _. True)\<rparr>"

lemma demo_env_ok: "env_ok (demo_env bs n)"
  by (simp add: env_ok_def demo_env_def recv_ok_def send_ok_def)

definition demo_run :: "conn_event list" where
  "demo_run = [Client_event (demo_env [1, 2, 3] 9) 0x1, Server_event (demo_env [7] 2) 0x5,
     Client_event (demo_env [] 9) 0x5, Server_event (demo_env [] 9) 0x4,
     Client_event (demo_env [] 9) 0x2000]"

lemma demo_run_env: "\<forall>ev \<in> set demo_run. env_ok (event_env ev)"
  by (simp add: demo_run_def demo_env_ok)

lemmas demo_eval = half_event_def client_half_def server_half_def set_client_half_def set_server_half_def
  process_client_half process_server_half demo_env_def new_connection_def zero_buffer_def
  has_def epoll_bits receive_into_buffer_def flush_buffer_def buffer_empty_def buffer_space_def
  buffer_pending_def buffer_compact_def buffer_reset_if_empty_def FORWARD_BUFFER_SIZE_def
  update_connection_events_def epoll_modify_def client_interest_def server_interest_def
  connection_finished_def Let_def demo_run_def

definition demo_acts :: "io_act list" where
  "demo_acts = snd (snd (conn_run (new_connection 0 4 5) demo_run))"

lemma demo_acts_eq: "demo_acts =
   [A_recv 4 [1, 2, 3], A_epoll_mod 4 0x2001, A_epoll_mod 5 0x2005,
    A_recv 5 [7], A_send 5 [1, 2], A_epoll_mod 4 0x2005, A_epoll_mod 5 0x2005,
    A_recv 4 [], A_send 4 [7], A_epoll_mod 4 0x2000, A_epoll_mod 5 0x2005,
    A_send 5 [3], A_epoll_mod 4 0x2000, A_epoll_mod 5 0x2001,
    A_shutdown_wr 5, A_epoll_mod 4 0x2000, A_epoll_mod 5 0x2001]"
  unfolding demo_acts_def by (simp add: demo_eval, code_simp)

lemma demo_armed: "armed_run (new_connection 0 4 5) demo_run"
  by (simp add: demo_eval armed_def)

lemma demo_run_result:
  obtains alive conn' where "conn_run (new_connection 0 4 5) demo_run = (alive, conn', demo_acts)"
  unfolding demo_acts_def by (metis prod.collapse)

theorem stream_preserved_witness:
  "recvd 4 demo_acts = [1, 2, 3] \<and> (\<exists>rest. sent 5 demo_acts @ rest = [1, 2, 3])"
proof -
  obtain alive conn' where run: "conn_run (new_connection 0 4 5) demo_run = (alive, conn', demo_acts)"
    by (rule demo_run_result)
  have "recvd 4 demo_acts = sent 5 demo_acts @ in_transit (c2s conn')"
    using stream_preserved [OF _ demo_run_env run] by simp
  moreover have "recvd 4 demo_acts = [1, 2, 3]" by (simp add: demo_acts_eq)
  ultimately show ?thesis by auto
qed

text \<open>Claim C12: half close is ordered.  When the kernel reports \<open>EPOLLIN\<close> only to those who asked,
  a FIN is passed on to a peer at most once, at a moment when every byte received for that
  peer has been sent to it, and after it nothing more is received for or sent to that peer.\<close>

theorem fin_after_all_data:
  assumes "cf \<noteq> sf" and "\<forall>ev \<in> set evs. env_ok (event_env ev)"
    and "conn_run (new_connection a cf sf) evs = (alive, conn', as)"
    and "armed_run (new_connection a cf sf) evs"
    and "(f, g) = (cf, sf) \<or> (f, g) = (sf, cf)" and "as = pre @ A_shutdown_wr g # post"
  shows "sent g pre = recvd f pre \<and> sent g post = [] \<and> recvd f post = []
    \<and> A_shutdown_wr g \<notin> set pre \<and> A_shutdown_wr g \<notin> set post"
proof -
  have "dirs_ok (new_connection a cf sf) as conn'"
    using run_dirs [OF assms(3) new_connection_inv [OF assms(1)] assms(2,4)] .
  then have "fin_last f g [] as"
    using assms(5) by (auto simp: dirs_ok_def dir_ok_def dir_c2s_def dir_s2c_def new_connection_def)
  with assms(6) show ?thesis by (auto simp: fin_last_def)
qed

theorem fin_after_all_data_witness:
  "\<exists>pre post. demo_acts = pre @ A_shutdown_wr 5 # post \<and> sent 5 pre = recvd 4 pre
     \<and> sent 5 pre = [1, 2, 3] \<and> sent 5 post = []"
proof -
  obtain alive conn' where run: "conn_run (new_connection 0 4 5) demo_run = (alive, conn', demo_acts)"
    by (rule demo_run_result)
  let ?pre = "take 14 demo_acts" and ?post = "drop 15 demo_acts"
  have split: "demo_acts = ?pre @ A_shutdown_wr 5 # ?post" by (simp add: demo_acts_eq)
  have "sent 5 ?pre = recvd 4 ?pre \<and> sent 5 ?post = []"
    using fin_after_all_data [OF _ demo_run_env run demo_armed _ split, of 4] by simp
  moreover have "sent 5 ?pre = [1, 2, 3]" by (simp add: demo_acts_eq)
  ultimately show ?thesis using split by blast
qed

section \<open>Epoll interest and back-pressure\<close>

text \<open>Claim C13: the registered interest is exactly back-pressure.  An endpoint is watched for
  input iff its direction is still open and fewer than 65536 of its bytes are in transit, and
  for output iff bytes for it are in transit; and whenever input is watched, the next receive
  really has room and does call \<open>recv\<close>.\<close>

theorem interest_is_backpressure:
  assumes "conn_ok conn"
  shows "(has (client_interest conn) EPOLLIN \<longleftrightarrow>
      client_read_open conn \<and> length (in_transit (c2s conn)) < 65536)
    \<and> (has (client_interest conn) EPOLLOUT \<longleftrightarrow> in_transit (s2c conn) \<noteq> [])
    \<and> (has (server_interest conn) EPOLLIN \<longleftrightarrow>
      server_read_open conn \<and> length (in_transit (s2c conn)) < 65536)
    \<and> (has (server_interest conn) EPOLLOUT \<longleftrightarrow> in_transit (c2s conn) \<noteq> [])
    \<and> (has (client_interest conn) EPOLLIN \<longrightarrow>
      (\<exists>space > 0. \<forall>k bs. k space = Recv bs \<longrightarrow> bs \<noteq> [] \<longrightarrow>
        snd (snd (receive_into_buffer (cfd conn) k (c2s conn))) = [A_recv (cfd conn) bs]))"
proof -
  have b: "buf_ok (c2s conn)" "buf_ok (s2c conn)" using assms by (simp_all add: conn_ok_def)
  have room: "\<exists>space > 0. \<forall>k bs. k space = Recv bs \<longrightarrow> bs \<noteq> [] \<longrightarrow>
        snd (snd (receive_into_buffer (cfd conn) k (c2s conn))) = [A_recv (cfd conn) bs]"
    if "length (in_transit (c2s conn)) < 65536"
    using room_after_make_room [OF b(1) that]
    by (intro exI [of _ "buffer_space (make_room (c2s conn))"])
      (simp add: word_greater_zero_iff receive_eq)
  with b show ?thesis by (simp add: has_interest space_or_room buffer_empty_iff)
qed

theorem interest_is_backpressure_witness:
  "conn_ok (new_connection 0 4 5) \<and> has (client_interest (new_connection 0 4 5)) EPOLLIN
     \<and> \<not> has (client_interest (new_connection 0 4 5)) EPOLLOUT"
  using new_connection_ok [of 4 5 0] interest_is_backpressure [of "new_connection 0 4 5"]
  by (simp add: new_connection_def)

text \<open>\<open>EPOLLRDHUP\<close> is taken for the end of input.  Once a client event carrying it has
  been handled, no later event of the connection receives another byte from the client: bytes
  the peer sent before its FIN and that did not fit the one \<open>recv\<close> of that event stay in the
  kernel and are lost.\<close>

theorem rdhup_abandons_unread_input:
  assumes "process_client_event env conn events = (0, conn1, as1)" and "has events EPOLLRDHUP"
    and "cfd conn \<noteq> sfd conn"
    and "conn_run conn1 evs = (alive, conn2, as2)" and "armed_run conn1 evs"
  shows "recvd (cfd conn) as2 = [] \<and> \<not> has (client_interest conn1) EPOLLIN"
proof -
  obtain h where h: "half_step env events (cfd conn) (sfd conn) (client_half conn) 0 h as1"
    and c: "conn1 = set_client_half conn h"
    using assms(1) by (rule client_event_step)
  obtain b ro wc o' where hh: "h = (b, ro, wc, o')" by (metis prod_cases4)
  have "\<not> client_read_open conn1"
    using h assms(2) by (auto simp: half_step_def client_half_def hh c set_client_half_def)
  moreover have "cfd conn1 = cfd conn" "sfd conn1 = sfd conn"
    by (simp_all add: c set_client_half_def hh)
  ultimately show ?thesis
    using run_source_closed [OF assms(4,5)] assms(3) by (simp add: has_interest)
qed

text \<open>The scenario: the client has sent 70000 bytes and its FIN; the one \<open>recv\<close> of the event
  takes 65536 of them.\<close>

definition big_env :: sock_env where
  "big_env = demo_env (replicate 70000 1) 65536"

lemma big_event:
  "\<exists>conn1 as1. process_client_event big_env (new_connection 0 4 5) 0x2001 = (0, conn1, as1)
     \<and> recvd 4 as1 = replicate 65536 1"
  by (simp add: demo_eval big_env_def word_unat_eq_iff)

theorem rdhup_abandons_unread_input_witness:
  "\<exists>conn1 as1. process_client_event big_env (new_connection 0 4 5) 0x2001 = (0, conn1, as1)
     \<and> recvd 4 as1 = replicate 65536 1 \<and> \<not> has (client_interest conn1) EPOLLIN"
proof -
  obtain conn1 as1 where e: "process_client_event big_env (new_connection 0 4 5) 0x2001 = (0, conn1, as1)"
    and r: "recvd 4 as1 = replicate 65536 1"
    using big_event by blast
  have "\<not> has (client_interest conn1) EPOLLIN"
    using rdhup_abandons_unread_input [OF e, of "[]" True conn1 "[]"]
    by (simp add: has_def epoll_bits new_connection_def)
  with e r show ?thesis by blast
qed

text \<open>Claim C14: a connection that the event loop retires as finished has delivered everything
  it received, in both directions.\<close>

theorem finished_delivered_all:
  assumes "cf \<noteq> sf" and "\<forall>ev \<in> set evs. env_ok (event_env ev)"
    and "conn_run (new_connection a cf sf) evs = (alive, conn', as)" and "connection_finished conn'"
  shows "sent sf as = recvd cf as \<and> sent cf as = recvd sf as"
proof -
  have run: "conn_ok conn' \<and> conn_flow (new_connection a cf sf) as conn'"
    using run_flow [OF assms(3) new_connection_ok [OF assms(1)] assms(2)] by blast
  then have "in_transit (c2s conn') = [] \<and> in_transit (s2c conn') = []"
    using assms(4) by (auto simp: connection_finished_def conn_ok_def buffer_empty_iff)
  with run show ?thesis by (simp add: fwd.flow_def new_connection_def)
qed

definition done_run :: "conn_event list" where
  "done_run = demo_run @ [Server_event (demo_env [] 9) 0x2000]"

lemma done_run_result:
  obtains conn' as where "conn_run (new_connection 0 4 5) done_run = (False, conn', as)"
    "connection_finished conn'" "recvd 5 as = [7]"
  by (simp add: done_run_def demo_eval)

theorem finished_delivered_all_witness:
  "\<exists>alive conn' as. conn_run (new_connection 0 4 5) done_run = (alive, conn', as)
     \<and> connection_finished conn' \<and> sent 4 as = [7]"
proof -
  obtain conn' as where run: "conn_run (new_connection 0 4 5) done_run = (False, conn', as)"
    "connection_finished conn'" "recvd 5 as = [7]"
    by (rule done_run_result)
  have "\<forall>ev \<in> set done_run. env_ok (event_env ev)"
    using demo_run_env by (simp add: done_run_def demo_env_ok)
  then have "sent 4 as = recvd 5 as"
    using finished_delivered_all [OF _ _ run(1,2)] by simp
  with run show ?thesis by metis
qed

section \<open>Descriptors and memory\<close>

text \<open>Claim C15: \<open>create_connection\<close> leaks no descriptor and closes none twice.  If it gives up, at
  whichever step, the accepted descriptor and (if it was opened) the remote one have each been
  closed exactly once; if it succeeds it has closed nothing and returns the fresh connection
  over exactly these two descriptors, both registered for input and peer close.\<close>

theorem create_connection_descriptors:
  assumes "create_connection e f = (res, as)" and "0 \<le> f" and "f \<noteq> d_socket (c_dial e)"
  shows "case res of
      None \<Rightarrow> closes f as = 1 \<and> (0 \<le> d_socket (c_dial e) \<longrightarrow> closes (d_socket (c_dial e)) as = 1)
    | Some (a, conn) \<Rightarrow> c_calloc e = Some a \<and> conn = new_connection a f (d_socket (c_dial e)) \<and>
        as = [A_epoll_add f (client_interest conn),
              A_epoll_add (d_socket (c_dial e)) (server_interest conn)]"
proof -
  obtain s as0 where dial: "create_remote_socket (c_dial e) = (s, as0)" by (metis prod.exhaust)
  note d = remote_socket_closes [OF dial]
  have interest: "client_interest (new_connection a f s) = EPOLLIN OR EPOLLRDHUP"
    "server_interest (new_connection a f s) = EPOLLIN OR EPOLLRDHUP" for a
    by (simp_all add: new_connection_def zero_buffer_def client_interest_def server_interest_def
        buffer_space_def buffer_empty_def FORWARD_BUFFER_SIZE_def Let_def)
  show ?thesis
  proof (cases "s < 0")
    case True
    with d assms dial show ?thesis by (auto simp: create_connection_def)
  next
    case False
    with d have s: "s = d_socket (c_dial e)" "as0 = []" by auto
    show ?thesis
    proof (cases "tune_socket_buffers (c_client e) < 0 \<or> set_nonblocking (c_client e) < 0")
      case True
      with assms dial False s show ?thesis
        by (cases "tune_socket_buffers (c_client e) < 0") (auto simp: create_connection_def)
    next
      case c: False
      have conn: "cfd (new_connection a f s') = f" "sfd (new_connection a f s') = s'" for a s'
        by (simp_all add: new_connection_def)
      show ?thesis
        using assms dial False s c interest
        by (cases "c_calloc e"; cases "c_add e f < 0"; cases "c_add e s < 0")
          (auto simp: create_connection_def destroy_connection_def conn Let_def)
    qed
  qed
qed

definition demo_fd :: fd_env where
  "demo_fd = \<lparr>getfl = 2, setfl = (\<lambda>_. 0), rcvbuf = 0, sndbuf = 0\<rparr>"

definition demo_dial :: dial_env where
  "demo_dial = \<lparr>d_socket = 8, d_fd = demo_fd, d_pton = 1, d_connect = 0\<rparr>"

theorem create_connection_descriptors_witness:
  "closes 7 (snd (create_connection \<lparr>c_dial = demo_dial, c_client = demo_fd, c_calloc = None,
      c_add = (\<lambda>_. 0)\<rparr> 7)) = 1"
proof -
  let ?e = "\<lparr>c_dial = demo_dial, c_client = demo_fd, c_calloc = None, c_add = (\<lambda>_. 0)\<rparr>"
  have "create_connection ?e 7 = (None, [A_close 8, A_close 7])"
    by (simp add: create_connection_def create_remote_socket_def demo_dial_def demo_fd_def
        tune_socket_buffers_def set_nonblocking_def)
  from create_connection_descriptors [OF this] show ?thesis
    using \<open>create_connection ?e 7 = _\<close> by (simp add: demo_dial_def)
qed

text \<open>The heap is well formed: the endpoints of a live connection point back to it.\<close>

definition wf_conn :: "nat \<Rightarrow> connection \<Rightarrow> bool" where
  "wf_conn a conn \<longleftrightarrow> ep_conn (client conn) = Some a \<and> ep_type (client conn) = ENDPOINT_CLIENT \<and>
     ep_conn (server conn) = Some a \<and> ep_type (server conn) = ENDPOINT_SERVER"

definition wf_heap :: "heap \<Rightarrow> bool" where
  "wf_heap hp \<longleftrightarrow> (\<forall>a conn. hp a = Some conn \<longrightarrow> wf_conn a conn)"

primrec ptr_conn :: "endpoint_ptr \<Rightarrow> nat option" where
  "ptr_conn P_listener = None"
| "ptr_conn (P_client a) = Some a"
| "ptr_conn (P_server a) = Some a"

lemma create_connection_wf:
  "create_connection e f = (Some (a, conn), as) \<Longrightarrow> wf_conn a conn"
  by (auto simp: create_connection_def new_connection_def wf_conn_def Let_def
      split: prod.splits if_splits option.splits)

lemma accept_loop_wf:
  "accept_loop ans hp = (hp', as) \<Longrightarrow> wf_heap hp \<Longrightarrow> wf_heap hp' \<and> dom hp \<subseteq> dom hp'"
proof (induction ans hp arbitrary: hp' as rule: accept_loop.induct)
  case (3 f env ans hp)
  obtain res as1 where c: "create_connection env f = (res, as1)" by (metis prod.exhaust)
  let ?hp1 = "case res of None \<Rightarrow> hp | Some (a, conn) \<Rightarrow> hp(a \<mapsto> conn)"
  obtain hp2 as2 where l: "accept_loop ans ?hp1 = (hp2, as2)" by (metis prod.exhaust)
  have "wf_heap ?hp1 \<and> dom hp \<subseteq> dom ?hp1"
    using create_connection_wf [of env f] c "3.prems"(2)
    by (auto simp: wf_heap_def split: option.splits)
  moreover from this have "wf_heap hp2 \<and> dom ?hp1 \<subseteq> dom hp2"
    using "3.IH" [OF c [symmetric] refl l] by blast
  ultimately show ?case using "3.prems"(1) c l by (auto simp: Let_def)
qed (auto split: if_splits)

lemma process_keeps_endpoints:
  "process_client_event env conn evs = (r, conn', as) \<Longrightarrow> client conn' = client conn \<and> server conn' = server conn"
  "process_server_event env conn evs = (r, conn', as) \<Longrightarrow> client conn' = client conn \<and> server conn' = server conn"
  by (auto elim!: client_event_step server_event_step
      simp: set_client_half_def set_server_half_def split: prod.splits)

lemma settle_wf:
  assumes "settle a (r, conn', as) hp = (hp', as')" and "wf_heap hp" and "wf_conn a conn'"
  shows "wf_heap hp' \<and> dom hp - {a} \<subseteq> dom hp'"
  using assms by (auto simp: settle_def wf_heap_def split: if_splits)

lemma handle_event_live:
  assumes wf: "wf_heap hp" and live: "\<And>a. ptr_conn (le_ptr ev) = Some a \<Longrightarrow> a \<in> dom hp"
  shows "\<exists>hp' as. handle_event hp ev = Some (hp', as) \<and> wf_heap hp' \<and>
    dom hp - set_option (ptr_conn (le_ptr ev)) \<subseteq> dom hp'"
proof (cases "le_ptr ev")
  case P_listener
  obtain hp' as where l: "accept_loop (le_accepts ev) hp = (hp', as)" by (metis prod.exhaust)
  with accept_loop_wf [OF l wf] P_listener show ?thesis by (auto simp: handle_event_def)
next
  case (P_client a)
  then obtain conn where c: "hp a = Some conn" using live by auto
  then have w: "wf_conn a conn" using wf by (auto simp: wf_heap_def)
  obtain r conn' as where p: "process_client_event (le_env ev) conn (le_events ev) = (r, conn', as)"
    by (metis prod_cases3)
  obtain hp' as' where s: "settle a (r, conn', as) hp = (hp', as')" by (metis prod.exhaust)
  have "wf_conn a conn'" using w process_keeps_endpoints(1) [OF p] by (simp add: wf_conn_def)
  from settle_wf [OF s wf this] show ?thesis
    using c w p s P_client by (simp add: handle_event_def wf_conn_def)
next
  case (P_server a)
  then obtain conn where c: "hp a = Some conn" using live by auto
  then have w: "wf_conn a conn" using wf by (auto simp: wf_heap_def)
  obtain r conn' as where p: "process_server_event (le_env ev) conn (le_events ev) = (r, conn', as)"
    by (metis prod_cases3)
  obtain hp' as' where s: "settle a (r, conn', as) hp = (hp', as')" by (metis prod.exhaust)
  have "wf_conn a conn'" using w process_keeps_endpoints(2) [OF p] by (simp add: wf_conn_def)
  from settle_wf [OF s wf this] show ?thesis
    using c w p s P_server by (simp add: handle_event_def wf_conn_def)
qed

definition batch_conns :: "loop_event list \<Rightarrow> nat list" where
  "batch_conns evs = concat (map (\<lambda>ev. case ptr_conn (le_ptr ev) of None \<Rightarrow> [] | Some a \<Rightarrow> [a]) evs)"

text \<open>Claim C16: a batch of events in which every connection appears at most once, over a
  well-formed heap where they are all live, never touches freed memory, and leaves the heap
  well formed.\<close>

theorem batch_without_repeats_is_safe:
  assumes "wf_heap hp" and "distinct (batch_conns evs)" and "set (batch_conns evs) \<subseteq> dom hp"
  shows "\<exists>hp' as. handle_batch hp evs = Some (hp', as) \<and> wf_heap hp'"
  using assms
proof (induction evs arbitrary: hp)
  case Nil
  then show ?case by simp
next
  case (Cons ev evs)
  have live: "\<And>a. ptr_conn (le_ptr ev) = Some a \<Longrightarrow> a \<in> dom hp"
    using Cons.prems(3) by (auto simp: batch_conns_def)
  obtain hp1 as1 where h: "handle_event hp ev = Some (hp1, as1)" and w: "wf_heap hp1"
    and d: "dom hp - set_option (ptr_conn (le_ptr ev)) \<subseteq> dom hp1"
    using handle_event_live [OF Cons.prems(1), of ev] live by blast
  have cons: "batch_conns (ev # evs) = (case ptr_conn (le_ptr ev) of None \<Rightarrow> [] | Some a \<Rightarrow> [a]) @ batch_conns evs"
    by (simp add: batch_conns_def)
  have "distinct (batch_conns evs)" using Cons.prems(2) by (simp add: cons)
  moreover have "set (batch_conns evs) \<subseteq> dom hp - set_option (ptr_conn (le_ptr ev))"
    using Cons.prems(2,3) unfolding cons by (cases "ptr_conn (le_ptr ev)") (simp_all, blast)
  then have "set (batch_conns evs) \<subseteq> dom hp1" using d by (rule subset_trans)
  ultimately show ?case using Cons.IH [OF w] h by fastforce
qed

section \<open>Freed connections\<close>

text \<open>A freed address stays freed until an accepted connection is allocated there.\<close>

definition reuses :: "nat \<Rightarrow> loop_event \<Rightarrow> bool" where
  "reuses a ev \<longleftrightarrow>
     list_ex (\<lambda>ans. case ans of Accepted f env \<Rightarrow> c_calloc env = Some a | Accept_err e \<Rightarrow> False) (le_accepts ev)"

lemma create_connection_at: "create_connection e f = (Some (a, conn), as) \<Longrightarrow> c_calloc e = Some a"
  by (auto simp: create_connection_def Let_def split: prod.splits if_splits option.splits)

lemma accept_loop_free:
  "accept_loop ans hp = (hp', as) \<Longrightarrow> hp a = None \<Longrightarrow>
   \<not> list_ex (\<lambda>ans. case ans of Accepted f env \<Rightarrow> c_calloc env = Some a | Accept_err e \<Rightarrow> False) ans \<Longrightarrow> hp' a = None"
proof (induction ans hp arbitrary: hp' as rule: accept_loop.induct)
  case (3 f env ans hp)
  obtain res as1 where c: "create_connection env f = (res, as1)" by (metis prod.exhaust)
  let ?hp1 = "case res of None \<Rightarrow> hp | Some (a, conn) \<Rightarrow> hp(a \<mapsto> conn)"
  obtain hp2 as2 where l: "accept_loop ans ?hp1 = (hp2, as2)" by (metis prod.exhaust)
  have "?hp1 a = None"
    using create_connection_at [of env f] c "3.prems"(2,3) by (auto split: option.splits)
  with "3.IH" [OF c [symmetric] refl l] "3.prems"(3) have "hp2 a = None" by simp
  with "3.prems"(1) c l show ?case by (simp add: Let_def)
qed (auto split: if_splits)

lemma handle_event_free:
  assumes h: "handle_event hp ev = Some (hp', as)" and free: "hp a = None" and new: "\<not> reuses a ev"
  shows "hp' a = None"
proof -
  obtain ep where ep: "endpoint_at hp (le_ptr ev) = Some ep"
    using h by (auto simp: handle_event_def split: option.splits)
  show ?thesis
  proof (cases "ep_type ep = ENDPOINT_LISTENER")
    case True
    with h ep have "accept_loop (le_accepts ev) hp = (hp', as)" by (simp add: handle_event_def)
    from accept_loop_free [OF this free] new show ?thesis by (simp add: reuses_def)
  next
    case False
    show ?thesis
    proof (cases "ep_conn ep")
      case None
      with h ep False free show ?thesis by (simp add: handle_event_def)
    next
      case (Some b)
      with h ep False obtain conn where c: "hp b = Some conn"
        by (auto simp: handle_event_def split: option.splits)
      obtain p where s: "(hp', as) = settle b p hp"
        using h ep False Some c
        by (cases "ep_type ep = ENDPOINT_CLIENT") (auto simp: handle_event_def intro: that [OF sym])
      from c free have "b \<noteq> a" by auto
      with s free show ?thesis by (cases p) (auto simp: settle_def split: if_splits)
    qed
  qed
qed

lemma handle_event_wf:
  assumes wf: "wf_heap hp" and h: "handle_event hp ev = Some (hp', as)"
  shows "wf_heap hp'"
proof -
  have live: "a \<in> dom hp" if "ptr_conn (le_ptr ev) = Some a" for a
    using h that by (cases "le_ptr ev") (auto simp: handle_event_def split: option.splits)
  obtain hp1 as1 where "handle_event hp ev = Some (hp1, as1)" "wf_heap hp1"
    using handle_event_live [OF wf, of ev] live by blast
  with h show ?thesis by simp
qed

lemma handle_batch_append:
  "handle_batch hp (evs @ evs') = (case handle_batch hp evs of None \<Rightarrow> None
     | Some (hp', as) \<Rightarrow> map_option (\<lambda>(hp'', as'). (hp'', as @ as')) (handle_batch hp' evs'))"
  by (induction evs arbitrary: hp) (auto split: option.splits simp: option.map_comp o_def case_prod_unfold option.map_ident)

lemma handle_batch_wf: "wf_heap hp \<Longrightarrow> handle_batch hp evs = Some (hp', as) \<Longrightarrow> wf_heap hp'"
  by (induction evs arbitrary: hp as) (auto split: option.splits dest: handle_event_wf)

lemma handle_batch_free:
  "handle_batch hp evs = Some (hp', as) \<Longrightarrow> hp a = None \<Longrightarrow> \<forall>ev \<in> set evs. \<not> reuses a ev \<Longrightarrow> hp' a = None"
  by (induction evs arbitrary: hp as) (auto split: option.splits dest: handle_event_free)

text \<open>Once an address is free, an event on either of its endpoints reads freed memory.\<close>

lemma handle_batch_dangling:
  assumes "hp a = None" and "\<forall>ev \<in> set mid. \<not> reuses a ev" and "ptr_conn (le_ptr ev2) = Some a"
  shows "handle_batch hp (mid @ ev2 # post) = None"
proof (cases "handle_batch hp mid")
  case (Some x)
  obtain hp' as where x: "x = (hp', as)" by (cases x)
  have "hp' a = None" by (rule handle_batch_free [OF Some [unfolded x] assms(1,2)])
  then have "handle_event hp' ev2 = None"
    using assms(3) by (cases "le_ptr ev2") (simp_all add: handle_event_def)
  with Some x show ?thesis by (simp add: handle_batch_append)
qed (simp add: handle_batch_append)

text \<open>Claim C17: a batch with two events of one connection, on the client's or on the server's
  endpoint and in either order, at any places of the batch, is a use after free as soon as
  handling the first of them ends the connection (the handler failed, or both directions are
  finished): the second one's endpoint lies in the freed connection, unless a connection
  accepted in between was allocated at the very same address.\<close>

theorem batch_use_after_free:
  assumes "wf_heap hp" and "handle_batch hp pre = Some (hp0, as0)" and "hp0 a = Some conn"
    and "le_ptr ev1 = P_client a \<and> process_client_event (le_env ev1) conn (le_events ev1) = (r, conn', as) \<or>
         le_ptr ev1 = P_server a \<and> process_server_event (le_env ev1) conn (le_events ev1) = (r, conn', as)"
    and "r < 0 \<or> connection_finished conn'"
    and "\<forall>ev \<in> set mid. \<not> reuses a ev"
    and "le_ptr ev2 = P_client a \<or> le_ptr ev2 = P_server a"
  shows "handle_batch hp (pre @ ev1 # mid @ ev2 # post) = None"
proof -
  have "wf_conn a conn" using handle_batch_wf [OF assms(1,2)] assms(3) by (auto simp: wf_heap_def)
  then have "handle_event hp0 ev1 = Some (hp0(a := None), as @ destroy_connection conn')"
    using assms(3-5) by (auto simp: handle_event_def wf_conn_def settle_def)
  moreover have "handle_batch (hp0(a := None)) (mid @ ev2 # post) = None"
    by (rule handle_batch_dangling [OF _ assms(6)]) (use assms(7) in auto)
  ultimately show ?thesis using assms(2) by (simp add: handle_batch_append)
qed

definition demo_heap :: heap where
  "demo_heap = [0 \<mapsto> new_connection 0 4 5]"

lemma demo_heap_wf: "wf_heap demo_heap"
  by (simp add: wf_heap_def demo_heap_def wf_conn_def new_connection_def)

text \<open>Both peers reset: epoll reports \<open>EPOLLERR | EPOLLHUP\<close> on both descriptors at once.\<close>

definition reset_event :: "endpoint_ptr \<Rightarrow> loop_event" where
  "reset_event p = \<lparr>le_ptr = p, le_events = 0x18, le_accepts = [], le_env = demo_env [] 9\<rparr>"

text \<open>The server's endpoint comes first, and the listener accepts a connection in between.\<close>

definition accept_event :: loop_event where
  "accept_event = \<lparr>le_ptr = P_listener, le_events = EPOLLIN, le_accepts = [Accepted 6 \<lparr>c_dial = demo_dial,
     c_client = demo_fd, c_calloc = Some 1, c_add = (\<lambda>_. 0)\<rparr>, Accept_err EAGAIN], le_env = demo_env [] 9\<rparr>"

theorem batch_use_after_free_witness:
  "handle_batch demo_heap [reset_event (P_server 0), accept_event, reset_event (P_client 0)] = None"
proof -
  have p: "\<exists>conn' as. process_server_event (demo_env [] 9) (new_connection 0 4 5) 0x18 = (-1, conn', as)"
    by (simp add: demo_eval process_server_event_def)
  then obtain conn' as where
    "process_server_event (demo_env [] 9) (new_connection 0 4 5) 0x18 = (-1, conn', as)" by blast
  then have "handle_batch demo_heap ([] @ reset_event (P_server 0) # [accept_event] @ reset_event (P_client 0) # []) = None"
    by (intro batch_use_after_free [OF demo_heap_wf, where a = 0 and conn = "new_connection 0 4 5"
          and r = "-1" and conn' = conn' and as = as and ?hp0.0 = demo_heap and ?as0.0 = "[]"])
      (simp_all add: demo_heap_def reset_event_def reuses_def accept_event_def)
  then show ?thesis by simp
qed

theorem batch_without_repeats_is_safe_witness:
  "\<exists>hp' as. handle_batch demo_heap [reset_event (P_server 0)] = Some (hp', as)"
  using batch_without_repeats_is_safe [OF demo_heap_wf, of "[reset_event (P_server 0)]"]
  by (auto simp: batch_conns_def reset_event_def demo_heap_def)

end
