(* ===== verification/Ring.thy ===== *)
theory Ring
  imports Prelude
begin

text \<open>
  Descriptor rings.  Both network drivers keep a producer and a consumer index in a ring
  of fixed size and leave one slot empty, so that equal indices mean an empty ring.  The
  contract \<open>ring_index\<close> asks of a driver only that its successor function steps once around
  the ring; the lemmas of the context describe the slots in flight as a list in ring order,
  which enqueueing extends at the end and dequeueing shortens at the front.
\<close>

definition ring_used :: "nat \<Rightarrow> nat \<Rightarrow> nat \<Rightarrow> nat" where
  "ring_used n c h = (if c \<le> h then h - c else (n - c) + h)"

definition ring_slots :: "nat \<Rightarrow> nat \<Rightarrow> nat \<Rightarrow> nat list" where
  "ring_slots n c h = (if c \<le> h then [c..<h] else [c..<n] @ [0..<h])"

lemma length_ring_slots [simp]:
  "h < n \<Longrightarrow> length (ring_slots n c h) = ring_used n c h"
  by (auto simp: ring_slots_def ring_used_def)

lemma ring_used_self [simp]: "ring_used n c c = 0"
  by (simp add: ring_used_def)

lemma ring_slots_self [simp]: "ring_slots n c c = []"
  by (simp add: ring_slots_def)

lemma ring_used_0_iff: "c < n \<Longrightarrow> h < n \<Longrightarrow> ring_used n c h = 0 \<longleftrightarrow> c = h"
  by (auto simp: ring_used_def)

lemma distinct_ring_slots: "distinct (ring_slots n c h)"
  by (auto simp: ring_slots_def)

lemma ring_slots_less: "h < n \<Longrightarrow> i \<in> set (ring_slots n c h) \<Longrightarrow> i < n"
  by (auto simp: ring_slots_def split: if_splits)

lemma head_notin_slots: "h \<notin> set (ring_slots n c h)"
  by (auto simp: ring_slots_def)

lemma ring_used_less: "c < n \<Longrightarrow> h < n \<Longrightarrow> ring_used n c h < n"
  by (auto simp: ring_used_def)

text \<open>
  A third index, the device's, between the consumer and the producer: the slots in flight are
  those the device has finished followed by those it still owns.
\<close>

definition ring_in_order :: "nat \<Rightarrow> nat \<Rightarrow> nat \<Rightarrow> nat \<Rightarrow> bool" where
  "ring_in_order n c m h \<longleftrightarrow> c < n \<and> m < n \<and> h < n \<and>
     ring_slots n c h = ring_slots n c m @ ring_slots n m h"

lemma ring_in_order_refl [simp]: "ring_in_order n c c c \<longleftrightarrow> c < n"
  by (auto simp: ring_in_order_def)

lemma ring_in_order_used: "ring_in_order n c m h \<Longrightarrow> ring_used n c h = ring_used n c m + ring_used n m h"
  unfolding ring_in_order_def by (metis length_append length_ring_slots)

locale ring_index =
  fixes size :: nat
    and nxt :: "nat \<Rightarrow> nat"
  assumes size_gt_1: "1 < size"
    and nxt_step: "i < size \<Longrightarrow> nxt i = Suc i mod size"
begin

lemma nxt_cases: "i < size \<Longrightarrow> nxt i = (if Suc i = size then 0 else Suc i)"
  by (simp add: nxt_step mod_if)

lemma nxt_less: "i < size \<Longrightarrow> nxt i < size"
  using size_gt_1 by (simp add: nxt_step)

lemma nxt_neq: "i < size \<Longrightarrow> nxt i \<noteq> i"
  using size_gt_1 by (auto simp: nxt_cases)

lemma used_enq:
  "c < size \<Longrightarrow> h < size \<Longrightarrow> nxt h \<noteq> c \<Longrightarrow> ring_used size c (nxt h) = Suc (ring_used size c h)"
  by (auto simp: nxt_cases ring_used_def split: if_splits)

lemma used_deq:
  "c < size \<Longrightarrow> h < size \<Longrightarrow> c \<noteq> h \<Longrightarrow> ring_used size c h = Suc (ring_used size (nxt c) h)"
  by (auto simp: nxt_cases ring_used_def split: if_splits)

lemma full_iff:
  "c < size \<Longrightarrow> h < size \<Longrightarrow> nxt h = c \<longleftrightarrow> ring_used size c h = size - 1"
  using size_gt_1 by (auto simp: nxt_cases ring_used_def split: if_splits)

lemma slots_enq:
  "c < size \<Longrightarrow> h < size \<Longrightarrow> nxt h \<noteq> c \<Longrightarrow> ring_slots size c (nxt h) = ring_slots size c h @ [h]"
  by (auto simp: nxt_cases ring_slots_def upt_Suc_append split: if_splits)

lemma slots_deq:
  "c < size \<Longrightarrow> h < size \<Longrightarrow> c \<noteq> h \<Longrightarrow> ring_slots size c h = c # ring_slots size (nxt c) h"
  by (auto simp: nxt_cases ring_slots_def upt_conv_Cons split: if_splits)

lemma tail_slots:
  "c < size \<Longrightarrow> h < size \<Longrightarrow> c \<noteq> h \<Longrightarrow> c \<notin> set (ring_slots size (nxt c) h)"
  using slots_deq [of c h] distinct_ring_slots [of size c h] by simp

lemma used_le: "c < size \<Longrightarrow> h < size \<Longrightarrow> ring_used size c h \<le> size - 1"
  using ring_used_less [of c size h] by simp

lemma in_order_enq:
  assumes "ring_in_order size c m h" "nxt h \<noteq> c"
  shows "ring_in_order size c m (nxt h)" and "ring_slots size c (nxt h) = ring_slots size c h @ [h]"
    and "ring_slots size m (nxt h) = ring_slots size m h @ [h]"
proof -
  have l: "c < size" "m < size" "h < size" and s: "ring_slots size c h = ring_slots size c m @ ring_slots size m h"
    using assms(1) by (auto simp: ring_in_order_def)
  have "nxt h \<noteq> m"
  proof
    assume "nxt h = m"
    then have "ring_used size m h = size - 1" using full_iff l by simp
    then have "ring_used size c h = size - 1"
      using ring_in_order_used [OF assms(1)] used_le [OF l(1,3)] by simp
    with assms(2) show False using full_iff l by simp
  qed
  then show m: "ring_slots size m (nxt h) = ring_slots size m h @ [h]" using slots_enq l by simp
  show c: "ring_slots size c (nxt h) = ring_slots size c h @ [h]" using slots_enq l assms(2) by simp
  show "ring_in_order size c m (nxt h)" using l c m s by (simp add: ring_in_order_def nxt_less)
qed

lemma in_order_hw:
  assumes "ring_in_order size c m h" "m \<noteq> h"
  shows "ring_in_order size c (nxt m) h" and "ring_slots size m h = m # ring_slots size (nxt m) h"
    and "ring_slots size c (nxt m) = ring_slots size c m @ [m]"
proof -
  have l: "c < size" "m < size" "h < size" and s: "ring_slots size c h = ring_slots size c m @ ring_slots size m h"
    using assms(1) by (auto simp: ring_in_order_def)
  show m: "ring_slots size m h = m # ring_slots size (nxt m) h" using slots_deq l assms(2) by simp
  have "nxt m \<noteq> c"
  proof
    assume "nxt m = c"
    then have "ring_used size c m = size - 1" using full_iff l by simp
    moreover have "ring_used size m h \<noteq> 0" using ring_used_0_iff l assms(2) by simp
    ultimately show False
      using ring_in_order_used [OF assms(1)] used_le [OF l(1,3)] size_gt_1 by simp
  qed
  then show c: "ring_slots size c (nxt m) = ring_slots size c m @ [m]" using slots_enq l by simp
  show "ring_in_order size c (nxt m) h" using l c m s by (simp add: ring_in_order_def nxt_less)
qed

lemma in_order_deq:
  assumes "ring_in_order size c m h" "c \<noteq> m"
  shows "ring_in_order size (nxt c) m h" and "ring_slots size c h = c # ring_slots size (nxt c) h"
    and "ring_slots size c m = c # ring_slots size (nxt c) m"
proof -
  have l: "c < size" "m < size" "h < size" and s: "ring_slots size c h = ring_slots size c m @ ring_slots size m h"
    using assms(1) by (auto simp: ring_in_order_def)
  show m: "ring_slots size c m = c # ring_slots size (nxt c) m" using slots_deq l assms(2) by simp
  with s have "c \<noteq> h" by auto
  then show c: "ring_slots size c h = c # ring_slots size (nxt c) h" using slots_deq l by simp
  show "ring_in_order size (nxt c) m h" using l c m s by (simp add: ring_in_order_def nxt_less)
qed

end

end
