(* ===== verification/Netdev_Base.thy ===== *)
theory Netdev_Base
  imports Ring "HOL-Library.Multiset"
begin

text \<open>
  What the two network drivers share: packets, the return codes of \<open>ndo_start_xmit\<close>, the log
  of calls into the kernel and writes to device registers, and the contract \<open>tx_driver\<close>
  between the network stack and a driver's transmit side.
\<close>

section \<open>Packets and the log\<close>

text \<open>A socket buffer is its identity and its bytes; \<open>skb->len\<close> is the number of bytes.\<close>

record sk_buff =
  sk_id :: nat
  sk_data :: "u8 list"

abbreviation skb_len :: "sk_buff \<Rightarrow> u32" where
  "skb_len b \<equiv> of_nat (length (sk_data b))"

datatype netdev_tx = NETDEV_TX_OK | NETDEV_TX_BUSY

datatype irqreturn = IRQ_NONE | IRQ_HANDLED

datatype dma_dir = DMA_TO_DEVICE | DMA_FROM_DEVICE

text \<open>
  The calls into the kernel, by what they are about: the life of the device, interrupt
  vectors, the work queue, the timer and the carrier; then the queue and NAPI.
\<close>

datatype dev_act =
    A_pci_enable | A_pci_disable
  | A_set_master
  | A_request_regions | A_release_regions
  | A_alloc_netdev | A_free_netdev
  | A_iomap | A_iounmap
  | A_napi_add | A_napi_del
  | A_request_irq nat | A_free_irq nat
  | A_register_netdev | A_unregister_netdev

datatype aux_act =
    A_irq_vectors | A_free_irq_vectors
  | A_workqueue | A_destroy_workqueue
  | A_queue_work | A_cancel_work
  | A_timer_start | A_timer_cancel
  | A_carrier bool

datatype net_act =
    A_stop_queue
  | A_wake_queue
  | A_start_queue
  | A_napi_schedule
  | A_napi_complete int
  | A_napi_enable
  | A_napi_disable

datatype drv_act =
    D_dma_map dma_dir u64 u32    \<comment> \<open>streaming mapping of so many bytes at this bus address\<close>
  | D_dma_unmap dma_dir u64 u32
  | D_sync_for_cpu u64 u32
  | D_sync_for_device u64 u32
  | D_take_skb sk_buff           \<comment> \<open>the stack hands a packet over: \<open>ndo_start_xmit\<close> answered \<open>NETDEV_TX_OK\<close>\<close>
  | D_kfree_skb sk_buff
  | D_kmalloc u64                \<comment> \<open>a buffer at this kernel address\<close>
  | D_kfree u64
  | D_coherent_alloc u64         \<comment> \<open>a coherent ring at this bus address\<close>
  | D_coherent_free u64
  | D_writel nat u32             \<comment> \<open>register offset, value\<close>
  | D_readl nat
  | D_receive "u8 list"          \<comment> \<open>a frame handed to the network stack\<close>
  | D_alloc_skb nat              \<comment> \<open>a receive buffer with this identity\<close>
  | D_free_skb nat
  | D_gro_receive nat "u8 list" bool
      \<comment> \<open>a receive buffer handed to the stack with its frame; the checksum was verified\<close>
  | D_dev dev_act
  | D_aux aux_act
  | D_net net_act

abbreviation "D_pci_enable \<equiv> D_dev A_pci_enable"
abbreviation "D_pci_disable \<equiv> D_dev A_pci_disable"
abbreviation "D_set_master \<equiv> D_dev A_set_master"
abbreviation "D_request_regions \<equiv> D_dev A_request_regions"
abbreviation "D_release_regions \<equiv> D_dev A_release_regions"
abbreviation "D_alloc_netdev \<equiv> D_dev A_alloc_netdev"
abbreviation "D_free_netdev \<equiv> D_dev A_free_netdev"
abbreviation "D_iomap \<equiv> D_dev A_iomap"
abbreviation "D_iounmap \<equiv> D_dev A_iounmap"
abbreviation "D_napi_add \<equiv> D_dev A_napi_add"
abbreviation "D_napi_del \<equiv> D_dev A_napi_del"
abbreviation "D_request_irq n \<equiv> D_dev (A_request_irq n)"
abbreviation "D_free_irq n \<equiv> D_dev (A_free_irq n)"
abbreviation "D_register_netdev \<equiv> D_dev A_register_netdev"
abbreviation "D_unregister_netdev \<equiv> D_dev A_unregister_netdev"
abbreviation "D_stop_queue \<equiv> D_net A_stop_queue"
abbreviation "D_wake_queue \<equiv> D_net A_wake_queue"
abbreviation "D_start_queue \<equiv> D_net A_start_queue"
abbreviation "D_napi_schedule \<equiv> D_net A_napi_schedule"
abbreviation "D_napi_complete w \<equiv> D_net (A_napi_complete w)"
abbreviation "D_napi_enable \<equiv> D_net A_napi_enable"
abbreviation "D_napi_disable \<equiv> D_net A_napi_disable"

fun freed :: "drv_act list \<Rightarrow> sk_buff list" where
  "freed [] = []"
| "freed (D_kfree_skb b # as) = b # freed as"
| "freed (_ # as) = freed as"

fun mapped :: "drv_act list \<Rightarrow> (dma_dir \<times> u64 \<times> u32) list" where
  "mapped [] = []"
| "mapped (D_dma_map d a n # as) = (d, a, n) # mapped as"
| "mapped (_ # as) = mapped as"

fun unmapped :: "drv_act list \<Rightarrow> (dma_dir \<times> u64 \<times> u32) list" where
  "unmapped [] = []"
| "unmapped (D_dma_unmap d a n # as) = (d, a, n) # unmapped as"
| "unmapped (_ # as) = unmapped as"

fun delivered :: "drv_act list \<Rightarrow> u8 list list" where
  "delivered [] = []"
| "delivered (D_receive f # as) = f # delivered as"
| "delivered (D_gro_receive i f c # as) = f # delivered as"
| "delivered (_ # as) = delivered as"

fun writes :: "nat \<Rightarrow> drv_act list \<Rightarrow> u32 list" where
  "writes r [] = []"
| "writes r (D_writel r' v # as) = (if r = r' then v # writes r as else writes r as)"
| "writes r (_ # as) = writes r as"

lemma freed_append [simp]: "freed (as @ bs) = freed as @ freed bs"
  by (induction as rule: freed.induct) auto

lemma mapped_append [simp]: "mapped (as @ bs) = mapped as @ mapped bs"
  by (induction as rule: mapped.induct) auto

lemma unmapped_append [simp]: "unmapped (as @ bs) = unmapped as @ unmapped bs"
  by (induction as rule: unmapped.induct) auto

lemma delivered_append [simp]: "delivered (as @ bs) = delivered as @ delivered bs"
  by (induction as rule: delivered.induct) auto

lemma writes_append [simp]: "writes r (as @ bs) = writes r as @ writes r bs"
  by (induction r as rule: writes.induct) auto

section \<open>The resource ledger\<close>

text \<open>
  What a driver holds: mappings, memory, coherent rings, receive buffers, the packets the stack
  handed over and the registrations of the device.  \<open>ledger\<close> runs a log over the multiset of
  resources held: a release of something not held (a double free, a free of something never
  acquired) is \<open>None\<close>.
\<close>

datatype resource =
    R_dma dma_dir u64 u32 | R_mem u64 | R_coherent u64 | R_pci | R_regions | R_netdev
  | R_packet sk_buff             \<comment> \<open>a packet the stack handed over and the driver has to free\<close>
  | R_iomap | R_napi | R_irq nat | R_registered | R_skb nat | R_vectors | R_workqueue

fun acquires :: "drv_act \<Rightarrow> resource option" where
  "acquires (D_dma_map d a n) = Some (R_dma d a n)"
| "acquires (D_take_skb b) = Some (R_packet b)"
| "acquires (D_kmalloc p) = Some (R_mem p)"
| "acquires (D_coherent_alloc a) = Some (R_coherent a)"
| "acquires D_pci_enable = Some R_pci"
| "acquires D_request_regions = Some R_regions"
| "acquires D_alloc_netdev = Some R_netdev"
| "acquires D_iomap = Some R_iomap"
| "acquires D_napi_add = Some R_napi"
| "acquires (D_request_irq n) = Some (R_irq n)"
| "acquires D_register_netdev = Some R_registered"
| "acquires (D_alloc_skb i) = Some (R_skb i)"
| "acquires (D_aux A_irq_vectors) = Some R_vectors"
| "acquires (D_aux A_workqueue) = Some R_workqueue"
| "acquires _ = None"

fun releases :: "drv_act \<Rightarrow> resource option" where
  "releases (D_dma_unmap d a n) = Some (R_dma d a n)"
| "releases (D_kfree_skb b) = Some (R_packet b)"
| "releases (D_kfree p) = Some (R_mem p)"
| "releases (D_coherent_free a) = Some (R_coherent a)"
| "releases D_pci_disable = Some R_pci"
| "releases D_release_regions = Some R_regions"
| "releases D_free_netdev = Some R_netdev"
| "releases D_iounmap = Some R_iomap"
| "releases D_napi_del = Some R_napi"
| "releases (D_free_irq n) = Some (R_irq n)"
| "releases D_unregister_netdev = Some R_registered"
| "releases (D_free_skb i) = Some (R_skb i)"
| "releases (D_gro_receive i f c) = Some (R_skb i)"
| "releases (D_aux A_free_irq_vectors) = Some R_vectors"
| "releases (D_aux A_destroy_workqueue) = Some R_workqueue"
| "releases _ = None"

primrec ledger :: "resource multiset \<Rightarrow> drv_act list \<Rightarrow> resource multiset option" where
  "ledger R [] = Some R"
| "ledger R (a # as) =
     (case acquires a of Some r \<Rightarrow> ledger (add_mset r R) as
      | None \<Rightarrow> (case releases a of None \<Rightarrow> ledger R as
                 | Some r \<Rightarrow> if r \<in># R then ledger (R - {#r#}) as else None))"

lemma ledger_append: "ledger R (as @ bs) = Option.bind (ledger R as) (\<lambda>R'. ledger R' bs)"
  by (induction as arbitrary: R) (auto split: option.splits)

lemma sum_list_update_ms:
  fixes f :: "'a \<Rightarrow> 'b multiset"
  shows "i < length xs \<Longrightarrow> sum_list (map f (xs[i := x])) + f (xs ! i) = sum_list (map f xs) + f x"
  by (induction xs arbitrary: i) (auto split: nat.splits simp: ac_simps)

text \<open>Actions that neither acquire nor release leave the account alone.\<close>

definition neutral :: "drv_act list \<Rightarrow> bool" where
  "neutral as \<longleftrightarrow> (\<forall>a \<in> set as. acquires a = None \<and> releases a = None)"

lemma ledger_neutral: "neutral as \<Longrightarrow> ledger R as = Some R"
  by (induction as) (auto simp: neutral_def)

text \<open>
  What a run logs when the stack offers the packet \<open>b\<close>: with the answer \<open>NETDEV_TX_OK\<close> the packet
  is the driver's from the call on, with \<open>NETDEV_TX_BUSY\<close> it stays with the stack.
\<close>

definition handed :: "netdev_tx \<Rightarrow> sk_buff \<Rightarrow> drv_act list" where
  "handed r b = (if r = NETDEV_TX_OK then [D_take_skb b] else [])"

lemma handed_views [simp]:
  "freed (handed r b) = []" "mapped (handed r b) = []" "unmapped (handed r b) = []"
  "delivered (handed r b) = []" "writes reg (handed r b) = []"
  "handed NETDEV_TX_OK b = [D_take_skb b]" "handed NETDEV_TX_BUSY b = []"
  by (simp_all add: handed_def)

section \<open>The transmit contract\<close>

text \<open>
  The stack hands a packet to \<open>xmit\<close>.  On \<open>NETDEV_TX_BUSY\<close> it keeps the packet; on
  \<open>NETDEV_TX_OK\<close> the driver owns it and must free it exactly once, now or after completion.
  \<open>reap\<close> is the completion handler, and \<open>hw\<close> the device finishing a descriptor.
\<close>

locale tx_driver =
  fixes ok :: "'s \<Rightarrow> bool"
    and inflight :: "'s \<Rightarrow> sk_buff list"
    and xmit :: "'e \<Rightarrow> sk_buff \<Rightarrow> 's \<Rightarrow> (netdev_tx \<times> 's \<times> drv_act list) option"
    and reap :: "'s \<Rightarrow> ('s \<times> drv_act list) option"
    and hw :: "'h \<Rightarrow> 's \<Rightarrow> 's"
  assumes xmit_total: "ok s \<Longrightarrow> \<exists>r s' as. xmit e b s = Some (r, s', as)"
    and xmit_keeps: "ok s \<Longrightarrow> xmit e b s = Some (r, s', as) \<Longrightarrow> ok s'"
    and xmit_busy: "ok s \<Longrightarrow> xmit e b s = Some (NETDEV_TX_BUSY, s', as)
      \<Longrightarrow> inflight s' = inflight s \<and> freed as = []"
    and xmit_done: "ok s \<Longrightarrow> xmit e b s = Some (NETDEV_TX_OK, s', as)
      \<Longrightarrow> inflight s' = inflight s @ [b] \<and> freed as = [] \<or> inflight s' = inflight s \<and> freed as = [b]"
    and reap_total: "ok s \<Longrightarrow> \<exists>s' as. reap s = Some (s', as)"
    and reap_keeps: "ok s \<Longrightarrow> reap s = Some (s', as) \<Longrightarrow> ok s'"
    and reap_frees: "ok s \<Longrightarrow> reap s = Some (s', as) \<Longrightarrow> inflight s = freed as @ inflight s'"
    and hw_keeps: "ok s \<Longrightarrow> ok (hw i s)"
    and hw_inflight: "ok s \<Longrightarrow> inflight (hw i s) = inflight s"

text \<open>What can happen on the transmit side, in any order.\<close>

datatype ('e, 'h) tx_op = Xmit 'e sk_buff | Reap | Hw_done 'h

text \<open>A run: the packets the driver took, and those it freed.  \<open>None\<close> is undefined behaviour.\<close>

fun tx_run :: "('e \<Rightarrow> sk_buff \<Rightarrow> 's \<Rightarrow> (netdev_tx \<times> 's \<times> drv_act list) option) \<Rightarrow>
    ('s \<Rightarrow> ('s \<times> drv_act list) option) \<Rightarrow> ('h \<Rightarrow> 's \<Rightarrow> 's) \<Rightarrow> 's \<Rightarrow> ('e, 'h) tx_op list \<Rightarrow>
    ('s \<times> sk_buff list \<times> drv_act list) option" where
  "tx_run xmit reap hw s [] = Some (s, [], [])"
| "tx_run xmit reap hw s (Xmit e b # ops) =
     (case xmit e b s of None \<Rightarrow> None
      | Some (r, s', as) \<Rightarrow> map_option (\<lambda>(t, taken, as').
          (t, (if r = NETDEV_TX_OK then b # taken else taken), as @ as')) (tx_run xmit reap hw s' ops))"
| "tx_run xmit reap hw s (Reap # ops) =
     (case reap s of None \<Rightarrow> None
      | Some (s', as) \<Rightarrow> map_option (\<lambda>(t, taken, as'). (t, taken, as @ as')) (tx_run xmit reap hw s' ops))"
| "tx_run xmit reap hw s (Hw_done i # ops) = tx_run xmit reap hw (hw i s) ops"

context tx_driver
begin

text \<open>Every packet taken is freed exactly once or still in flight; none is lost or freed twice.\<close>

lemma run_accounts:
  "ok s \<Longrightarrow> \<exists>t taken as. tx_run xmit reap hw s ops = Some (t, taken, as) \<and> ok t \<and>
     mset (inflight s) + mset taken = mset (freed as) + mset (inflight t)"
proof (induction ops arbitrary: s)
  case Nil
  then show ?case by simp
next
  case (Cons op ops)
  show ?case
  proof (cases op)
    case (Xmit e b)
    obtain r s' as where x: "xmit e b s = Some (r, s', as)" using xmit_total [OF Cons.prems] by blast
    obtain t taken as' where run: "tx_run xmit reap hw s' ops = Some (t, taken, as')" "ok t"
      "mset (inflight s') + mset taken = mset (freed as') + mset (inflight t)"
      using Cons.IH [OF xmit_keeps [OF Cons.prems x]] by blast
    show ?thesis
    proof (cases r)
      case NETDEV_TX_OK
      from xmit_done [OF Cons.prems x [unfolded NETDEV_TX_OK]] run x Xmit NETDEV_TX_OK
      show ?thesis by auto
    next
      case NETDEV_TX_BUSY
      from xmit_busy [OF Cons.prems x [unfolded NETDEV_TX_BUSY]] run x Xmit NETDEV_TX_BUSY
      show ?thesis by auto
    qed
  next
    case Reap
    obtain s' as where x: "reap s = Some (s', as)" using reap_total [OF Cons.prems] by blast
    obtain t taken as' where run: "tx_run xmit reap hw s' ops = Some (t, taken, as')" "ok t"
      "mset (inflight s') + mset taken = mset (freed as') + mset (inflight t)"
      using Cons.IH [OF reap_keeps [OF Cons.prems x]] by blast
    with reap_frees [OF Cons.prems x] x Reap show ?thesis by simp
  next
    case (Hw_done i)
    with Cons.IH [OF hw_keeps [OF Cons.prems]] hw_inflight [OF Cons.prems] show ?thesis by simp
  qed
qed

end

text \<open>
  The DMA side of the contract: a mapping made for a packet is undone once, with the address
  and the length it was made with, in the order of the ring.
\<close>

locale tx_dma_driver = tx_driver ok inflight xmit reap hw
  for ok :: "'s \<Rightarrow> bool"
    and inflight :: "'s \<Rightarrow> sk_buff list"
    and xmit :: "'e \<Rightarrow> sk_buff \<Rightarrow> 's \<Rightarrow> (netdev_tx \<times> 's \<times> drv_act list) option"
    and reap :: "'s \<Rightarrow> ('s \<times> drv_act list) option"
    and hw :: "'h \<Rightarrow> 's \<Rightarrow> 's" +
  fixes live :: "'s \<Rightarrow> (dma_dir \<times> u64 \<times> u32) list"
  assumes xmit_maps: "ok s \<Longrightarrow> xmit e b s = Some (r, s', as)
      \<Longrightarrow> live s' = live s @ mapped as \<and> unmapped as = []"
    and reap_unmaps: "ok s \<Longrightarrow> reap s = Some (s', as)
      \<Longrightarrow> live s = unmapped as @ live s' \<and> mapped as = []"
    and hw_live: "ok s \<Longrightarrow> live (hw i s) = live s"
begin

lemma run_maps:
  "ok s \<Longrightarrow> tx_run xmit reap hw s ops = Some (t, taken, as)
   \<Longrightarrow> live s @ mapped as = unmapped as @ live t"
proof (induction ops arbitrary: s taken as)
  case Nil
  then show ?case by simp
next
  case (Cons op ops)
  show ?case
  proof (cases op)
    case (Xmit e b)
    obtain r s' as1 where x: "xmit e b s = Some (r, s', as1)" using xmit_total [OF Cons.prems(1)] by blast
    with Cons.prems(2) Xmit obtain taken' as2 where run: "tx_run xmit reap hw s' ops = Some (t, taken', as2)"
      and as: "as = as1 @ as2" by auto
    from Cons.IH [OF xmit_keeps [OF Cons.prems(1) x] run] xmit_maps [OF Cons.prems(1) x] as
    show ?thesis by simp
  next
    case Reap
    obtain s' as1 where x: "reap s = Some (s', as1)" using reap_total [OF Cons.prems(1)] by blast
    with Cons.prems(2) Reap obtain taken' as2 where run: "tx_run xmit reap hw s' ops = Some (t, taken', as2)"
      and as: "as = as1 @ as2" by auto
    from Cons.IH [OF reap_keeps [OF Cons.prems(1) x] run] reap_unmaps [OF Cons.prems(1) x] as
    show ?thesis by simp
  next
    case (Hw_done i)
    with Cons.prems have "tx_run xmit reap hw (hw i s) ops = Some (t, taken, as)" by simp
    from Cons.IH [OF hw_keeps [OF Cons.prems(1)] this] hw_live [OF Cons.prems(1)]
    show ?thesis by simp
  qed
qed

end

end
