(* ===== verification/Simple_Tx.thy ===== *)
theory Simple_Tx
  imports Netdev_Base
begin

text \<open>
  The data of \<open>net_device/simple_netdev.c\<close> and its transmit side: \<open>my_tx_ring_full\<close>,
  \<open>my_tx_clean\<close>, \<open>my_start_xmit\<close>, with the invariant of the transmit ring and the
  interpretation of the transmit contract.
\<close>

section \<open>Constants and data\<close>

definition RX_RING_SIZE :: nat where "RX_RING_SIZE = 64"
definition TX_RING_SIZE :: nat where "TX_RING_SIZE = 64"
definition RX_BUFFER_SIZE :: nat where "RX_BUFFER_SIZE = 2048"

definition REG_CONTROL :: nat where "REG_CONTROL = 0x0000"
definition REG_STATUS :: nat where "REG_STATUS = 0x0004"
definition REG_RX_RING_BASE_LOW :: nat where "REG_RX_RING_BASE_LOW = 0x0100"
definition REG_RX_RING_BASE_HIGH :: nat where "REG_RX_RING_BASE_HIGH = 0x0104"
definition REG_RX_TAIL :: nat where "REG_RX_TAIL = 0x0108"
definition REG_TX_RING_BASE_LOW :: nat where "REG_TX_RING_BASE_LOW = 0x0200"
definition REG_TX_RING_BASE_HIGH :: nat where "REG_TX_RING_BASE_HIGH = 0x0204"
definition REG_TX_TAIL :: nat where "REG_TX_TAIL = 0x0208"
definition REG_IRQ_STATUS :: nat where "REG_IRQ_STATUS = 0x0300"
definition REG_IRQ_MASK :: nat where "REG_IRQ_MASK = 0x0304"

definition IRQ_RX :: u32 where "IRQ_RX = push_bit 0 1"
definition IRQ_TX :: u32 where "IRQ_TX = push_bit 1 1"

text \<open>
  A buffer pointer is \<open>None\<close> for \<open>NULL\<close>; otherwise its address and the bytes it points to.
\<close>

record my_rx_desc =
  rx_buf :: "(u64 \<times> u8 list) option"
  rx_dma_addr :: u64
  rx_len :: u32
  rx_owned :: bool
  rx_done :: bool

record my_tx_desc =
  tx_skb :: "sk_buff option"
  tx_dma_addr :: u64
  tx_len :: u32
  tx_owned :: bool
  tx_done :: bool

text \<open>A ring pointer is \<open>None\<close> for \<open>NULL\<close>; \<open>unsigned\<close> indices stay below 64 and are naturals.\<close>

record my_priv =
  p_mmio :: bool                       \<comment> \<open>the register area is mapped\<close>
  p_irq :: nat
  rx_ring :: "my_rx_desc list option"
  rx_ring_dma :: u64
  rx_head :: nat
  tx_ring :: "my_tx_desc list option"
  tx_ring_dma :: u64
  tx_head :: nat
  tx_clean :: nat

record net_device =
  nd_priv :: my_priv
  nd_stopped :: bool                   \<comment> \<open>\<open>netif_queue_stopped\<close>\<close>
  nd_mtu :: int

definition idle_tx_desc :: my_tx_desc where
  "idle_tx_desc = \<lparr>tx_skb = None, tx_dma_addr = 0, tx_len = 0, tx_owned = False, tx_done = False\<rparr>"

section \<open>The code\<close>

definition my_tx_ring_full :: "my_priv \<Rightarrow> bool" where
  "my_tx_ring_full p = ((tx_head p + 1) mod TX_RING_SIZE = tx_clean p)"

text \<open>
  The loop of \<open>my_tx_clean\<close>.  A completed descriptor without a packet would reach
  \<open>dev_kfree_skb(NULL)\<close>, which the kernel allows; a ring index outside the ring is \<open>None\<close>.
\<close>

function tx_clean_loop :: "nat \<Rightarrow> my_tx_desc list \<Rightarrow> nat \<Rightarrow>
    (my_tx_desc list \<times> nat \<times> drv_act list) option" where
  "tx_clean_loop head ring c =
     (if c = head then Some (ring, c, [])
      else if length ring \<le> c then None
      else let d = ring ! c in
        if tx_owned d then Some (ring, c, [])
        else if \<not> tx_done d then Some (ring, c, [])
        else map_option (\<lambda>(ring', c', as).
               (ring', c', D_dma_unmap DMA_TO_DEVICE (tx_dma_addr d) (tx_len d)
                  # (case tx_skb d of None \<Rightarrow> [] | Some b \<Rightarrow> [D_kfree_skb b]) @ as))
             (tx_clean_loop head (ring[c := d\<lparr>tx_skb := None, tx_dma_addr := 0, tx_len := 0,
                                             tx_done := False, tx_owned := False\<rparr>])
                            ((c + 1) mod TX_RING_SIZE)))"
  by pat_completeness auto

termination
  by (relation "measure (\<lambda>(h, ring, c). length (filter tx_done ring))")
     (auto intro!: length_filter_update)

declare tx_clean_loop.simps [simp del]

definition my_tx_clean :: "net_device \<Rightarrow> (net_device \<times> drv_act list) option" where
  "my_tx_clean dev = (let p = nd_priv dev in
     case tx_ring p of None \<Rightarrow> (if tx_clean p = tx_head p then Some (dev, []) else None)
     | Some ring \<Rightarrow>
       (case tx_clean_loop (tx_head p) ring (tx_clean p) of None \<Rightarrow> None
        | Some (ring', c, as) \<Rightarrow>
          let p' = p\<lparr>tx_ring := Some ring', tx_clean := c\<rparr> in
          if nd_stopped dev \<and> \<not> my_tx_ring_full p'
          then Some (dev\<lparr>nd_priv := p', nd_stopped := False\<rparr>, as @ [D_wake_queue])
          else Some (dev\<lparr>nd_priv := p'\<rparr>, as)))"

text \<open>
  \<open>my_start_xmit\<close>.  The environment is what \<open>dma_map_single\<close> returns and what
  \<open>dma_mapping_error\<close> says of it.
\<close>

definition my_start_xmit ::
    "u64 \<times> bool \<Rightarrow> sk_buff \<Rightarrow> net_device \<Rightarrow> (netdev_tx \<times> net_device \<times> drv_act list) option" where
  "my_start_xmit dma skb dev = (let p = nd_priv dev in
     if my_tx_ring_full p
     then Some (NETDEV_TX_BUSY, dev\<lparr>nd_stopped := True\<rparr>, [D_stop_queue])
     else case tx_ring p of None \<Rightarrow> None
     | Some ring \<Rightarrow>
       if length ring \<le> tx_head p then None
       else let h = tx_head p; (addr, err) = dma; d = (ring ! h)\<lparr>tx_dma_addr := addr\<rparr> in
         if err
         then Some (NETDEV_TX_OK, dev\<lparr>nd_priv := p\<lparr>tx_ring := Some (ring[h := d])\<rparr>\<rparr>,
                    [D_kfree_skb skb])
         else let d' = d\<lparr>tx_skb := Some skb, tx_len := skb_len skb, tx_done := False,
                         tx_owned := True\<rparr>;
                  h' = (h + 1) mod TX_RING_SIZE
           in Some (NETDEV_TX_OK,
                    dev\<lparr>nd_priv := p\<lparr>tx_ring := Some (ring[h := d']), tx_head := h'\<rparr>\<rparr>,
                    [D_dma_map DMA_TO_DEVICE addr (skb_len skb), D_writel REG_TX_TAIL (of_nat h')]))"

text \<open>The device finishing a descriptor it owns: the completion the driver polls for.\<close>

definition hw_tx_done :: "nat \<Rightarrow> net_device \<Rightarrow> net_device" where
  "hw_tx_done i dev = (let p = nd_priv dev in
     case tx_ring p of None \<Rightarrow> dev
     | Some ring \<Rightarrow>
       if i < length ring \<and> tx_owned (ring ! i)
       then dev\<lparr>nd_priv := p\<lparr>tx_ring := Some (ring[i := (ring ! i)\<lparr>tx_owned := False, tx_done := True\<rparr>])\<rparr>\<rparr>
       else dev)"

section \<open>The invariant of the transmit ring\<close>

interpretation tx_ix: ring_index 64 "\<lambda>i. (i + 1) mod 64"
  by unfold_locales simp_all

definition tx_slots :: "my_priv \<Rightarrow> nat list" where
  "tx_slots p = ring_slots TX_RING_SIZE (tx_clean p) (tx_head p)"

text \<open>
  Slots between \<open>tx_clean\<close> and \<open>tx_head\<close> hold a packet; every other slot is empty, not owned
  by the device and not marked done.
\<close>

definition tx_ring_ok :: "my_tx_desc list \<Rightarrow> nat \<Rightarrow> nat \<Rightarrow> bool" where
  "tx_ring_ok ring c h \<longleftrightarrow> length ring = 64 \<and> c < 64 \<and> h < 64 \<and>
     (\<forall>i < 64. if i \<in> set (ring_slots 64 c h) then tx_skb (ring ! i) \<noteq> None
       else tx_skb (ring ! i) = None \<and> \<not> tx_owned (ring ! i) \<and> \<not> tx_done (ring ! i))"

definition tx_ok :: "net_device \<Rightarrow> bool" where
  "tx_ok dev \<longleftrightarrow> (\<exists>ring. tx_ring (nd_priv dev) = Some ring \<and>
     tx_ring_ok ring (tx_clean (nd_priv dev)) (tx_head (nd_priv dev)))"

definition ring_skbs :: "my_tx_desc list \<Rightarrow> nat \<Rightarrow> nat \<Rightarrow> sk_buff list" where
  "ring_skbs ring c h = map (\<lambda>i. the (tx_skb (ring ! i))) (ring_slots 64 c h)"

definition ring_maps :: "my_tx_desc list \<Rightarrow> nat \<Rightarrow> nat \<Rightarrow> (dma_dir \<times> u64 \<times> u32) list" where
  "ring_maps ring c h =
     map (\<lambda>i. (DMA_TO_DEVICE, tx_dma_addr (ring ! i), tx_len (ring ! i))) (ring_slots 64 c h)"

definition tx_inflight :: "net_device \<Rightarrow> sk_buff list" where
  "tx_inflight dev = (let p = nd_priv dev in
     case tx_ring p of None \<Rightarrow> [] | Some ring \<Rightarrow> ring_skbs ring (tx_clean p) (tx_head p))"

definition tx_live :: "net_device \<Rightarrow> (dma_dir \<times> u64 \<times> u32) list" where
  "tx_live dev = (let p = nd_priv dev in
     case tx_ring p of None \<Rightarrow> [] | Some ring \<Rightarrow> ring_maps ring (tx_clean p) (tx_head p))"

lemma ring_skbs_update:
  "i \<notin> set (ring_slots 64 c h) \<Longrightarrow> ring_skbs (ring[i := d]) c h = ring_skbs ring c h"
  unfolding ring_skbs_def by (rule map_ring_update)

lemma ring_maps_update:
  "i \<notin> set (ring_slots 64 c h) \<Longrightarrow> ring_maps (ring[i := d]) c h = ring_maps ring c h"
  unfolding ring_maps_def
  by (rule map_ring_update [where f = "\<lambda>d. (DMA_TO_DEVICE, tx_dma_addr d, tx_len d)"])

lemma tx_ring_ok_deq:
  assumes ok: "tx_ring_ok ring c h" and ne: "c \<noteq> h"
  shows "tx_ring_ok (ring[c := (ring ! c)\<lparr>tx_skb := None, tx_dma_addr := 0, tx_len := 0,
           tx_done := False, tx_owned := False\<rparr>]) ((c + 1) mod 64) h"
proof -
  from ok have l: "length ring = 64" "c < 64" "h < 64" by (auto simp: tx_ring_ok_def)
  have s: "ring_slots 64 c h = c # ring_slots 64 ((c + 1) mod 64) h"
    using tx_ix.slots_deq [of c h] l ne by simp
  have n: "c \<notin> set (ring_slots 64 ((c + 1) mod 64) h)"
    using tx_ix.tail_slots [of c h] l ne by simp
  show ?thesis using ok l n s unfolding tx_ring_ok_def
    by (auto simp: nth_list_update)
qed

text \<open>What the loop does on a good ring: it frees a prefix of the packets in flight, in order.\<close>

lemma tx_clean_loop_ok:
  "tx_ring_ok ring c h \<Longrightarrow> \<exists>ring' c' as. tx_clean_loop h ring c = Some (ring', c', as) \<and>
     tx_ring_ok ring' c' h \<and> ring_skbs ring c h = freed as @ ring_skbs ring' c' h \<and>
     ring_maps ring c h = unmapped as @ ring_maps ring' c' h \<and> mapped as = [] \<and>
     (c' \<noteq> h \<longrightarrow> tx_owned (ring' ! c') \<or> \<not> tx_done (ring' ! c'))"
proof (induction h ring c rule: tx_clean_loop.induct)
  case (1 h ring c)
  from 1(2) have l: "length ring = 64" "c < 64" "h < 64" by (auto simp: tx_ring_ok_def)
  show ?case
  proof (cases "c = h \<or> tx_owned (ring ! c) \<or> \<not> tx_done (ring ! c)")
    case True
    then have "tx_clean_loop h ring c = Some (ring, c, [])"
      using l by (subst tx_clean_loop.simps) (auto simp: Let_def)
    with 1(2) True show ?thesis by auto
  next
    case False
    let ?d = "(ring ! c)\<lparr>tx_skb := None, tx_dma_addr := 0, tx_len := 0, tx_done := False, tx_owned := False\<rparr>"
    let ?r = "ring[c := ?d]" and ?c = "(c + 1) mod 64"
    have s: "ring_slots 64 c h = c # ring_slots 64 ?c h" and n: "c \<notin> set (ring_slots 64 ?c h)"
      using tx_ix.slots_deq [of c h] tx_ix.tail_slots [of c h] l False by simp_all
    from 1(2) l s have "tx_skb (ring ! c) \<noteq> None"
      by (auto simp: tx_ring_ok_def)
    then obtain b where b: "tx_skb (ring ! c) = Some b" by auto
    have "tx_ring_ok ?r ?c h" using tx_ring_ok_deq [OF 1(2)] False by simp
    with 1(1) [of "ring ! c"] False l obtain ring' c' as where
      r: "tx_clean_loop h ?r ?c = Some (ring', c', as)" "tx_ring_ok ring' c' h"
      "ring_skbs ?r ?c h = freed as @ ring_skbs ring' c' h"
      "ring_maps ?r ?c h = unmapped as @ ring_maps ring' c' h" "mapped as = []"
      "c' \<noteq> h \<longrightarrow> tx_owned (ring' ! c') \<or> \<not> tx_done (ring' ! c')"
      by (auto simp: TX_RING_SIZE_def)
    have step: "tx_clean_loop h ring c = Some (ring', c',
        D_dma_unmap DMA_TO_DEVICE (tx_dma_addr (ring ! c)) (tx_len (ring ! c)) # D_kfree_skb b # as)"
      using False l b r(1) by (subst tx_clean_loop.simps) (simp add: Let_def TX_RING_SIZE_def)
    have k: "ring_skbs ring c h = b # ring_skbs ?r ?c h"
      unfolding ring_skbs_update [OF n] using b by (simp add: ring_skbs_def s del: map_eq_conv)
    have m: "ring_maps ring c h = (DMA_TO_DEVICE, tx_dma_addr (ring ! c), tx_len (ring ! c)) # ring_maps ?r ?c h"
      unfolding ring_maps_update [OF n] by (simp add: ring_maps_def s del: map_eq_conv)
    show ?thesis using r step k m by simp
  qed
qed

lemma my_tx_clean_ok:
  assumes "tx_ok dev"
  shows "\<exists>dev' as. my_tx_clean dev = Some (dev', as) \<and> tx_ok dev' \<and>
     tx_inflight dev = freed as @ tx_inflight dev' \<and> tx_live dev = unmapped as @ tx_live dev' \<and>
     mapped as = [] \<and> tx_head (nd_priv dev') = tx_head (nd_priv dev) \<and>
     (nd_stopped dev' \<longrightarrow> nd_stopped dev \<and> my_tx_ring_full (nd_priv dev'))"
proof -
  from assms obtain ring where ring: "tx_ring (nd_priv dev) = Some ring"
    "tx_ring_ok ring (tx_clean (nd_priv dev)) (tx_head (nd_priv dev))" by (auto simp: tx_ok_def)
  from tx_clean_loop_ok [OF ring(2)] obtain ring' c' as where
    "tx_clean_loop (tx_head (nd_priv dev)) ring (tx_clean (nd_priv dev)) = Some (ring', c', as)"
    "tx_ring_ok ring' c' (tx_head (nd_priv dev))"
    "ring_skbs ring (tx_clean (nd_priv dev)) (tx_head (nd_priv dev)) = freed as @ ring_skbs ring' c' (tx_head (nd_priv dev))"
    "ring_maps ring (tx_clean (nd_priv dev)) (tx_head (nd_priv dev)) = unmapped as @ ring_maps ring' c' (tx_head (nd_priv dev))"
    "mapped as = []" by auto
  with ring show ?thesis
    by (auto simp: my_tx_clean_def tx_ok_def tx_inflight_def tx_live_def Let_def)
qed

text \<open>Writing the slot at the head, when the ring is not full.\<close>

lemma tx_ring_ok_put:
  assumes ok: "tx_ring_ok ring c h" and nf: "(h + 1) mod 64 \<noteq> c" and d: "tx_skb d \<noteq> None"
  shows "tx_ring_ok (ring[h := d]) c ((h + 1) mod 64)"
    and "ring_skbs (ring[h := d]) c ((h + 1) mod 64) = ring_skbs ring c h @ [the (tx_skb d)]"
    and "ring_maps (ring[h := d]) c ((h + 1) mod 64)
       = ring_maps ring c h @ [(DMA_TO_DEVICE, tx_dma_addr d, tx_len d)]"
proof -
  from ok have l: "length ring = 64" "c < 64" "h < 64" by (auto simp: tx_ring_ok_def)
  have s: "ring_slots 64 c ((h + 1) mod 64) = ring_slots 64 c h @ [h]"
    using tx_ix.slots_enq [of c h] l nf by simp
  have n: "h \<notin> set (ring_slots 64 c h)" by (rule head_notin_slots)
  show "tx_ring_ok (ring[h := d]) c ((h + 1) mod 64)"
    using ok l d unfolding tx_ring_ok_def s by (auto simp: nth_list_update)
  show "ring_skbs (ring[h := d]) c ((h + 1) mod 64) = ring_skbs ring c h @ [the (tx_skb d)]"
    using map_ring_update [OF n, of "\<lambda>x. the (tx_skb x)" ring d] l
    by (simp add: ring_skbs_def s [simplified] del: map_eq_conv)
  show "ring_maps (ring[h := d]) c ((h + 1) mod 64)
       = ring_maps ring c h @ [(DMA_TO_DEVICE, tx_dma_addr d, tx_len d)]"
    using map_ring_update [OF n, of "\<lambda>d. (DMA_TO_DEVICE, tx_dma_addr d, tx_len d)" ring d] l
    by (simp add: ring_maps_def s [simplified] del: map_eq_conv)
qed

lemma tx_ring_ok_head:
  assumes ok: "tx_ring_ok ring c h"
  shows "tx_ring_ok (ring[h := (ring ! h)\<lparr>tx_dma_addr := a\<rparr>]) c h"
  using ok head_notin_slots [of h 64 c] unfolding tx_ring_ok_def by (auto simp: nth_list_update)

definition xmit_post :: "sk_buff \<Rightarrow> net_device \<Rightarrow> netdev_tx \<times> net_device \<times> drv_act list \<Rightarrow> bool" where
  "xmit_post b dev ans = (case ans of (r, dev', as) \<Rightarrow>
     tx_ok dev' \<and> tx_live dev' = tx_live dev @ mapped as \<and> unmapped as = [] \<and>
     (if r = NETDEV_TX_BUSY then my_tx_ring_full (nd_priv dev) \<and> tx_inflight dev' = tx_inflight dev \<and> freed as = []
        \<and> nd_priv dev' = nd_priv dev \<and> nd_stopped dev'
      else \<not> my_tx_ring_full (nd_priv dev) \<and> nd_stopped dev' = nd_stopped dev \<and>
        (tx_inflight dev' = tx_inflight dev @ [b] \<and> freed as = [] \<or>
         tx_inflight dev' = tx_inflight dev \<and> freed as = [b])))"

lemma my_start_xmit_ok:
  assumes "tx_ok dev"
  shows "\<exists>ans. my_start_xmit (a, err) b dev = Some ans \<and> xmit_post b dev ans"
proof -
  let ?c = "tx_clean (nd_priv dev)" and ?h = "tx_head (nd_priv dev)"
  from assms obtain ring where ring: "tx_ring (nd_priv dev) = Some ring" "tx_ring_ok ring ?c ?h"
    by (auto simp: tx_ok_def)
  then have l: "?h < length ring" by (simp add: tx_ring_ok_def)
  consider (full) "my_tx_ring_full (nd_priv dev)"
    | (fail) "\<not> my_tx_ring_full (nd_priv dev)" err
    | (put) "\<not> my_tx_ring_full (nd_priv dev)" "\<not> err" by auto
  then show ?thesis
  proof cases
    case full
    with ring show ?thesis
      by (simp add: my_start_xmit_def xmit_post_def tx_ok_def tx_inflight_def tx_live_def Let_def)
  next
    case fail
    have "ring_skbs (ring[?h := d]) ?c ?h = ring_skbs ring ?c ?h"
      "ring_maps (ring[?h := d]) ?c ?h = ring_maps ring ?c ?h" for d
      by (simp_all add: ring_skbs_update ring_maps_update head_notin_slots)
    with fail ring l tx_ring_ok_head [OF ring(2), of a] show ?thesis
      by (simp add: my_start_xmit_def xmit_post_def tx_ok_def tx_inflight_def tx_live_def Let_def)
  next
    case put
    let ?d = "(ring ! ?h)\<lparr>tx_dma_addr := a, tx_skb := Some b, tx_len := skb_len b,
               tx_done := False, tx_owned := True\<rparr>"
    have nf: "(?h + 1) mod 64 \<noteq> ?c" using put by (simp add: my_tx_ring_full_def TX_RING_SIZE_def)
    from put ring l tx_ring_ok_put [OF ring(2) nf, of ?d] show ?thesis
      by (simp add: my_start_xmit_def xmit_post_def tx_ok_def tx_inflight_def tx_live_def Let_def TX_RING_SIZE_def)
  qed
qed

lemma xmit_postD:
  "tx_ok dev \<Longrightarrow> my_start_xmit e b dev = Some ans \<Longrightarrow> xmit_post b dev ans"
  using my_start_xmit_ok [of dev "fst e" "snd e" b] by auto

lemma hw_tx_done_ok:
  assumes "tx_ok dev"
  shows "tx_ok (hw_tx_done i dev)" "tx_inflight (hw_tx_done i dev) = tx_inflight dev"
    "tx_live (hw_tx_done i dev) = tx_live dev" "nd_stopped (hw_tx_done i dev) = nd_stopped dev"
    "my_tx_ring_full (nd_priv (hw_tx_done i dev)) = my_tx_ring_full (nd_priv dev)"
proof -
  let ?c = "tx_clean (nd_priv dev)" and ?h = "tx_head (nd_priv dev)"
  from assms obtain ring where ring: "tx_ring (nd_priv dev) = Some ring" "tx_ring_ok ring ?c ?h"
    by (auto simp: tx_ok_def)
  let ?r = "ring[i := (ring ! i)\<lparr>tx_owned := False, tx_done := True\<rparr>]"
  have same: "tx_skb (?r ! j) = tx_skb (ring ! j) \<and> tx_dma_addr (?r ! j) = tx_dma_addr (ring ! j)
    \<and> tx_len (?r ! j) = tx_len (ring ! j)" for j
    by (cases "i < length ring"; cases "i = j"; simp add: list_update_beyond)
  have "ring_skbs ?r ?c ?h = ring_skbs ring ?c ?h" "ring_maps ?r ?c ?h = ring_maps ring ?c ?h"
    by (simp_all add: ring_skbs_def ring_maps_def same)
  moreover have "tx_ring_ok ?r ?c ?h" if own: "i < length ring" "tx_owned (ring ! i)"
  proof -
    have "i \<in> set (ring_slots 64 ?c ?h)" using ring(2) own unfolding tx_ring_ok_def by metis
    with ring(2) own show ?thesis by (auto simp: tx_ring_ok_def nth_list_update)
  qed
  ultimately show "tx_ok (hw_tx_done i dev)" "tx_inflight (hw_tx_done i dev) = tx_inflight dev"
    "tx_live (hw_tx_done i dev) = tx_live dev" "nd_stopped (hw_tx_done i dev) = nd_stopped dev"
    "my_tx_ring_full (nd_priv (hw_tx_done i dev)) = my_tx_ring_full (nd_priv dev)"
    using ring assms
    by (auto simp: hw_tx_done_def tx_ok_def tx_inflight_def tx_live_def my_tx_ring_full_def Let_def)
qed

section \<open>The transmit contract holds\<close>

interpretation simple: tx_dma_driver tx_ok tx_inflight my_start_xmit my_tx_clean hw_tx_done tx_live
proof unfold_locales
  fix s e b r s' as i
  assume ok: "tx_ok s"
  from my_start_xmit_ok [OF ok, of "fst e" "snd e" b]
  show "\<exists>r s' as. my_start_xmit e b s = Some (r, s', as)" by auto
  from my_tx_clean_ok [OF ok] show "\<exists>s' as. my_tx_clean s = Some (s', as)" by auto
  show "tx_ok (hw_tx_done i s)" "tx_inflight (hw_tx_done i s) = tx_inflight s"
    "tx_live (hw_tx_done i s) = tx_live s"
    using hw_tx_done_ok [OF ok] by auto
  { assume "my_start_xmit e b s = Some (r, s', as)"
    from xmit_postD [OF ok this] show "tx_ok s'" "tx_live s' = tx_live s @ mapped as \<and> unmapped as = []"
      by (auto simp: xmit_post_def) }
  { assume "my_start_xmit e b s = Some (NETDEV_TX_BUSY, s', as)"
    from xmit_postD [OF ok this] show "tx_inflight s' = tx_inflight s \<and> freed as = []"
      by (auto simp: xmit_post_def) }
  { assume "my_start_xmit e b s = Some (NETDEV_TX_OK, s', as)"
    from xmit_postD [OF ok this] show "tx_inflight s' = tx_inflight s @ [b] \<and> freed as = [] \<or>
        tx_inflight s' = tx_inflight s \<and> freed as = [b]"
      by (auto simp: xmit_post_def) }
  { assume "my_tx_clean s = Some (s', as)"
    with my_tx_clean_ok [OF ok] show "tx_ok s'" "tx_inflight s = freed as @ tx_inflight s'"
        "tx_live s = unmapped as @ tx_live s' \<and> mapped as = []" by auto }
qed

end
