(* ===== verification/Simple_Rx.thy ===== *)
theory Simple_Rx
  imports Simple_Tx
begin

text \<open>
  The receive side of \<open>net_device/simple_netdev.c\<close>: the NAPI poll loop \<open>my_poll\<close> and the
  interrupt handler \<open>my_irq_handler\<close>.  The ring seen from \<open>rx_head\<close> is the list
  \<open>rotate rx_head ring\<close>; \<open>poll_loop_spec\<close> shows that the loop consumes the ready prefix of
  that list and appends the refilled descriptors.
\<close>

section \<open>The code\<close>

text \<open>
  One loop iteration's calls: the copy reads \<open>desc->len\<close> bytes of the buffer, so it is
  undefined (\<open>None\<close>) when the buffer is missing or shorter; \<open>netdev_alloc_skb\<close> may fail, and
  then the frame is dropped.  \<open>alloc w\<close> is its answer in iteration \<open>w\<close>.
\<close>

definition rx_deliver :: "bool \<Rightarrow> my_rx_desc \<Rightarrow> drv_act list option" where
  "rx_deliver ok d =
     (if \<not> ok then Some []
      else case rx_buf d of None \<Rightarrow> None
      | Some (ptr, bytes) \<Rightarrow>
          if length bytes < unat (rx_len d) then None
          else Some [D_receive (take (unat (rx_len d)) bytes)])"

definition rx_refill :: "my_rx_desc \<Rightarrow> my_rx_desc" where
  "rx_refill d = d\<lparr>rx_len := 0, rx_done := False, rx_owned := True\<rparr>"

fun poll_loop :: "(nat \<Rightarrow> bool) \<Rightarrow> nat \<Rightarrow> nat \<Rightarrow> my_rx_desc list \<Rightarrow> nat \<Rightarrow>
    (my_rx_desc list \<times> nat \<times> nat \<times> drv_act list) option" where
  "poll_loop alloc 0 w ring h = Some (ring, h, w, [])"
| "poll_loop alloc (Suc left) w ring h =
     (if length ring \<le> h then None
      else let d = ring ! h in
        if rx_owned d then Some (ring, h, w, [])
        else if \<not> rx_done d then Some (ring, h, w, [])
        else case rx_deliver (alloc w) d of None \<Rightarrow> None
        | Some dlv \<Rightarrow>
          let h' = (h + 1) mod RX_RING_SIZE
          in map_option (\<lambda>(ring', h'', w', as).
               (ring', h'', w',
                [D_sync_for_cpu (rx_dma_addr d) (rx_len d)] @ dlv @
                [D_sync_for_device (rx_dma_addr d) (of_nat RX_BUFFER_SIZE),
                 D_writel REG_RX_TAIL (of_nat h')] @ as))
             (poll_loop alloc left (Suc w) (ring[h := rx_refill d]) h'))"

text \<open>\<open>complete\<close> is the answer of \<open>napi_complete_done\<close>.\<close>

definition my_poll :: "(nat \<Rightarrow> bool) \<Rightarrow> bool \<Rightarrow> int \<Rightarrow> net_device \<Rightarrow>
    (int \<times> net_device \<times> drv_act list) option" where
  "my_poll alloc complete budget dev = (let p = nd_priv dev in
     case (case rx_ring p of None \<Rightarrow> (if budget \<le> 0 then Some ([], rx_head p, 0, []) else None)
           | Some ring \<Rightarrow> poll_loop alloc (nat budget) 0 ring (rx_head p)) of
       None \<Rightarrow> None
     | Some (ring', h, w, as) \<Rightarrow>
         Some (int w, dev\<lparr>nd_priv := p\<lparr>rx_ring := map_option (\<lambda>_. ring') (rx_ring p), rx_head := h\<rparr>\<rparr>,
               as @ (if int w < budget
                     then D_napi_complete (int w)
                          # (if complete then [D_writel REG_IRQ_MASK (IRQ_RX OR IRQ_TX)] else [])
                     else [])))"

text \<open>\<open>status\<close> is what the status register reads.\<close>

definition my_irq_handler :: "u32 \<Rightarrow> net_device \<Rightarrow> (irqreturn \<times> net_device \<times> drv_act list) option" where
  "my_irq_handler status dev =
     (if status = 0 then Some (IRQ_NONE, dev, [D_readl REG_IRQ_STATUS])
      else let rx = (if status AND IRQ_RX \<noteq> 0
                     then [D_writel REG_IRQ_MASK IRQ_TX, D_napi_schedule] else [])
        in case (if status AND IRQ_TX \<noteq> 0 then my_tx_clean dev else Some (dev, [])) of
             None \<Rightarrow> None
           | Some (dev', tx) \<Rightarrow>
               Some (IRQ_HANDLED, dev',
                     [D_readl REG_IRQ_STATUS] @ rx @ tx @ [D_writel REG_IRQ_STATUS status]))"

text \<open>The device writing a frame into a buffer it owns and completing the descriptor.\<close>

definition hw_rx_done :: "nat \<Rightarrow> u8 list \<Rightarrow> net_device \<Rightarrow> net_device" where
  "hw_rx_done i frame dev = (let p = nd_priv dev in
     case rx_ring p of None \<Rightarrow> dev
     | Some ring \<Rightarrow>
       if i < length ring \<and> rx_owned (ring ! i)
       then dev\<lparr>nd_priv := p\<lparr>rx_ring := Some (ring[i := (ring ! i)
              \<lparr>rx_buf := map_option (\<lambda>(q, m). (q, frame @ drop (length frame) m)) (rx_buf (ring ! i)),
               rx_len := of_nat (length frame), rx_owned := False, rx_done := True\<rparr>])\<rparr>\<rparr>
       else dev)"

section \<open>What the poll loop computes\<close>

definition rx_ready :: "my_rx_desc \<Rightarrow> bool" where
  "rx_ready d \<longleftrightarrow> \<not> rx_owned d \<and> rx_done d"

text \<open>The frame in a descriptor.\<close>

definition rx_frame :: "my_rx_desc \<Rightarrow> u8 list" where
  "rx_frame d = (case rx_buf d of None \<Rightarrow> [] | Some (_, m) \<Rightarrow> take (unat (rx_len d)) m)"

text \<open>The device respects the buffer size in this descriptor.\<close>

definition rx_desc_ok :: "my_rx_desc \<Rightarrow> bool" where
  "rx_desc_ok d \<longleftrightarrow> (\<exists>q m. rx_buf d = Some (q, m) \<and> length m = 2048) \<and> unat (rx_len d) \<le> 2048"

definition rx_ring_ok :: "my_rx_desc list \<Rightarrow> nat \<Rightarrow> bool" where
  "rx_ring_ok ring h \<longleftrightarrow> length ring = 64 \<and> h < 64 \<and> (\<forall>d \<in> set ring. rx_desc_ok d)"

definition rx_ok :: "net_device \<Rightarrow> bool" where
  "rx_ok dev \<longleftrightarrow> (\<exists>ring. rx_ring (nd_priv dev) = Some ring \<and> rx_ring_ok ring (rx_head (nd_priv dev)))"

text \<open>The frames of a list of descriptors whose allocation succeeded, from iteration \<open>w\<close> on.\<close>

fun rx_kept :: "(nat \<Rightarrow> bool) \<Rightarrow> nat \<Rightarrow> my_rx_desc list \<Rightarrow> u8 list list" where
  "rx_kept alloc w [] = []"
| "rx_kept alloc w (d # ds) = (if alloc w then [rx_frame d] else []) @ rx_kept alloc (Suc w) ds"

lemma rotate_step:
  assumes "h < length xs"
  shows "\<exists>ys. rotate h xs = xs ! h # ys \<and> rotate (Suc h mod length xs) (xs[h := d]) = ys @ [d]"
proof -
  have r: "rotate h xs = xs ! h # drop (Suc h) xs @ take h xs"
    using assms by (simp add: rotate_drop_take Cons_nth_drop_Suc [symmetric])
  have "rotate (Suc h mod length xs) (xs[h := d]) = drop (Suc h) xs @ take h xs @ [d]"
  proof (cases "Suc h = length xs")
    case True
    then have "xs[h := d] = take h xs @ [d]"
      using assms by (simp add: upd_conv_take_nth_drop)
    with True show ?thesis by simp
  next
    case False
    with assms have "Suc h < length xs" by simp
    with assms show ?thesis
      by (simp add: rotate_drop_take upd_conv_take_nth_drop take_Suc_conv_app_nth min_def)
  qed
  with r show ?thesis by auto
qed

lemma rx_deliver_ok:
  "rx_desc_ok d \<Longrightarrow> rx_deliver ok d = Some (if ok then [D_receive (rx_frame d)] else [])"
  by (auto simp: rx_desc_ok_def rx_deliver_def rx_frame_def)

lemma rx_refill_ok: "rx_desc_ok d \<Longrightarrow> rx_desc_ok (rx_refill d)" "\<not> rx_ready (rx_refill d)"
  by (auto simp: rx_desc_ok_def rx_refill_def rx_ready_def)

lemma poll_loop_spec:
  "rx_ring_ok ring h \<Longrightarrow> ready = takeWhile rx_ready (rotate h ring) \<Longrightarrow> k = min left (length ready) \<Longrightarrow>
   \<exists>ring' h' as. poll_loop alloc left w ring h = Some (ring', h', w + k, as) \<and>
     rx_ring_ok ring' h' \<and> h' = (h + k) mod 64 \<and>
     rotate h' ring' = drop k (rotate h ring) @ map rx_refill (take k ready) \<and>
     delivered as = rx_kept alloc w (take k ready) \<and> writes REG_IRQ_MASK as = []"
proof (induction left arbitrary: w ring h ready k)
  case 0
  then show ?case by (auto simp: rx_ring_ok_def)
next
  case (Suc left)
  from Suc.prems(1) have l: "length ring = 64" "h < 64" by (auto simp: rx_ring_ok_def)
  let ?d = "ring ! h"
  obtain ys where ys: "rotate h ring = ?d # ys"
      "rotate (Suc h mod 64) (ring[h := rx_refill ?d]) = ys @ [rx_refill ?d]"
    using rotate_step [of h ring "rx_refill ?d"] l by auto
  show ?case
  proof (cases "rx_ready ?d")
    case False
    then have "ready = []" "k = 0" using Suc.prems ys by auto
    moreover have "poll_loop alloc (Suc left) w ring h = Some (ring, h, w, [])"
      using False l by (auto simp: rx_ready_def Let_def)
    ultimately show ?thesis using Suc.prems l by simp
  next
    case True
    let ?r = "ring[h := rx_refill ?d]" and ?h = "Suc h mod 64"
    let ?ready = "takeWhile rx_ready (rotate ?h ?r)"
    have ok: "rx_desc_ok ?d" using Suc.prems(1) l by (simp add: rx_ring_ok_def)
    have rok: "rx_ring_ok ?r ?h" using Suc.prems(1) rx_refill_ok(1) [OF ok]
      by (auto simp: rx_ring_ok_def dest!: set_update_subset_insert [THEN subsetD])
    have ready: "ready = ?d # ?ready" and rest: "?ready = takeWhile rx_ready ys"
      using Suc.prems(2) True ys rx_refill_ok(2) by (simp_all add: takeWhile_tail)
    have k: "k = Suc (min left (length ?ready))" using Suc.prems(3) ready by simp
    from Suc.IH [OF rok refl refl, of "Suc w"] obtain ring' h' as where
      IH: "poll_loop alloc left (Suc w) ?r ?h = Some (ring', h', Suc w + min left (length ?ready), as)"
      "rx_ring_ok ring' h'" "h' = (?h + min left (length ?ready)) mod 64"
      "rotate h' ring' = drop (min left (length ?ready)) (rotate ?h ?r) @ map rx_refill (take (min left (length ?ready)) ?ready)"
      "delivered as = rx_kept alloc (Suc w) (take (min left (length ?ready)) ?ready)"
      "writes REG_IRQ_MASK as = []" by blast
    define m where "m = min left (length ?ready)"
    have m: "m \<le> length ys" unfolding m_def rest using length_takeWhile_le [of rx_ready ys] by linarith
    have dl: "rx_deliver (alloc w) ?d = Some (if alloc w then [D_receive (rx_frame ?d)] else [])"
      using ok by (rule rx_deliver_ok)
    define L where "L = [D_sync_for_cpu (rx_dma_addr ?d) (rx_len ?d)] @ (if alloc w then [D_receive (rx_frame ?d)] else []) @
        [D_sync_for_device (rx_dma_addr ?d) (of_nat RX_BUFFER_SIZE), D_writel REG_RX_TAIL (of_nat ?h)] @ as"
    have run: "poll_loop alloc (Suc left) w ring h = Some (ring', h', w + k, L)"
      using True l dl IH(1) k by (simp add: rx_ready_def Let_def RX_RING_SIZE_def L_def)
    have h': "h' = (h + k) mod 64" using IH(3) k by (simp add: mod_add_left_eq)
    have rot: "rotate h' ring' = drop k (rotate h ring) @ map rx_refill (take k ready)"
      using IH(4) m ys k ready unfolding m_def [symmetric] by simp
    have dlv: "rx_kept alloc w (take k ready) = (if alloc w then [rx_frame ?d] else []) @ delivered as"
      using IH(5) ready k by simp
    have "delivered L = rx_kept alloc w (take k ready)" unfolding L_def dlv by simp
    moreover have "writes REG_IRQ_MASK L = []"
      using IH(6) by (simp add: REG_IRQ_MASK_def REG_RX_TAIL_def L_def)
    ultimately show ?thesis using run IH(2) h' rot by blast
  qed
qed

end
