(* ===== verification/Simple_Probe.thy ===== *)
theory Simple_Probe
  imports Simple_Rx
begin

text \<open>
  The life of the device of \<open>net_device/simple_netdev.c\<close>: ring and buffer allocation,
  \<open>my_hw_init\<close>, \<open>my_open\<close>, \<open>my_stop\<close>, \<open>my_change_mtu\<close>, and \<open>my_pci_probe\<close> and
  \<open>my_pci_remove\<close> with every error label.  The kernel's answers are the record
  \<open>probe_env\<close>; what the driver holds is accounted for by the resource ledger.
\<close>

section \<open>The code\<close>

record probe_env =
  pe_enable :: int                          \<comment> \<open>\<open>pci_enable_device\<close>\<close>
  pe_regions :: int
  pe_mask64 :: int
  pe_mask32 :: int
  pe_netdev :: bool                         \<comment> \<open>\<open>alloc_etherdev\<close> succeeds\<close>
  pe_irqno :: nat
  pe_iomap :: bool
  pe_rx_coherent :: "u64 option"
  pe_tx_coherent :: "u64 option"
  pe_buf :: "nat \<Rightarrow> (u64 \<times> u8 list) option" \<comment> \<open>\<open>kmalloc\<close> of the buffer of slot \<open>i\<close>\<close>
  pe_map :: "nat \<Rightarrow> u64 \<times> bool"             \<comment> \<open>its mapping and \<open>dma_mapping_error\<close>\<close>
  pe_request_irq :: int
  pe_register :: int

definition ENOMEM :: int where "ENOMEM = 12"
definition EINVAL :: int where "EINVAL = 22"

definition zero_rx_desc :: my_rx_desc where
  "zero_rx_desc = \<lparr>rx_buf = None, rx_dma_addr = 0, rx_len = 0, rx_owned = False, rx_done = False\<rparr>"

definition my_alloc_rx_desc_ring :: "probe_env \<Rightarrow> my_priv \<Rightarrow> int \<times> my_priv \<times> drv_act list" where
  "my_alloc_rx_desc_ring env p = (case pe_rx_coherent env of
       None \<Rightarrow> (- ENOMEM, p\<lparr>rx_ring := None\<rparr>, [])
     | Some a \<Rightarrow> (0, p\<lparr>rx_ring := Some (replicate RX_RING_SIZE zero_rx_desc), rx_ring_dma := a, rx_head := 0\<rparr>,
                  [D_coherent_alloc a]))"

definition my_alloc_tx_desc_ring :: "probe_env \<Rightarrow> my_priv \<Rightarrow> int \<times> my_priv \<times> drv_act list" where
  "my_alloc_tx_desc_ring env p = (case pe_tx_coherent env of
       None \<Rightarrow> (- ENOMEM, p\<lparr>tx_ring := None\<rparr>, [])
     | Some a \<Rightarrow> (0, p\<lparr>tx_ring := Some (replicate TX_RING_SIZE idle_tx_desc), tx_ring_dma := a,
                       tx_head := 0, tx_clean := 0\<rparr>,
                  [D_coherent_alloc a]))"

text \<open>The error loop \<open>while(--i >= 0)\<close>.  An address is the pointer of the buffer, 0 for \<open>NULL\<close>.\<close>

definition buf_addr :: "my_rx_desc \<Rightarrow> u64" where
  "buf_addr d = (case rx_buf d of None \<Rightarrow> 0 | Some (q, _) \<Rightarrow> q)"

fun rx_buffers_unwind :: "nat \<Rightarrow> my_rx_desc list \<Rightarrow> my_rx_desc list \<times> drv_act list" where
  "rx_buffers_unwind 0 ring = (ring, [])"
| "rx_buffers_unwind (Suc i) ring =
     (let d = ring ! i; (ring', as) = rx_buffers_unwind i (ring[i := d\<lparr>rx_buf := None\<rparr>])
      in (ring', D_dma_unmap DMA_FROM_DEVICE (rx_dma_addr d) (of_nat RX_BUFFER_SIZE) # D_kfree (buf_addr d) # as))"

text \<open>\<open>alloc_rx_loop left i\<close> is the loop of \<open>my_alloc_rx_buffers\<close> from slot \<open>i\<close>.\<close>

fun alloc_rx_loop :: "probe_env \<Rightarrow> nat \<Rightarrow> nat \<Rightarrow> my_rx_desc list \<Rightarrow> int \<times> my_rx_desc list \<times> drv_act list" where
  "alloc_rx_loop env 0 i ring = (0, ring, [])"
| "alloc_rx_loop env (Suc left) i ring =
     (case pe_buf env i of
        None \<Rightarrow> (let (ring', as) = rx_buffers_unwind i (ring[i := (ring ! i)\<lparr>rx_buf := None\<rparr>])
                 in (- ENOMEM, ring', as))
      | Some (q, m) \<Rightarrow> (case pe_map env i of (a, err) \<Rightarrow>
          if err then
            (let (ring', as) = rx_buffers_unwind i (ring[i := (ring ! i)\<lparr>rx_buf := None, rx_dma_addr := a\<rparr>])
             in (- ENOMEM, ring', D_kmalloc q # D_kfree q # as))
          else
            (let (r, ring', as) = alloc_rx_loop env left (Suc i)
                   (ring[i := (ring ! i)\<lparr>rx_buf := Some (q, m), rx_dma_addr := a, rx_len := 0,
                                         rx_done := False, rx_owned := True\<rparr>])
             in (r, ring', D_kmalloc q # D_dma_map DMA_FROM_DEVICE a (of_nat RX_BUFFER_SIZE) # as))))"

text \<open>
  The ring is there: the probe calls \<open>my_alloc_rx_buffers\<close> only after \<open>my_alloc_rx_desc_ring\<close>
  succeeded (\<open>rx_ring_before_buffers\<close>), so the case without a ring, where the code would use a
  null pointer, does not arise.
\<close>

definition my_alloc_rx_buffers :: "probe_env \<Rightarrow> my_priv \<Rightarrow> int \<times> my_priv \<times> drv_act list" where
  "my_alloc_rx_buffers env p = (case rx_ring p of None \<Rightarrow> (0, p, [])
     | Some ring \<Rightarrow> (case alloc_rx_loop env RX_RING_SIZE 0 ring of (r, ring', as) \<Rightarrow>
         (r, p\<lparr>rx_ring := Some ring'\<rparr>, as)))"

lemma rx_ring_before_buffers:
  "my_alloc_rx_desc_ring env p = (0, p1, as1) \<Longrightarrow> my_alloc_tx_desc_ring env p1 = (0, p2, as2) \<Longrightarrow> rx_ring p2 \<noteq> None"
  by (auto simp: my_alloc_rx_desc_ring_def my_alloc_tx_desc_ring_def ENOMEM_def split: option.splits)

text \<open>The loops of \<open>my_free_rx_buffers\<close> and \<open>my_free_pending_tx\<close> visit every slot in order.\<close>

fun free_rx_list :: "my_rx_desc list \<Rightarrow> my_rx_desc list \<times> drv_act list" where
  "free_rx_list [] = ([], [])"
| "free_rx_list (d # ds) =
     (let (ds', as) = free_rx_list ds in
      case rx_buf d of None \<Rightarrow> (d # ds', as)
      | Some (q, _) \<Rightarrow> (d\<lparr>rx_buf := None\<rparr> # ds',
          D_dma_unmap DMA_FROM_DEVICE (rx_dma_addr d) (of_nat RX_BUFFER_SIZE) # D_kfree q # as))"

definition my_free_rx_buffers :: "my_priv \<Rightarrow> my_priv \<times> drv_act list" where
  "my_free_rx_buffers p = (case rx_ring p of None \<Rightarrow> (p, [])
     | Some ring \<Rightarrow> (case free_rx_list ring of (ring', as) \<Rightarrow> (p\<lparr>rx_ring := Some ring'\<rparr>, as)))"

fun free_tx_list :: "my_tx_desc list \<Rightarrow> my_tx_desc list \<times> drv_act list" where
  "free_tx_list [] = ([], [])"
| "free_tx_list (d # ds) =
     (let (ds', as) = free_tx_list ds in
      case tx_skb d of None \<Rightarrow> (d # ds', as)
      | Some b \<Rightarrow> (d\<lparr>tx_skb := None\<rparr> # ds',
          D_dma_unmap DMA_TO_DEVICE (tx_dma_addr d) (tx_len d) # D_kfree_skb b # as))"

definition my_free_pending_tx :: "my_priv \<Rightarrow> my_priv \<times> drv_act list" where
  "my_free_pending_tx p = (case tx_ring p of None \<Rightarrow> (p, [])
     | Some ring \<Rightarrow> (case free_tx_list ring of (ring', as) \<Rightarrow> (p\<lparr>tx_ring := Some ring'\<rparr>, as)))"

definition free_rx_ring :: "my_priv \<Rightarrow> my_priv \<times> drv_act list" where
  "free_rx_ring p = (if rx_ring p \<noteq> None then (p\<lparr>rx_ring := None\<rparr>, [D_coherent_free (rx_ring_dma p)]) else (p, []))"

definition free_tx_ring :: "my_priv \<Rightarrow> my_priv \<times> drv_act list" where
  "free_tx_ring p = (if tx_ring p \<noteq> None then (p\<lparr>tx_ring := None\<rparr>, [D_coherent_free (tx_ring_dma p)]) else (p, []))"

definition my_free_desc_rings :: "my_priv \<Rightarrow> my_priv \<times> drv_act list" where
  "my_free_desc_rings p = (case free_rx_ring p of (p1, as1) \<Rightarrow>
     case free_tx_ring p1 of (p2, as2) \<Rightarrow> (p2, as1 @ as2))"

definition lower_32_bits :: "u64 \<Rightarrow> u32" where "lower_32_bits x = ucast x"
definition upper_32_bits :: "u64 \<Rightarrow> u32" where "upper_32_bits x = ucast (drop_bit 32 x)"

definition my_hw_init :: "my_priv \<Rightarrow> drv_act list" where
  "my_hw_init p =
     [D_writel REG_RX_RING_BASE_LOW (lower_32_bits (rx_ring_dma p)),
      D_writel REG_RX_RING_BASE_HIGH (upper_32_bits (rx_ring_dma p)),
      D_writel REG_TX_RING_BASE_LOW (lower_32_bits (tx_ring_dma p)),
      D_writel REG_TX_RING_BASE_HIGH (upper_32_bits (tx_ring_dma p)),
      D_writel REG_RX_TAIL (of_nat (rx_head p)),
      D_writel REG_TX_TAIL (of_nat (tx_head p)),
      D_writel REG_IRQ_MASK 0]"

definition my_open :: "net_device \<Rightarrow> int \<times> net_device \<times> drv_act list" where
  "my_open dev = (0, dev\<lparr>nd_stopped := False\<rparr>,
     [D_napi_enable, D_writel REG_IRQ_MASK (IRQ_RX OR IRQ_TX), D_start_queue])"

text \<open>\<open>napi_disable\<close> waits for a running poll, so \<open>my_stop\<close> has two parts around it.\<close>

definition stop_begin :: "net_device \<Rightarrow> net_device \<times> drv_act list" where
  "stop_begin dev = (dev\<lparr>nd_stopped := True\<rparr>, [D_stop_queue, D_writel REG_IRQ_MASK 0])"

definition my_stop :: "net_device \<Rightarrow> int \<times> net_device \<times> drv_act list" where
  "my_stop dev = (case stop_begin dev of (dev', as) \<Rightarrow> (0, dev', as @ [D_napi_disable]))"

definition my_change_mtu :: "net_device \<Rightarrow> int \<Rightarrow> int \<times> net_device" where
  "my_change_mtu dev new_mtu =
     (if new_mtu < 68 \<or> new_mtu > 9000 then (- EINVAL, dev) else (0, dev\<lparr>nd_mtu := new_mtu\<rparr>))"

text \<open>The error labels of \<open>my_pci_probe\<close>, each falling through into the next.\<close>

definition err_disable_device :: "drv_act list" where
  "err_disable_device = [D_pci_disable]"

definition err_release_regions :: "drv_act list" where
  "err_release_regions = D_release_regions # err_disable_device"

definition err_free_netdev :: "drv_act list" where
  "err_free_netdev = D_free_netdev # err_release_regions"

definition err_napi :: "drv_act list" where
  "err_napi = D_napi_del # D_iounmap # err_free_netdev"

definition err_rx_desc :: "my_priv \<Rightarrow> drv_act list" where
  "err_rx_desc p = snd (free_rx_ring p) @ err_napi"

definition err_tx_desc :: "my_priv \<Rightarrow> drv_act list" where
  "err_tx_desc p = (case free_tx_ring p of (p', as) \<Rightarrow> as @ err_rx_desc p')"

definition err_rx_buffers :: "my_priv \<Rightarrow> drv_act list" where
  "err_rx_buffers p = (case my_free_rx_buffers p of (p', as) \<Rightarrow> as @ err_tx_desc p')"

definition err_irq :: "my_priv \<Rightarrow> drv_act list" where
  "err_irq p = D_writel REG_IRQ_MASK 0 # D_free_irq (p_irq p) # err_rx_buffers p"

text \<open>
  \<open>alloc_etherdev\<close> returns zeroed private data; the Ethernet default MTU is 1500 and the queue
  is not stopped.  The result holds the driver data of the PCI device, \<open>None\<close> for \<open>NULL\<close>.
\<close>

definition fresh_netdev :: net_device where
  "fresh_netdev = \<lparr>nd_priv = \<lparr>p_mmio = False, p_irq = 0, rx_ring = None, rx_ring_dma = 0, rx_head = 0,
     tx_ring = None, tx_ring_dma = 0, tx_head = 0, tx_clean = 0\<rparr>, nd_stopped = False, nd_mtu = 1500\<rparr>"

text \<open>The steps after NAPI is registered: rings, buffers, interrupt, registers, registration.\<close>

definition probe_rings :: "probe_env \<Rightarrow> net_device \<Rightarrow> my_priv \<Rightarrow> drv_act list \<Rightarrow>
    int \<times> net_device option \<times> drv_act list" where
  "probe_rings env dev p1 l3 =
    (case my_alloc_rx_desc_ring env p1 of (r4, p4, as4) \<Rightarrow>
     if r4 \<noteq> 0 then (r4, None, l3 @ as4 @ err_napi)
     else case my_alloc_tx_desc_ring env p4 of (r5, p5, as5) \<Rightarrow>
     if r5 \<noteq> 0 then (r5, None, l3 @ as4 @ as5 @ err_rx_desc p5)
     else case my_alloc_rx_buffers env p5 of (r6, p6, as6) \<Rightarrow>
     let l6 = l3 @ as4 @ as5 @ as6 in
     if r6 \<noteq> 0 then (r6, None, l6 @ err_tx_desc p6)
     else if pe_request_irq env \<noteq> 0 then (pe_request_irq env, None, l6 @ err_rx_buffers p6)
     else let l7 = l6 @ [D_request_irq (p_irq p6)] @ my_hw_init p6 in
     if pe_register env \<noteq> 0 then (pe_register env, None, l7 @ err_irq p6)
     else (0, Some (dev\<lparr>nd_priv := p6\<rparr>), l7 @ [D_register_netdev]))"

definition my_pci_probe :: "probe_env \<Rightarrow> int \<times> net_device option \<times> drv_act list" where
  "my_pci_probe env =
    (if pe_enable env \<noteq> 0 then (pe_enable env, None, [])
     else let l0 = [D_pci_enable, D_set_master] in
     if pe_regions env \<noteq> 0 then (pe_regions env, None, l0 @ err_disable_device)
     else let l1 = l0 @ [D_request_regions] in
     if pe_mask64 env \<noteq> 0 \<and> pe_mask32 env \<noteq> 0 then (pe_mask32 env, None, l1 @ err_release_regions)
     else if \<not> pe_netdev env then (- ENOMEM, None, l1 @ err_release_regions)
     else let dev = fresh_netdev; p0 = (nd_priv dev)\<lparr>p_irq := pe_irqno env\<rparr>; l2 = l1 @ [D_alloc_netdev] in
     if \<not> pe_iomap env then (- ENOMEM, None, l2 @ err_free_netdev)
     else probe_rings env dev (p0\<lparr>p_mmio := True\<rparr>) (l2 @ [D_iomap, D_napi_add]))"

text \<open>\<open>unregister_netdev\<close> calls \<open>ndo_stop\<close> when the interface is up.\<close>

definition my_pci_remove :: "bool \<Rightarrow> net_device option \<Rightarrow> drv_act list" where
  "my_pci_remove up drvdata = (case drvdata of None \<Rightarrow> []
     | Some dev \<Rightarrow>
       (case (if up then my_stop dev else (0, dev, [])) of (_, dev', stop) \<Rightarrow>
        let p = nd_priv dev' in
        case my_free_pending_tx p of (p1, tx) \<Rightarrow>
        case my_free_rx_buffers p1 of (p2, rx) \<Rightarrow>
        case my_free_desc_rings p2 of (p3, rings) \<Rightarrow>
          stop @ [D_unregister_netdev, D_writel REG_IRQ_MASK 0, D_free_irq (p_irq p), D_napi_del] @
          tx @ rx @ rings @ (if p_mmio p then [D_iounmap] else []) @
          [D_free_netdev, D_release_regions, D_pci_disable]))"

end
