(* ===== verification/Simple_Props.thy ===== *)
theory Simple_Props
  imports Simple_Rx
begin

text \<open>
  The properties of the transmit and receive paths of \<open>simple_netdev.c\<close>, and the races
  between its handlers.
\<close>

section \<open>Witness states\<close>

definition skb_demo :: "nat \<Rightarrow> sk_buff" where
  "skb_demo i = \<lparr>sk_id = i, sk_data = [1, 2, of_nat i]\<rparr>"

definition rx_desc_demo :: my_rx_desc where
  "rx_desc_demo = \<lparr>rx_buf = Some (7, replicate 2048 0), rx_dma_addr = 9, rx_len = 0,
     rx_owned = True, rx_done = False\<rparr>"

definition nic_demo :: net_device where
  "nic_demo = \<lparr>nd_priv = \<lparr>p_mmio = True, p_irq = 11, rx_ring = Some (replicate 64 rx_desc_demo),
      rx_ring_dma = 0x1000, rx_head = 0, tx_ring = Some (replicate 64 idle_tx_desc),
      tx_ring_dma = 0x2000, tx_head = 0, tx_clean = 0\<rparr>, nd_stopped = False, nd_mtu = 1500\<rparr>"

lemma nic_demo_ok: "tx_ok nic_demo"
  by (simp add: tx_ok_def nic_demo_def tx_ring_ok_def idle_tx_desc_def)

lemma nic_demo_rx_ok: "rx_ok nic_demo"
  by (auto simp: rx_ok_def nic_demo_def rx_ring_ok_def rx_desc_ok_def rx_desc_demo_def)

section \<open>Transmit\<close>

text \<open>
  Claim C6: whatever the order of transmissions, completion handling and device completions,
  the transmit side never reaches undefined behaviour; every packet accepted with
  \<open>NETDEV_TX_OK\<close> is freed exactly once or still in the ring, and every DMA mapping is undone
  exactly once, in ring order, with the address and length it was made with.
\<close>
theorem simple_tx_accounts:
  assumes "tx_ok dev"
  shows "\<exists>t taken as. tx_run my_start_xmit my_tx_clean hw_tx_done dev ops = Some (t, taken, as) \<and> tx_ok t \<and>
     mset (tx_inflight dev) + mset taken = mset (freed as) + mset (tx_inflight t) \<and>
     tx_live dev @ mapped as = unmapped as @ tx_live t"
  using simple.run_accounts [OF assms, of ops] simple.run_maps [OF assms, of ops] by blast

theorem simple_tx_accounts_witness:
  "\<exists>t taken as. tx_run my_start_xmit my_tx_clean hw_tx_done nic_demo
      [Xmit (5, False) (skb_demo 1), Xmit (0, True) (skb_demo 2), Hw_done 0, Reap] = Some (t, taken, as) \<and> tx_ok t \<and>
     mset (tx_inflight nic_demo) + mset taken = mset (freed as) + mset (tx_inflight t) \<and>
     tx_live nic_demo @ mapped as = unmapped as @ tx_live t"
  using simple_tx_accounts [OF nic_demo_ok] .

lemma tx_run_stopped:
  "tx_ok dev \<Longrightarrow> nd_stopped dev \<longrightarrow> my_tx_ring_full (nd_priv dev) \<Longrightarrow>
   tx_run my_start_xmit my_tx_clean hw_tx_done dev ops = Some (t, taken, as) \<Longrightarrow>
   nd_stopped t \<longrightarrow> my_tx_ring_full (nd_priv t)"
proof (induction ops arbitrary: dev taken as)
  case Nil
  then show ?case by simp
next
  case (Cons op ops)
  show ?case
  proof (cases op)
    case (Xmit e b)
    with Cons.prems(3) obtain r s' as1 taken' as2 where x: "my_start_xmit e b dev = Some (r, s', as1)"
      and run: "tx_run my_start_xmit my_tx_clean hw_tx_done s' ops = Some (t, taken', as2)"
      by (auto split: option.splits)
    from xmit_postD [OF Cons.prems(1) x] Cons.prems(2) have "tx_ok s'" "nd_stopped s' \<longrightarrow> my_tx_ring_full (nd_priv s')"
      by (auto simp: xmit_post_def split: if_splits)
    from Cons.IH [OF this run] show ?thesis .
  next
    case Reap
    with Cons.prems(3) obtain s' as1 taken' as2 where x: "my_tx_clean dev = Some (s', as1)"
      and run: "tx_run my_start_xmit my_tx_clean hw_tx_done s' ops = Some (t, taken', as2)"
      by (auto split: option.splits)
    from my_tx_clean_ok [OF Cons.prems(1)] x have "tx_ok s'" "nd_stopped s' \<longrightarrow> my_tx_ring_full (nd_priv s')"
      by auto
    from Cons.IH [OF this run] show ?thesis .
  next
    case (Hw_done i)
    with Cons.prems(3) have run: "tx_run my_start_xmit my_tx_clean hw_tx_done (hw_tx_done i dev) ops = Some (t, taken, as)"
      by simp
    from hw_tx_done_ok [OF Cons.prems(1)] Cons.prems(2) have "tx_ok (hw_tx_done i dev)"
      "nd_stopped (hw_tx_done i dev) \<longrightarrow> my_tx_ring_full (nd_priv (hw_tx_done i dev))" by auto
    from Cons.IH [OF this run] show ?thesis .
  qed
qed

text \<open>
  Claim C18: as long as the handlers run one at a time the transmit queue cannot stall: it is
  stopped only while the ring is full, that is while 63 packets are in flight whose
  completion will wake it.
\<close>
theorem stopped_only_when_full:
  assumes "tx_ok dev" "nd_stopped dev \<longrightarrow> my_tx_ring_full (nd_priv dev)"
    "tx_run my_start_xmit my_tx_clean hw_tx_done dev ops = Some (t, taken, as)"
  shows "nd_stopped t \<longrightarrow> length (tx_inflight t) = 63"
proof
  assume "nd_stopped t"
  with tx_run_stopped [OF assms] have full: "my_tx_ring_full (nd_priv t)" by simp
  from simple.run_accounts [OF assms(1), of ops] assms(3) have "tx_ok t" by simp
  then obtain ring where "tx_ring (nd_priv t) = Some ring" "tx_clean (nd_priv t) < 64" "tx_head (nd_priv t) < 64"
    by (auto simp: tx_ok_def tx_ring_ok_def)
  with full tx_ix.full_iff [of "tx_clean (nd_priv t)" "tx_head (nd_priv t)"]
  show "length (tx_inflight t) = 63"
    by (simp add: tx_inflight_def ring_skbs_def my_tx_ring_full_def TX_RING_SIZE_def Let_def)
qed

definition full_demo :: net_device where
  "full_demo = nic_demo\<lparr>nd_priv := (nd_priv nic_demo)\<lparr>tx_head := 63, tx_ring := Some
     (replicate 63 (idle_tx_desc\<lparr>tx_skb := Some (skb_demo 1), tx_owned := True\<rparr>) @ [idle_tx_desc])\<rparr>\<rparr>"

lemma full_demo_ok: "tx_ok full_demo"
  by (auto simp: tx_ok_def full_demo_def nic_demo_def tx_ring_ok_def idle_tx_desc_def nth_append ring_slots_def)

theorem stopped_only_when_full_witness:
  "\<exists>t as. tx_run my_start_xmit my_tx_clean hw_tx_done full_demo [Xmit (5, False) (skb_demo 2)] = Some (t, [], as)
     \<and> nd_stopped t \<and> length (tx_inflight t) = 63"
proof -
  have run: "tx_run my_start_xmit my_tx_clean hw_tx_done full_demo [Xmit (5, False) (skb_demo 2)]
      = Some (full_demo\<lparr>nd_stopped := True\<rparr>, [], [D_stop_queue])"
    by (simp add: full_demo_def nic_demo_def my_start_xmit_def my_tx_ring_full_def TX_RING_SIZE_def Let_def)
  have "nd_stopped full_demo \<longrightarrow> my_tx_ring_full (nd_priv full_demo)"
    by (simp add: full_demo_def nic_demo_def)
  from stopped_only_when_full [OF full_demo_ok this run] run show ?thesis by simp
qed

text \<open>
  \<open>my_start_xmit\<close> of a full ring in two steps, as another processor sees it: the test of
  \<open>my_tx_ring_full\<close>, then \<open>netif_stop_queue\<close>.
\<close>

definition xmit_stop :: "net_device \<Rightarrow> net_device" where
  "xmit_stop dev = dev\<lparr>nd_stopped := True\<rparr>"

lemma my_start_xmit_full:
  "my_tx_ring_full (nd_priv dev) \<Longrightarrow> my_start_xmit e b dev = Some (NETDEV_TX_BUSY, xmit_stop dev, [D_stop_queue])"
  by (simp add: my_start_xmit_def xmit_stop_def Let_def)

lemma hw_tx_done_idle:
  assumes "tx_ok dev" "tx_clean (nd_priv dev) = tx_head (nd_priv dev)"
  shows "hw_tx_done i dev = dev"
  using assms by (auto simp: hw_tx_done_def tx_ok_def tx_ring_ok_def Let_def)

lemma tx_clean_loop_all:
  "tx_ring_ok ring c h \<Longrightarrow> \<forall>i \<in> set (ring_slots 64 c h). tx_done (ring ! i) \<and> \<not> tx_owned (ring ! i)
   \<Longrightarrow> \<exists>ring' as. tx_clean_loop h ring c = Some (ring', h, as)"
proof (induction h ring c rule: tx_clean_loop.induct)
  case (1 h ring c)
  from 1(2) have l: "length ring = 64" "c < 64" "h < 64" by (auto simp: tx_ring_ok_def)
  show ?case
  proof (cases "c = h")
    case True
    then show ?thesis by (subst tx_clean_loop.simps) simp
  next
    case False
    let ?d = "(ring ! c)\<lparr>tx_skb := None, tx_dma_addr := 0, tx_len := 0, tx_done := False, tx_owned := False\<rparr>"
    have s: "ring_slots 64 c h = c # ring_slots 64 ((c + 1) mod 64) h" "c \<notin> set (ring_slots 64 ((c + 1) mod 64) h)"
      using tx_ix.slots_deq [of c h] tx_ix.tail_slots [of c h] l False by simp_all
    then have c: "tx_done (ring ! c)" "\<not> tx_owned (ring ! c)" using 1(3) by simp_all
    have "\<forall>i \<in> set (ring_slots 64 ((c + 1) mod 64) h). tx_done (ring[c := ?d] ! i) \<and> \<not> tx_owned (ring[c := ?d] ! i)"
      using 1(3) s by (metis list.set_intros(2) nth_list_update_neq)
    with 1(1) [of "ring ! c"] False l c tx_ring_ok_deq [OF 1(2) False]
    have "\<exists>ring' as. tx_clean_loop h (ring[c := ?d]) ((c + 1) mod 64) = Some (ring', h, as)"
      by (simp add: TX_RING_SIZE_def)
    with False l c show ?thesis
      by (subst tx_clean_loop.simps) (auto simp: TX_RING_SIZE_def Let_def)
  qed
qed

lemma tx_clean_loop_acts:
  "tx_clean_loop h ring c = Some (ring', c', as) \<Longrightarrow> D_wake_queue \<notin> set as"
proof (induction h ring c arbitrary: ring' c' as rule: tx_clean_loop.induct)
  case (1 h ring c)
  from 1(2) show ?case
    by (subst (asm) tx_clean_loop.simps)
       (auto simp: Let_def split: if_splits option.splits dest!: 1(1) [OF _ _ refl])
qed

text \<open>
  Claim C19: when every packet of a full ring completes and \<open>my_tx_clean\<close> runs between the full
  test and the \<open>netif_stop_queue\<close> of \<open>my_start_xmit\<close>, the queue is left stopped over an empty
  ring: no device completion changes that state, so no transmit interrupt will wake the queue.
\<close>
theorem xmit_stop_loses_wakeup:
  assumes "tx_ok dev" "my_tx_ring_full (nd_priv dev)" "\<not> nd_stopped dev"
    "\<forall>i \<in> set (tx_slots (nd_priv dev)).
       tx_done (the (tx_ring (nd_priv dev)) ! i) \<and> \<not> tx_owned (the (tx_ring (nd_priv dev)) ! i)"
  shows "\<exists>dev' as. my_tx_clean dev = Some (dev', as) \<and> D_wake_queue \<notin> set as \<and> nd_stopped (xmit_stop dev') \<and>
     tx_inflight (xmit_stop dev') = [] \<and> (\<forall>i. hw_tx_done i (xmit_stop dev') = xmit_stop dev')"
proof -
  from assms(1) obtain ring where r: "tx_ring (nd_priv dev) = Some ring"
    "tx_ring_ok ring (tx_clean (nd_priv dev)) (tx_head (nd_priv dev))" by (auto simp: tx_ok_def)
  obtain ring' as where loop:
      "tx_clean_loop (tx_head (nd_priv dev)) ring (tx_clean (nd_priv dev)) = Some (ring', tx_head (nd_priv dev), as)"
    using tx_clean_loop_all [OF r(2)] assms(4) r(1) by (auto simp: tx_slots_def TX_RING_SIZE_def)
  let ?dev = "dev\<lparr>nd_priv := (nd_priv dev)\<lparr>tx_ring := Some ring', tx_clean := tx_head (nd_priv dev)\<rparr>\<rparr>"
  have run: "my_tx_clean dev = Some (?dev, as)"
    using r(1) loop assms(3) by (simp add: my_tx_clean_def Let_def)
  have ok: "tx_ok ?dev" using my_tx_clean_ok [OF assms(1)] run by auto
  have "tx_ok (xmit_stop ?dev)" using ok by (simp add: xmit_stop_def tx_ok_def)
  from hw_tx_done_idle [OF this] have "\<forall>i. hw_tx_done i (xmit_stop ?dev) = xmit_stop ?dev"
    by (simp add: xmit_stop_def)
  moreover have "tx_inflight (xmit_stop ?dev) = []"
    by (simp add: tx_inflight_def ring_skbs_def xmit_stop_def)
  moreover have "D_wake_queue \<notin> set as" using tx_clean_loop_acts [OF loop] .
  ultimately show ?thesis using run by (intro exI conjI) (simp_all add: xmit_stop_def)
qed

definition done_demo :: net_device where
  "done_demo = nic_demo\<lparr>nd_priv := (nd_priv nic_demo)\<lparr>tx_head := 63, tx_ring := Some
     (replicate 63 (idle_tx_desc\<lparr>tx_skb := Some (skb_demo 1), tx_done := True\<rparr>) @ [idle_tx_desc])\<rparr>\<rparr>"

theorem xmit_stop_loses_wakeup_witness:
  "\<exists>dev' as. my_tx_clean done_demo = Some (dev', as) \<and> D_wake_queue \<notin> set as \<and> nd_stopped (xmit_stop dev') \<and>
     tx_inflight (xmit_stop dev') = [] \<and> (\<forall>i. hw_tx_done i (xmit_stop dev') = xmit_stop dev')"
proof (rule xmit_stop_loses_wakeup)
  show "tx_ok done_demo"
    by (auto simp: tx_ok_def done_demo_def nic_demo_def tx_ring_ok_def idle_tx_desc_def nth_append ring_slots_def)
  show "my_tx_ring_full (nd_priv done_demo)" "\<not> nd_stopped done_demo"
    by (simp_all add: done_demo_def nic_demo_def my_tx_ring_full_def TX_RING_SIZE_def)
  show "\<forall>i \<in> set (tx_slots (nd_priv done_demo)). tx_done (the (tx_ring (nd_priv done_demo)) ! i) \<and>
      \<not> tx_owned (the (tx_ring (nd_priv done_demo)) ! i)"
    by (auto simp: tx_slots_def done_demo_def nic_demo_def TX_RING_SIZE_def ring_slots_def nth_append idle_tx_desc_def)
qed

section \<open>Receive\<close>

text \<open>
  Claim C20: one poll handles exactly the frames that are ready, at most \<open>budget\<close> of them, in ring
  order from \<open>rx_head\<close>; it delivers each one's bytes unless its allocation failed, gives the
  descriptors back to the device empty, and moves \<open>rx_head\<close> past them.  The interrupts are
  unmasked only when the poll stayed below its budget and the kernel let polling end.
\<close>
theorem my_poll_correct:
  assumes "rx_ok dev" "rx_ring (nd_priv dev) = Some ring" "h = rx_head (nd_priv dev)" "0 \<le> budget"
    and ready: "ready = takeWhile rx_ready (rotate h ring)" and k: "k = min (nat budget) (length ready)"
  shows "\<exists>dev' ring' as. my_poll alloc complete budget dev = Some (int k, dev', as) \<and> rx_ok dev' \<and>
     rx_ring (nd_priv dev') = Some ring' \<and> rx_head (nd_priv dev') = (h + k) mod 64 \<and>
     rotate ((h + k) mod 64) ring' = drop k (rotate h ring) @
       map (\<lambda>d. d\<lparr>rx_len := 0, rx_done := False, rx_owned := True\<rparr>) (take k ready) \<and>
     delivered as = rx_kept alloc 0 (take k ready) \<and>
     writes REG_IRQ_MASK as = (if int k < budget \<and> complete then [IRQ_RX OR IRQ_TX] else [])"
proof -
  from assms have "rx_ring_ok ring h" by (auto simp: rx_ok_def)
  from poll_loop_spec [OF this ready k, of alloc 0] obtain ring' h' as where
    loop: "poll_loop alloc (nat budget) 0 ring h = Some (ring', h', k, as)" and ok: "rx_ring_ok ring' h'" and
    h': "h' = (h + k) mod 64" and rot: "rotate h' ring' = drop k (rotate h ring) @ map rx_refill (take k ready)" and
    dlv: "delivered as = rx_kept alloc 0 (take k ready)" and mask: "writes REG_IRQ_MASK as = []" by auto
  define dev' where "dev' = dev\<lparr>nd_priv := (nd_priv dev)\<lparr>rx_ring := Some ring', rx_head := h'\<rparr>\<rparr>"
  define fin where "fin = (if int k < budget then D_napi_complete (int k)
      # (if complete then [D_writel REG_IRQ_MASK (IRQ_RX OR IRQ_TX)] else []) else [])"
  have "my_poll alloc complete budget dev = Some (int k, dev', as @ fin)"
    using assms(2,3) loop by (simp add: my_poll_def Let_def dev'_def fin_def)
  moreover have "rx_ok dev'" "rx_ring (nd_priv dev') = Some ring'" "rx_head (nd_priv dev') = h'"
    using ok by (simp_all add: dev'_def rx_ok_def)
  moreover have "delivered (as @ fin) = rx_kept alloc 0 (take k ready)"
    "writes REG_IRQ_MASK (as @ fin) = (if int k < budget \<and> complete then [IRQ_RX OR IRQ_TX] else [])"
    using dlv mask by (simp_all add: fin_def)
  moreover have "rx_refill = (\<lambda>d. d\<lparr>rx_len := 0, rx_done := False, rx_owned := True\<rparr>)"
    by (rule ext) (simp add: rx_refill_def)
  ultimately show ?thesis using rot unfolding h' by metis
qed

definition rx_full_demo :: "u8 list \<Rightarrow> my_rx_desc" where
  "rx_full_demo f = rx_desc_demo\<lparr>rx_buf := Some (7, f @ replicate (2048 - length f) 0),
     rx_len := of_nat (length f), rx_owned := False, rx_done := True\<rparr>"

definition rx_demo :: net_device where
  "rx_demo = nic_demo\<lparr>nd_priv := (nd_priv nic_demo)\<lparr>rx_ring :=
     Some ([rx_full_demo [7], rx_full_demo [8, 9]] @ replicate 62 rx_desc_demo)\<rparr>\<rparr>"

lemma rx_desc_demo_facts: "rx_desc_ok rx_desc_demo" "\<not> rx_ready rx_desc_demo"
  by (simp_all add: rx_desc_ok_def rx_desc_demo_def rx_ready_def)

lemma rx_full_demo_facts:
  "length f \<le> 2 \<Longrightarrow> rx_desc_ok (rx_full_demo f)" "rx_ready (rx_full_demo f)"
  "length f \<le> 2 \<Longrightarrow> rx_frame (rx_full_demo f) = f"
  by (auto simp: rx_desc_ok_def rx_full_demo_def rx_ready_def rx_frame_def unsigned_of_nat take_bit_nat_eq_self)

lemma rx_demo_ok: "rx_ok rx_demo"
  using rx_desc_demo_facts rx_full_demo_facts
  by (simp add: rx_ok_def rx_demo_def rx_ring_ok_def nic_demo_def)

lemma rx_demo_ring: "rx_ring (nd_priv rx_demo) = Some (rx_full_demo [7] # rx_full_demo [8, 9] # replicate 62 rx_desc_demo)"
  by (simp add: rx_demo_def)

text \<open>Two frames are ready; the second one's allocation fails.\<close>
theorem my_poll_correct_witness:
  "\<exists>dev' as. my_poll (\<lambda>w. w = 0) True 64 rx_demo = Some (2, dev', as) \<and> rx_ok dev' \<and>
     rx_head (nd_priv dev') = 2 \<and> delivered as = [[7]] \<and> writes REG_IRQ_MASK as = [3]"
proof -
  let ?ring = "rx_full_demo [7] # rx_full_demo [8, 9] # replicate 62 rx_desc_demo"
  have w: "takeWhile rx_ready (replicate 62 rx_desc_demo) = []"
    using rx_desc_demo_facts(2) by (simp only: takeWhile_eq_Nil_iff hd_replicate) simp
  have r: "[rx_full_demo [7], rx_full_demo [8, 9]] = takeWhile rx_ready (rotate 0 ?ring)"
    using rx_full_demo_facts(2) w by simp
  have h: "0 = rx_head (nd_priv rx_demo)" by (simp add: rx_demo_def nic_demo_def)
  from my_poll_correct [OF rx_demo_ok rx_demo_ring h _ r refl, of 64 "\<lambda>w. w = 0" True]
  obtain dev' as where "my_poll (\<lambda>w. w = 0) True 64 rx_demo = Some (2, dev', as)" "rx_ok dev'"
    "rx_head (nd_priv dev') = 2" "delivered as = rx_kept (\<lambda>w. w = 0) 0 [rx_full_demo [7], rx_full_demo [8, 9]]"
    "writes REG_IRQ_MASK as = [IRQ_RX OR IRQ_TX]" by auto
  then show ?thesis by (intro exI conjI) (simp_all add: rx_full_demo_facts IRQ_RX_def IRQ_TX_def)
qed

end
