(* ===== verification/Simple_Life.thy ===== *)
theory Simple_Life
  imports Simple_Probe Simple_Props
begin

text \<open>
  The resource accounting of \<open>simple_netdev.c\<close> over its whole life: what a probed device
  holds, that the error paths and \<open>my_pci_remove\<close> release exactly that, and that every handler
  in between keeps the account balanced.
\<close>

section \<open>What the device holds\<close>

definition rx_desc_held :: "my_rx_desc \<Rightarrow> resource multiset" where
  "rx_desc_held d = (case rx_buf d of None \<Rightarrow> {#}
     | Some (q, _) \<Rightarrow> {#R_dma DMA_FROM_DEVICE (rx_dma_addr d) (of_nat RX_BUFFER_SIZE), R_mem q#})"

definition tx_desc_held :: "my_tx_desc \<Rightarrow> resource multiset" where
  "tx_desc_held d = (case tx_skb d of None \<Rightarrow> {#} | Some b \<Rightarrow> {#R_dma DMA_TO_DEVICE (tx_dma_addr d) (tx_len d), R_packet b#})"

definition rx_held :: "my_rx_desc list \<Rightarrow> resource multiset" where
  "rx_held ring = sum_list (map rx_desc_held ring)"

definition tx_held :: "my_tx_desc list \<Rightarrow> resource multiset" where
  "tx_held ring = sum_list (map tx_desc_held ring)"

definition rx_ring_held :: "my_priv \<Rightarrow> resource multiset" where
  "rx_ring_held p = (case rx_ring p of None \<Rightarrow> {#} | Some ring \<Rightarrow> {#R_coherent (rx_ring_dma p)#} + rx_held ring)"

definition tx_ring_held :: "my_priv \<Rightarrow> resource multiset" where
  "tx_ring_held p = (case tx_ring p of None \<Rightarrow> {#} | Some ring \<Rightarrow> {#R_coherent (tx_ring_dma p)#} + tx_held ring)"

definition base_held :: "resource multiset" where
  "base_held = {#R_pci, R_regions, R_netdev, R_iomap, R_napi#}"

definition held :: "net_device \<Rightarrow> resource multiset" where
  "held dev = base_held + {#R_irq (p_irq (nd_priv dev)), R_registered#}
     + rx_ring_held (nd_priv dev) + tx_ring_held (nd_priv dev)"

lemma held_simps [simp]:
  "rx_held [] = {#}" "rx_held (d # ds) = rx_desc_held d + rx_held ds"
  "tx_held [] = {#}" "tx_held (e # es) = tx_desc_held e + tx_held es"
  "rx_held (ds @ ds') = rx_held ds + rx_held ds'" "tx_held (es @ es') = tx_held es + tx_held es'"
  by (simp_all add: rx_held_def tx_held_def)

lemmas rx_held_update = sum_list_update_ms [where f = rx_desc_held, folded rx_held_def]
lemmas tx_held_update = sum_list_update_ms [where f = tx_desc_held, folded tx_held_def]

section \<open>Releasing the buffers\<close>

lemma ledger_free_rx: "ledger (R + rx_held ds) (snd (free_rx_list ds)) = Some R"
  by (induction ds arbitrary: R) (auto simp: Let_def rx_desc_held_def split: option.splits prod.splits)

lemma ledger_free_tx: "ledger (R + tx_held ds) (snd (free_tx_list ds)) = Some R"
  by (induction ds arbitrary: R) (auto simp: Let_def tx_desc_held_def split: option.splits prod.splits)

lemma ledger_unwind:
  "i \<le> length ring \<Longrightarrow> \<forall>d \<in> set (take i ring). rx_buf d \<noteq> None \<Longrightarrow>
   ledger (R + rx_held (take i ring)) (snd (rx_buffers_unwind i ring)) = Some R"
proof (induction i ring arbitrary: R rule: rx_buffers_unwind.induct)
  case (2 i ring)
  let ?d = "ring ! i" and ?r = "ring[i := (ring ! i)\<lparr>rx_buf := None\<rparr>]"
  have l: "i < length ring" using 2(2) by simp
  then have t: "take (Suc i) ring = take i ring @ [?d]" and t': "take i ?r = take i ring"
    by (simp_all add: take_Suc_conv_app_nth)
  with 2(3) obtain q m where q: "rx_buf ?d = Some (q, m)" by auto
  have "ledger (R + rx_held (take i ?r)) (snd (rx_buffers_unwind i ?r)) = Some R"
    using 2(1) [OF refl, of R] 2(3) l t t' by simp
  then show ?case using q t t'
    by (auto simp: Let_def buf_addr_def rx_desc_held_def split: prod.splits)
qed simp

section \<open>Allocating the buffers\<close>

lemma ledger_alloc_rx:
  "i + left = length ring \<Longrightarrow> \<forall>d \<in> set (take i ring). rx_buf d \<noteq> None \<Longrightarrow> rx_held (drop i ring) = {#} \<Longrightarrow>
   alloc_rx_loop env left i ring = (r, ring', as) \<Longrightarrow> length ring' = length ring \<and>
   (if r = 0 then ledger (R + rx_held (take i ring)) as = Some (R + rx_held ring')
    else r = - ENOMEM \<and> ledger (R + rx_held (take i ring)) as = Some R)"
proof (induction env left i ring arbitrary: R r ring' as rule: alloc_rx_loop.induct)
  case (1 env i ring)
  then show ?case by simp
next
  case (2 env left i ring)
  have l: "i < length ring" using 2(2) by simp
  then have t: "take i (ring[i := d]) = take i ring" "take (Suc i) (ring[i := d]) = take i ring @ [d]" for d
    by (simp_all add: take_Suc_conv_app_nth)
  have len: "length (fst (rx_buffers_unwind j xs)) = length xs" for j xs
    by (induction j xs rule: rx_buffers_unwind.induct) (auto simp: Let_def split: prod.splits)
  have un: "ledger (R + rx_held (take i ring)) (snd (rx_buffers_unwind i (ring[i := d]))) = Some R" for d R
    using ledger_unwind [of i "ring[i := d]" R] 2(3) l t(1) by simp
  have E: "- ENOMEM \<noteq> 0" by (simp add: ENOMEM_def)
  consider (nomem) "pe_buf env i = None"
    | (nomap) q m a where "pe_buf env i = Some (q, m)" "pe_map env i = (a, True)"
    | (ok) q m a where "pe_buf env i = Some (q, m)" "pe_map env i = (a, False)"
    by (metis (full_types) not_None_eq prod.exhaust)
  then show ?case
  proof cases
    case nomem
    with 2(5) un [of R "(ring ! i)\<lparr>rx_buf := None\<rparr>"] len [of i "ring[i := (ring ! i)\<lparr>rx_buf := None\<rparr>]"] E
    show ?thesis by (auto simp: Let_def split: prod.splits)
  next
    case nomap
    with 2(5) un [of R "(ring ! i)\<lparr>rx_buf := None, rx_dma_addr := a\<rparr>"]
      len [of i "ring[i := (ring ! i)\<lparr>rx_buf := None, rx_dma_addr := a\<rparr>]"] E
    show ?thesis by (auto simp: Let_def split: prod.splits)
  next
    case ok
    let ?d = "(ring ! i)\<lparr>rx_buf := Some (q, m), rx_dma_addr := a, rx_len := 0, rx_done := False, rx_owned := True\<rparr>"
    obtain as' where rec: "alloc_rx_loop env left (Suc i) (ring[i := ?d]) = (r, ring', as')"
      and as: "as = D_kmalloc q # D_dma_map DMA_FROM_DEVICE a (of_nat RX_BUFFER_SIZE) # as'"
      using 2(5) ok by (auto simp: Let_def split: prod.splits)
    have A: "rx_held (drop (Suc i) (ring[i := ?d])) = {#}"
      using 2(4) l by (simp add: Cons_nth_drop_Suc [symmetric])
    have B: "\<forall>d \<in> set (take (Suc i) (ring[i := ?d])). rx_buf d \<noteq> None" using 2(3) t(2) [of ?d] by auto
    have C: "Suc i + left = length (ring[i := ?d])" using 2(2) by simp
    have IH: "length ring' = length (ring[i := ?d]) \<and>
       (if r = 0 then ledger (R + rx_held (take (Suc i) (ring[i := ?d]))) as' = Some (R + rx_held ring')
        else r = - ENOMEM \<and> ledger (R + rx_held (take (Suc i) (ring[i := ?d]))) as' = Some R)"
      using 2(1) [OF ok(1) refl ok(2) [symmetric] _ C B A rec, of R] by simp
    have hd: "rx_held (take (Suc i) (ring[i := ?d])) = add_mset (R_dma DMA_FROM_DEVICE a (of_nat RX_BUFFER_SIZE))
       (add_mset (R_mem q) (rx_held (take i ring)))"
      unfolding t(2) by (simp add: rx_desc_held_def)
    show ?thesis using IH unfolding as hd by (simp split: if_splits)
  qed
qed

text \<open>Every buffer the allocator hands out has the size asked for.\<close>

definition probe_env_ok :: "probe_env \<Rightarrow> bool" where
  "probe_env_ok env \<longleftrightarrow> (\<forall>i q m. pe_buf env i = Some (q, m) \<longrightarrow> length m = RX_BUFFER_SIZE)"

lemma alloc_rx_ok:
  "probe_env_ok env \<Longrightarrow> i + left = length ring \<Longrightarrow> \<forall>d \<in> set (take i ring). rx_desc_ok d \<Longrightarrow>
   alloc_rx_loop env left i ring = (0, ring', as) \<Longrightarrow> \<forall>d \<in> set ring'. rx_desc_ok d"
proof (induction env left i ring arbitrary: ring' as rule: alloc_rx_loop.induct)
  case (2 env left i ring)
  have l: "i < length ring" using 2(3) by simp
  have E: "- ENOMEM \<noteq> 0" by (simp add: ENOMEM_def)
  obtain q m where q: "pe_buf env i = Some (q, m)"
    using 2(5) E by (cases "pe_buf env i") (auto split: prod.splits)
  obtain a where a: "pe_map env i = (a, False)"
    using 2(5) q E by (cases "pe_map env i") (auto split: prod.splits if_splits)
  let ?d = "(ring ! i)\<lparr>rx_buf := Some (q, m), rx_dma_addr := a, rx_len := 0, rx_done := False, rx_owned := True\<rparr>"
  obtain as' where rec: "alloc_rx_loop env left (Suc i) (ring[i := ?d]) = (0, ring', as')"
    using 2(5) q a by (auto simp: Let_def split: prod.splits)
  have "take (Suc i) (ring[i := ?d]) = take i ring @ [?d]" using l by (simp add: take_Suc_conv_app_nth)
  moreover have "rx_desc_ok ?d" using 2(2) q by (auto simp: rx_desc_ok_def probe_env_ok_def RX_BUFFER_SIZE_def)
  ultimately have B: "\<forall>d \<in> set (take (Suc i) (ring[i := ?d])). rx_desc_ok d" using 2(4) by auto
  have C: "Suc i + left = length (ring[i := ?d])" using 2(3) by simp
  show ?case using 2(1) [OF q refl a [symmetric] _ 2(2) C B rec] by simp
qed simp

section \<open>The error labels\<close>

lemma ledger_err_napi: "ledger base_held err_napi = Some {#}"
  by (simp add: base_held_def err_napi_def err_free_netdev_def err_release_regions_def err_disable_device_def)

lemma ledger_err_rx_desc:
  "rx_ring p = Some ring \<Longrightarrow> ledger (add_mset (R_coherent (rx_ring_dma p)) base_held) (err_rx_desc p) = Some {#}"
  by (simp add: err_rx_desc_def free_rx_ring_def ledger_err_napi)

lemma ledger_err_rx_desc_None: "rx_ring p = None \<Longrightarrow> ledger base_held (err_rx_desc p) = Some {#}"
  by (simp add: err_rx_desc_def free_rx_ring_def ledger_err_napi)

lemma ledger_err_tx_desc:
  "rx_ring p = Some ring \<Longrightarrow> tx_ring p = Some ring' \<Longrightarrow>
   ledger (add_mset (R_coherent (tx_ring_dma p)) (add_mset (R_coherent (rx_ring_dma p)) base_held)) (err_tx_desc p) = Some {#}"
  using ledger_err_rx_desc [of "p\<lparr>tx_ring := None\<rparr>"] by (simp add: err_tx_desc_def free_tx_ring_def)

lemma ledger_err_rx_buffers:
  assumes "rx_ring p = Some ring" "tx_ring p = Some ring'"
  shows "ledger (add_mset (R_coherent (tx_ring_dma p)) (add_mset (R_coherent (rx_ring_dma p)) base_held) + rx_held ring)
     (err_rx_buffers p) = Some {#}"
proof -
  obtain ring2 as where f: "free_rx_list ring = (ring2, as)" by fastforce
  let ?R = "add_mset (R_coherent (tx_ring_dma p)) (add_mset (R_coherent (rx_ring_dma p)) base_held)"
  from f have "ledger (?R + rx_held ring) as = Some ?R" using ledger_free_rx [of ?R ring] by simp
  with ledger_err_tx_desc [of "p\<lparr>rx_ring := Some ring2\<rparr>" ring2 ring'] assms f show ?thesis
    by (simp add: err_rx_buffers_def my_free_rx_buffers_def ledger_append)
qed

lemma neutral_hw_init: "neutral (my_hw_init p)"
  by (simp add: neutral_def my_hw_init_def)

section \<open>Probe\<close>

definition nic_ok :: "net_device \<Rightarrow> bool" where
  "nic_ok dev \<longleftrightarrow> tx_ok dev \<and> rx_ok dev \<and> p_mmio (nd_priv dev)"

definition probe_post :: "probe_env \<Rightarrow> int \<times> net_device option \<times> drv_act list \<Rightarrow> bool" where
  "probe_post env ans = (case ans of (r, drvdata, as) \<Rightarrow>
     (case drvdata of None \<Rightarrow> r \<noteq> 0 \<and> ledger {#} as = Some {#}
      | Some dev \<Rightarrow> r = 0 \<and> ledger {#} as = Some (held dev) \<and> (probe_env_ok env \<longrightarrow> nic_ok dev)))"

lemma rx_held_zero: "rx_held (replicate n zero_rx_desc) = {#}"
  by (induction n) (simp_all add: rx_desc_held_def zero_rx_desc_def)

lemma tx_held_idle: "tx_held (replicate n idle_tx_desc) = {#}"
  by (induction n) (simp_all add: tx_desc_held_def idle_tx_desc_def)

text \<open>The probe from the receive buffers on, with both coherent rings there.\<close>

definition probe_priv :: "probe_env \<Rightarrow> my_priv" where
  "probe_priv env = (nd_priv fresh_netdev)\<lparr>p_irq := pe_irqno env, p_mmio := True\<rparr>"

abbreviation probe_log :: "drv_act list" where
  "probe_log \<equiv> [D_pci_enable, D_set_master, D_request_regions, D_alloc_netdev, D_iomap, D_napi_add]"

lemma probe_fin_ok:
  assumes "probe_env_ok env" "alloc_rx_loop env RX_RING_SIZE 0 (replicate RX_RING_SIZE zero_rx_desc) = (0, ring, as)"
    "length ring = RX_RING_SIZE" "rx_ring p = Some ring" "tx_ring p = Some (replicate TX_RING_SIZE idle_tx_desc)"
    "rx_head p = 0" "tx_head p = 0" "tx_clean p = 0" "p_mmio p"
  shows "nic_ok (fresh_netdev\<lparr>nd_priv := p\<rparr>)"
  using alloc_rx_ok [OF assms(1) _ _ assms(2)] assms(3-9)
  by (auto simp: nic_ok_def tx_ok_def tx_ring_ok_def rx_ok_def rx_ring_ok_def idle_tx_desc_def RX_RING_SIZE_def TX_RING_SIZE_def)

lemma probe_buffers_post:
  assumes co: "pe_rx_coherent env = Some a" "pe_tx_coherent env = Some b"
  shows "probe_post env (probe_rings env fresh_netdev (probe_priv env) probe_log)"
proof -
  define p5 where "p5 = (probe_priv env)\<lparr>rx_ring := Some (replicate RX_RING_SIZE zero_rx_desc), rx_ring_dma := a, rx_head := 0,
     tx_ring := Some (replicate TX_RING_SIZE idle_tx_desc), tx_ring_dma := b, tx_head := 0, tx_clean := 0\<rparr>"
  obtain r ring as6 where al: "alloc_rx_loop env RX_RING_SIZE 0 (replicate RX_RING_SIZE zero_rx_desc) = (r, ring, as6)"
    using prod_cases3 by blast
  define p6 where "p6 = p5\<lparr>rx_ring := Some ring\<rparr>"
  have al6: "my_alloc_rx_buffers env p5 = (r, p6, as6)"
    using al by (simp add: my_alloc_rx_buffers_def p5_def p6_def)
  define l6 where "l6 = probe_log @ [D_coherent_alloc a, D_coherent_alloc b] @ as6"
  define R where "R = add_mset (R_coherent b) (add_mset (R_coherent a) base_held)"
  have probe: "probe_rings env fresh_netdev (probe_priv env) probe_log =
    (if r \<noteq> 0 then (r, None, l6 @ err_tx_desc p6)
     else if pe_request_irq env \<noteq> 0 then (pe_request_irq env, None, l6 @ err_rx_buffers p6)
     else if pe_register env \<noteq> 0 then (pe_register env, None, l6 @ [D_request_irq (p_irq p6)] @ my_hw_init p6 @ err_irq p6)
     else (0, Some (fresh_netdev\<lparr>nd_priv := p6\<rparr>), l6 @ [D_request_irq (p_irq p6)] @ my_hw_init p6 @ [D_register_netdev]))"
    using co al6
    by (simp add: probe_rings_def Let_def my_alloc_rx_desc_ring_def my_alloc_tx_desc_ring_def p5_def l6_def)
  have led: "length ring = RX_RING_SIZE \<and> (if r = 0 then ledger R as6 = Some (R + rx_held ring)
      else r = - ENOMEM \<and> ledger R as6 = Some R)"
    using ledger_alloc_rx [OF _ _ _ al, of R] by (cases "r = 0"; simp add: rx_held_zero)
  have l6: "ledger {#} (l6 @ as) = Option.bind (ledger R as6) (\<lambda>R'. ledger R' as)" for as
    by (simp add: l6_def ledger_append R_def base_held_def add_mset_commute)
  have p6: "rx_ring p6 = Some ring" "tx_ring p6 = Some (replicate TX_RING_SIZE idle_tx_desc)"
    "rx_ring_dma p6 = a" "tx_ring_dma p6 = b" "rx_head p6 = 0" "tx_head p6 = 0" "tx_clean p6 = 0" "p_mmio p6"
    by (simp_all add: p6_def p5_def probe_priv_def)
  have e1: "ledger R (err_tx_desc p6) = Some {#}" and e2: "ledger (R + rx_held ring) (err_rx_buffers p6) = Some {#}"
    using ledger_err_tx_desc [OF p6(1,2)] ledger_err_rx_buffers [OF p6(1,2)] p6 by (simp_all add: R_def)
  have hw: "ledger X (my_hw_init p6 @ as) = ledger X as" for X as
    by (simp add: ledger_append ledger_neutral [OF neutral_hw_init])
  consider "r \<noteq> 0" | "r = 0" "pe_request_irq env \<noteq> 0 \<or> pe_register env \<noteq> 0"
    | (fin) "r = 0" "pe_request_irq env = 0" "pe_register env = 0" by blast
  then show ?thesis
  proof cases
    case 1
    with led e1 show ?thesis unfolding probe by (simp add: probe_post_def l6 ENOMEM_def)
  next
    case 2
    with led e2 show ?thesis unfolding probe by (simp add: probe_post_def l6 hw err_irq_def)
  next
    case fin
    have "ledger {#} (l6 @ [D_request_irq (p_irq p6)] @ my_hw_init p6 @ [D_register_netdev]) = Some (held (fresh_netdev\<lparr>nd_priv := p6\<rparr>))"
      using fin led by (simp add: l6 hw held_def rx_ring_held_def tx_ring_held_def p6 tx_held_idle R_def base_held_def add_mset_commute)
    then show ?thesis
      using fin led probe_fin_ok [OF _ al [unfolded fin(1)] _ p6(1,2,5-8)] unfolding probe by (simp add: probe_post_def)
  qed
qed

text \<open>The early errors unwind what was acquired so far.\<close>

lemma my_pci_probe_post: "probe_post env (my_pci_probe env)"
proof -
  note labels = err_napi_def err_free_netdev_def err_release_regions_def err_disable_device_def
  have E: "ENOMEM \<noteq> 0" by (simp add: ENOMEM_def)
  have rings: "probe_post env (probe_rings env fresh_netdev (probe_priv env) probe_log)"
  proof (cases "pe_rx_coherent env = None \<or> pe_tx_coherent env = None")
    case True
    then show ?thesis
      using E by (cases "pe_rx_coherent env") (auto simp: probe_rings_def Let_def my_alloc_rx_desc_ring_def my_alloc_tx_desc_ring_def
          probe_post_def probe_priv_def labels err_rx_desc_def free_rx_ring_def)
  qed (use probe_buffers_post in auto)
  have "my_pci_probe env = probe_rings env fresh_netdev (probe_priv env) probe_log"
    if "pe_enable env = 0" "pe_regions env = 0" "\<not> (pe_mask64 env \<noteq> 0 \<and> pe_mask32 env \<noteq> 0)" "pe_netdev env" "pe_iomap env"
    using that by (auto simp: my_pci_probe_def Let_def probe_priv_def)
  moreover have "probe_post env (my_pci_probe env)"
    if "\<not> (pe_enable env = 0 \<and> pe_regions env = 0 \<and> \<not> (pe_mask64 env \<noteq> 0 \<and> pe_mask32 env \<noteq> 0) \<and> pe_netdev env \<and> pe_iomap env)"
    using that E by (auto simp: my_pci_probe_def Let_def probe_post_def labels)
  ultimately show ?thesis using rings by metis
qed

end
