(* ===== verification/Simple_Run.thy ===== *)
theory Simple_Run
  imports Simple_Life
begin

text \<open>
  Runs of the probed device of \<open>simple_netdev.c\<close>: any sequence of the kernel's calls into the
  driver and of the device's completions, from probe to remove, with the resource account
  carried through every step.
\<close>

section \<open>Steps\<close>

datatype nic_op =
    N_xmit u64 bool sk_buff
  | N_irq u32
  | N_poll "nat \<Rightarrow> bool" bool int
  | N_open
  | N_stop
  | N_mtu int
  | N_tx_done nat
  | N_rx_done nat "u8 list"

fun nic_step :: "nic_op \<Rightarrow> net_device \<Rightarrow> (net_device \<times> drv_act list) option" where
  "nic_step (N_xmit a err b) dev = map_option (\<lambda>(r, dev', as). (dev', handed r b @ as)) (my_start_xmit (a, err) b dev)"
| "nic_step (N_irq status) dev = map_option snd (my_irq_handler status dev)"
| "nic_step (N_poll alloc complete budget) dev = map_option snd (my_poll alloc complete budget dev)"
| "nic_step N_open dev = Some (snd (my_open dev))"
| "nic_step N_stop dev = Some (snd (my_stop dev))"
| "nic_step (N_mtu m) dev = Some (snd (my_change_mtu dev m), [])"
| "nic_step (N_tx_done i) dev = Some (hw_tx_done i dev, [])"
| "nic_step (N_rx_done i f) dev = Some (hw_rx_done i f dev, [])"

fun nic_run :: "net_device \<Rightarrow> nic_op list \<Rightarrow> (net_device \<times> drv_act list) option" where
  "nic_run dev [] = Some (dev, [])"
| "nic_run dev (op # ops) = (case nic_step op dev of None \<Rightarrow> None
     | Some (dev', as) \<Rightarrow> map_option (\<lambda>(t, as'). (t, as @ as')) (nic_run dev' ops))"

text \<open>The device writes no more than a receive buffer holds.\<close>

fun nic_op_ok :: "nic_op \<Rightarrow> bool" where
  "nic_op_ok (N_rx_done i f) = (length f \<le> RX_BUFFER_SIZE)"
| "nic_op_ok _ = True"

section \<open>Each step keeps the invariant and the account\<close>

definition step_good :: "net_device \<Rightarrow> (net_device \<times> drv_act list) option \<Rightarrow> bool" where
  "step_good dev ans \<longleftrightarrow>
     (\<exists>dev' as. ans = Some (dev', as) \<and> nic_ok dev' \<and> ledger (held dev) as = Some (held dev'))"

lemma held_same:
  "p_irq (nd_priv dev') = p_irq (nd_priv dev) \<Longrightarrow> rx_ring_held (nd_priv dev') = rx_ring_held (nd_priv dev) \<Longrightarrow>
   tx_ring_held (nd_priv dev') = tx_ring_held (nd_priv dev) \<Longrightarrow> held dev' = held dev"
  by (simp add: held_def)

lemma ring_held_upds [simp]:
  "rx_ring_held (p\<lparr>tx_ring := x\<rparr>) = rx_ring_held p" "rx_ring_held (p\<lparr>tx_head := n\<rparr>) = rx_ring_held p"
  "rx_ring_held (p\<lparr>tx_clean := n\<rparr>) = rx_ring_held p"
  "tx_ring_held (p\<lparr>rx_ring := y\<rparr>) = tx_ring_held p" "tx_ring_held (p\<lparr>rx_head := n\<rparr>) = tx_ring_held p"
  by (simp_all add: rx_ring_held_def tx_ring_held_def split: option.splits)

lemma rx_ok_upds [simp]:
  "rx_ok (dev\<lparr>nd_priv := (nd_priv dev)\<lparr>tx_ring := x, tx_head := n\<rparr>\<rparr>) = rx_ok dev"
  "rx_ok (dev\<lparr>nd_priv := (nd_priv dev)\<lparr>tx_ring := x\<rparr>\<rparr>) = rx_ok dev"
  "rx_ok (dev\<lparr>nd_stopped := b\<rparr>) = rx_ok dev" "tx_ok (dev\<lparr>nd_stopped := b\<rparr>) = tx_ok dev"
  "rx_ok (dev\<lparr>nd_mtu := m\<rparr>) = rx_ok dev" "tx_ok (dev\<lparr>nd_mtu := m\<rparr>) = tx_ok dev"
  by (simp_all add: rx_ok_def tx_ok_def)

lemma tx_held_same: "i < length ring \<Longrightarrow> tx_desc_held d = tx_desc_held (ring ! i) \<Longrightarrow> tx_held (ring[i := d]) = tx_held ring"
  using tx_held_update [of i ring d] by simp

lemma rx_held_same: "i < length ring \<Longrightarrow> rx_desc_held d = rx_desc_held (ring ! i) \<Longrightarrow> rx_held (ring[i := d]) = rx_held ring"
  using rx_held_update [of i ring d] by simp

text \<open>Transmission: the packet and its mapping are taken, or the packet is freed at once.\<close>

lemma xmit_good:
  assumes ok: "nic_ok dev"
  shows "step_good dev (nic_step (N_xmit a err b) dev)"
proof -
  let ?p = "nd_priv dev" and ?h = "tx_head (nd_priv dev)"
  from ok obtain ring where ring: "tx_ring ?p = Some ring" "tx_ring_ok ring (tx_clean ?p) ?h"
    by (auto simp: nic_ok_def tx_ok_def)
  then have l: "?h < length ring" and s: "tx_skb (ring ! ?h) = None"
    using head_notin_slots [of ?h 64 "tx_clean ?p"] by (auto simp: tx_ring_ok_def)
  from my_start_xmit_ok [of dev a err b] ok obtain r dev' as where
    x: "my_start_xmit (a, err) b dev = Some (r, dev', as)" and post: "xmit_post b dev (r, dev', as)"
    by (auto simp: nic_ok_def)
  have held_put: "tx_held (ring[?h := d]) = tx_held ring + tx_desc_held d" for d
    using tx_held_update [of ?h ring d] l s by (simp add: tx_desc_held_def)
  from post have tx: "tx_ok dev'" by (simp add: xmit_post_def)
  let ?R = "base_held + {#R_irq (p_irq ?p), R_registered#} + rx_ring_held ?p"
  have h: "held dev = ?R + add_mset (R_coherent (tx_ring_dma ?p)) (tx_held ring)"
    using ring(1) by (simp add: held_def tx_ring_held_def)
  consider (full) "my_tx_ring_full ?p" | (fail) "\<not> my_tx_ring_full ?p" err | (put) "\<not> my_tx_ring_full ?p" "\<not> err" by blast
  then have "nic_ok dev' \<and> ledger (held dev) (handed r b @ as) = Some (held dev')"
  proof cases
    case full
    then have "dev' = dev\<lparr>nd_stopped := True\<rparr>" "as = [D_stop_queue]" "r = NETDEV_TX_BUSY" using x by (simp_all add: my_start_xmit_def Let_def)
    with ok tx show ?thesis by (simp add: nic_ok_def held_def)
  next
    case fail
    then have d: "dev' = dev\<lparr>nd_priv := ?p\<lparr>tx_ring := Some (ring[?h := (ring ! ?h)\<lparr>tx_dma_addr := a\<rparr>])\<rparr>\<rparr>" "as = [D_kfree_skb b]" "r = NETDEV_TX_OK"
      using x ring(1) l by (simp_all add: my_start_xmit_def Let_def)
    then have "held dev' = held dev"
      unfolding h using held_put s by (simp add: held_def tx_ring_held_def tx_desc_held_def)
    with ok tx d show ?thesis by (simp add: nic_ok_def)
  next
    case put
    let ?d = "(ring ! ?h)\<lparr>tx_dma_addr := a, tx_skb := Some b, tx_len := skb_len b, tx_done := False, tx_owned := True\<rparr>"
    from put have d: "dev' = dev\<lparr>nd_priv := ?p\<lparr>tx_ring := Some (ring[?h := ?d]), tx_head := (?h + 1) mod TX_RING_SIZE\<rparr>\<rparr>"
      "as = [D_dma_map DMA_TO_DEVICE a (skb_len b), D_writel REG_TX_TAIL (of_nat ((?h + 1) mod TX_RING_SIZE))]" "r = NETDEV_TX_OK"
      using x ring(1) l by (simp_all add: my_start_xmit_def Let_def)
    then have "held dev' = add_mset (R_dma DMA_TO_DEVICE a (skb_len b)) (add_mset (R_packet b) (held dev))"
      unfolding h using held_put [of ?d] by (simp add: held_def tx_ring_held_def tx_desc_held_def)
    with ok tx d show ?thesis by (simp add: nic_ok_def)
  qed
  with x show ?thesis by (simp add: step_good_def)
qed

text \<open>Completion: each mapping released is one the ring held.\<close>

lemma ledger_tx_clean_loop:
  "tx_ring_ok ring c h \<Longrightarrow> tx_clean_loop h ring c = Some (ring', c', as)
   \<Longrightarrow> ledger (R + tx_held ring) as = Some (R + tx_held ring')"
proof (induction h ring c arbitrary: ring' c' as rule: tx_clean_loop.induct)
  case (1 h ring c)
  from 1(2) have l: "length ring = 64" "c < 64" by (auto simp: tx_ring_ok_def)
  show ?case
  proof (cases "c = h \<or> tx_owned (ring ! c) \<or> \<not> tx_done (ring ! c)")
    case True
    then have "tx_clean_loop h ring c = Some (ring, c, [])"
      using l by (subst tx_clean_loop.simps) (auto simp: Let_def)
    with 1(3) show ?thesis by simp
  next
    case False
    let ?d = "(ring ! c)\<lparr>tx_skb := None, tx_dma_addr := 0, tx_len := 0, tx_done := False, tx_owned := False\<rparr>"
    let ?r = "ring[c := ?d]"
    have "ring_slots 64 c h = c # ring_slots 64 ((c + 1) mod 64) h"
      using tx_ix.slots_deq [of c h] 1(2) False by (simp add: tx_ring_ok_def)
    with 1(2) l have "tx_skb (ring ! c) \<noteq> None" by (auto simp: tx_ring_ok_def)
    then obtain b where b: "tx_skb (ring ! c) = Some b" by auto
    obtain as' where rec: "tx_clean_loop h ?r ((c + 1) mod 64) = Some (ring', c', as')"
      and as: "as = D_dma_unmap DMA_TO_DEVICE (tx_dma_addr (ring ! c)) (tx_len (ring ! c)) # D_kfree_skb b # as'"
      using 1(3) False l b tx_clean_loop.simps [of h ring c] by (auto simp: Let_def TX_RING_SIZE_def)
    have "tx_ring_ok ?r ((c + 1) mod 64) h" using tx_ring_ok_deq [OF 1(2)] False by simp
    with 1(1) [of "ring ! c"] False l rec have "ledger (R + tx_held ?r) as' = Some (R + tx_held ring')"
      by (simp add: TX_RING_SIZE_def)
    moreover have "tx_held ring = add_mset (R_dma DMA_TO_DEVICE (tx_dma_addr (ring ! c)) (tx_len (ring ! c)))
        (add_mset (R_packet b) (tx_held ?r))"
      using tx_held_update [of c ring ?d] l b by (simp add: tx_desc_held_def)
    ultimately show ?thesis unfolding as by simp
  qed
qed

lemma clean_good:
  assumes ok: "nic_ok dev"
  shows "step_good dev (my_tx_clean dev)"
proof -
  let ?p = "nd_priv dev"
  from ok obtain ring where ring: "tx_ring ?p = Some ring" "tx_ring_ok ring (tx_clean ?p) (tx_head ?p)"
    by (auto simp: nic_ok_def tx_ok_def)
  from my_tx_clean_ok [of dev] ok obtain dev' as where x: "my_tx_clean dev = Some (dev', as)" and tx: "tx_ok dev'"
    by (auto simp: nic_ok_def)
  obtain ring' c' as' where loop: "tx_clean_loop (tx_head ?p) ring (tx_clean ?p) = Some (ring', c', as')"
    using tx_clean_loop_ok [OF ring(2)] by blast
  have led: "ledger (R + tx_held ring) as' = Some (R + tx_held ring')" for R
    by (rule ledger_tx_clean_loop [OF ring(2) loop])
  have dev': "nd_priv dev' = ?p\<lparr>tx_ring := Some ring', tx_clean := c'\<rparr>" and as: "as = as' \<or> as = as' @ [D_wake_queue]"
    using x ring(1) loop by (auto simp: my_tx_clean_def Let_def split: if_splits)
  let ?R = "base_held + {#R_irq (p_irq ?p), R_registered#} + rx_ring_held ?p + {#R_coherent (tx_ring_dma ?p)#}"
  have h: "held dev = ?R + tx_held ring" "held dev' = ?R + tx_held ring'"
    using ring(1) by (simp_all add: held_def tx_ring_held_def dev')
  have "ledger (held dev) as = Some (held dev')"
    using as unfolding h by (auto simp: ledger_append led simp del: add_mset_add_single union_mset_add_mset_left union_mset_add_mset_right)
  moreover have "nic_ok dev'" using ok tx dev' by (simp add: nic_ok_def rx_ok_def)
  ultimately show ?thesis using x by (simp add: step_good_def)
qed

text \<open>Polling takes and releases nothing: the buffers stay mapped.\<close>

lemma poll_loop_held:
  "poll_loop alloc left w ring h = Some (ring', h', w', as) \<Longrightarrow> rx_held ring' = rx_held ring \<and> neutral as"
proof (induction alloc left w ring h arbitrary: ring' h' w' as rule: poll_loop.induct)
  case (1 alloc w ring h)
  then show ?case by (auto simp: neutral_def)
next
  case (2 alloc left w ring h)
  show ?case
  proof (cases "length ring \<le> h \<or> rx_owned (ring ! h) \<or> \<not> rx_done (ring ! h) \<or> rx_deliver (alloc w) (ring ! h) = None")
    case True
    with 2(2) show ?thesis by (auto simp: Let_def neutral_def split: if_splits)
  next
    case False
    then obtain dlv where d: "rx_deliver (alloc w) (ring ! h) = Some dlv" by auto
    let ?r = "ring[h := rx_refill (ring ! h)]"
    obtain as' where rec: "poll_loop alloc left (Suc w) ?r ((h + 1) mod RX_RING_SIZE) = Some (ring', h', w', as')"
      and as: "as = [D_sync_for_cpu (rx_dma_addr (ring ! h)) (rx_len (ring ! h))] @ dlv @
         [D_sync_for_device (rx_dma_addr (ring ! h)) (of_nat RX_BUFFER_SIZE),
          D_writel REG_RX_TAIL (of_nat ((h + 1) mod RX_RING_SIZE))] @ as'"
      using 2(2) False d by (auto simp: Let_def)
    have IH: "rx_held ring' = rx_held ?r \<and> neutral as'"
      using 2(1) [OF _ refl _ _ d refl rec] False by simp
    have "neutral dlv" using d by (auto simp: rx_deliver_def neutral_def split: if_splits option.splits)
    moreover have "rx_held ?r = rx_held ring"
      using False by (intro rx_held_same) (simp_all add: rx_desc_held_def rx_refill_def split: option.splits)
    ultimately show ?thesis using IH unfolding as by (simp add: neutral_def ball_Un)
  qed
qed

lemma poll_good:
  assumes ok: "nic_ok dev"
  shows "step_good dev (map_option snd (my_poll alloc complete budget dev))"
proof -
  let ?p = "nd_priv dev"
  from ok obtain ring where ring: "rx_ring ?p = Some ring" "rx_ring_ok ring (rx_head ?p)"
    by (auto simp: nic_ok_def rx_ok_def)
  from poll_loop_spec [OF ring(2) refl refl, of alloc "nat budget" 0] obtain ring' h' w as where
    loop: "poll_loop alloc (nat budget) 0 ring (rx_head ?p) = Some (ring', h', w, as)" and rok: "rx_ring_ok ring' h'"
    by blast
  define fin where "fin = (if int w < budget then D_napi_complete (int w)
      # (if complete then [D_writel REG_IRQ_MASK (IRQ_RX OR IRQ_TX)] else []) else [])"
  let ?dev = "dev\<lparr>nd_priv := ?p\<lparr>rx_ring := Some ring', rx_head := h'\<rparr>\<rparr>"
  have x: "my_poll alloc complete budget dev = Some (int w, ?dev, as @ fin)"
    using ring(1) loop by (simp add: my_poll_def Let_def fin_def)
  have n: "neutral (as @ fin)" and r: "rx_held ring' = rx_held ring"
    using poll_loop_held [OF loop] by (auto simp: neutral_def fin_def)
  have "held ?dev = held dev"
    using ring(1) r by (intro held_same) (simp_all add: rx_ring_held_def)
  moreover have "nic_ok ?dev" using ok rok by (simp add: nic_ok_def rx_ok_def tx_ok_def)
  ultimately show ?thesis using ledger_neutral [OF n] by (simp add: step_good_def x)
qed

lemma irq_good:
  assumes ok: "nic_ok dev"
  shows "step_good dev (map_option snd (my_irq_handler status dev))"
proof (cases "status = 0")
  case True
  with ok show ?thesis by (simp add: step_good_def my_irq_handler_def)
next
  case False
  define rx where "rx = (if status AND IRQ_RX \<noteq> 0 then [D_writel REG_IRQ_MASK IRQ_TX, D_napi_schedule] else [])"
  have "step_good dev (if status AND IRQ_TX \<noteq> 0 then my_tx_clean dev else Some (dev, []))"
    using clean_good [OF ok] ok by (simp add: step_good_def)
  then obtain dev' tx where t: "(if status AND IRQ_TX \<noteq> 0 then my_tx_clean dev else Some (dev, [])) = Some (dev', tx)"
    "nic_ok dev'" "ledger (held dev) tx = Some (held dev')" by (auto simp: step_good_def)
  have "my_irq_handler status dev =
      Some (IRQ_HANDLED, dev', [D_readl REG_IRQ_STATUS] @ rx @ tx @ [D_writel REG_IRQ_STATUS status])"
    using False t(1) unfolding my_irq_handler_def rx_def by simp
  moreover have "ledger R rx = Some R" for R by (simp add: rx_def)
  ultimately show ?thesis using t(2,3) by (simp add: step_good_def ledger_append)
qed

lemma tx_done_good: "nic_ok dev \<Longrightarrow> step_good dev (Some (hw_tx_done i dev, []))"
proof -
  assume ok: "nic_ok dev"
  then obtain ring where ring: "tx_ring (nd_priv dev) = Some ring" by (auto simp: nic_ok_def tx_ok_def)
  have "held (hw_tx_done i dev) = held dev"
    by (intro held_same) (auto simp: hw_tx_done_def ring Let_def tx_ring_held_def tx_desc_held_def
        split: option.splits intro!: tx_held_same)
  moreover have "rx_ok (hw_tx_done i dev)" "p_mmio (nd_priv (hw_tx_done i dev))"
    using ok by (simp_all add: hw_tx_done_def ring nic_ok_def Let_def)
  ultimately show ?thesis using ok hw_tx_done_ok(1) [of dev i] by (simp add: step_good_def nic_ok_def)
qed

lemma rx_done_good:
  assumes ok: "nic_ok dev" and f: "length f \<le> RX_BUFFER_SIZE"
  shows "step_good dev (Some (hw_rx_done i f dev, []))"
proof -
  let ?p = "nd_priv dev"
  from ok obtain ring where ring: "rx_ring ?p = Some ring" "rx_ring_ok ring (rx_head ?p)"
    by (auto simp: nic_ok_def rx_ok_def)
  let ?d = "(ring ! i)\<lparr>rx_buf := map_option (\<lambda>(q, m). (q, f @ drop (length f) m)) (rx_buf (ring ! i)),
      rx_len := of_nat (length f), rx_owned := False, rx_done := True\<rparr>"
  show ?thesis
  proof (cases "i < length ring \<and> rx_owned (ring ! i)")
    case True
    then have "rx_desc_ok (ring ! i)" using ring(2) by (simp add: rx_ring_ok_def)
    with f have d: "rx_desc_ok ?d"
      by (auto simp: rx_desc_ok_def RX_BUFFER_SIZE_def unsigned_of_nat take_bit_nat_eq_self)
    with ring(2) have "rx_ring_ok (ring[i := ?d]) (rx_head ?p)"
      by (auto simp: rx_ring_ok_def dest!: set_update_subset_insert [THEN subsetD])
    moreover have "rx_held (ring[i := ?d]) = rx_held ring"
      using True by (intro rx_held_same) (auto simp: rx_desc_held_def split: option.splits)
    ultimately show ?thesis using ok ring(1) True
      by (auto simp: step_good_def hw_rx_done_def Let_def nic_ok_def rx_ok_def tx_ok_def rx_ring_held_def intro!: held_same)
  next
    case False
    with ring(1) have "hw_rx_done i f dev = dev" by (auto simp: hw_rx_done_def Let_def)
    with ok show ?thesis by (simp add: step_good_def)
  qed
qed

lemma nic_step_good: "nic_ok dev \<Longrightarrow> nic_op_ok op \<Longrightarrow> step_good dev (nic_step op dev)"
proof (cases op)
  case N_open
  assume "nic_ok dev"
  with N_open show ?thesis by (simp add: step_good_def my_open_def nic_ok_def held_def)
next
  case N_stop
  assume "nic_ok dev"
  with N_stop show ?thesis by (simp add: step_good_def my_stop_def stop_begin_def nic_ok_def held_def)
next
  case (N_mtu m)
  assume "nic_ok dev"
  with N_mtu show ?thesis by (simp add: step_good_def my_change_mtu_def nic_ok_def held_def)
qed (simp_all add: xmit_good [unfolded nic_step.simps] irq_good poll_good tx_done_good rx_done_good)

lemma nic_run_good:
  "nic_ok dev \<Longrightarrow> \<forall>op \<in> set ops. nic_op_ok op \<Longrightarrow> step_good dev (nic_run dev ops)"
proof (induction ops arbitrary: dev)
  case Nil
  then show ?case by (simp add: step_good_def)
next
  case (Cons op ops)
  from nic_step_good [of dev op] Cons.prems obtain dev1 as1 where
    s: "nic_step op dev = Some (dev1, as1)" "nic_ok dev1" "ledger (held dev) as1 = Some (held dev1)"
    by (auto simp: step_good_def)
  from Cons.IH [OF s(2)] Cons.prems(2) obtain dev2 as2 where
    "nic_run dev1 ops = Some (dev2, as2)" "nic_ok dev2" "ledger (held dev1) as2 = Some (held dev2)"
    by (auto simp: step_good_def)
  with s show ?case by (simp add: step_good_def ledger_append)
qed

section \<open>Removal\<close>

lemma remove_releases_all:
  assumes ok: "nic_ok dev"
  shows "ledger (held dev) (my_pci_remove up (Some dev)) = Some {#}"
proof -
  define dev' stop where "dev' = (if up then dev\<lparr>nd_stopped := True\<rparr> else dev)"
    and "stop = (if up then [D_stop_queue, D_writel REG_IRQ_MASK 0, D_napi_disable] else [])"
  let ?p = "nd_priv dev"
  have s: "(if up then my_stop dev else (0, dev, [])) = (0, dev', stop)"
    by (simp add: dev'_def stop_def my_stop_def stop_begin_def)
  have p: "nd_priv dev' = ?p" by (simp add: dev'_def)
  from ok obtain tr rr where r: "tx_ring ?p = Some tr" "rx_ring ?p = Some rr" "p_mmio ?p"
    by (auto simp: nic_ok_def tx_ok_def rx_ok_def)
  obtain tr' ta where t: "free_tx_list tr = (tr', ta)" by fastforce
  obtain rr' ra where x: "free_rx_list rr = (rr', ra)" by fastforce
  have tl: "ledger (R + tx_held tr) ta = Some R" for R using ledger_free_tx [of R tr] t by simp
  have xl: "ledger (R + rx_held rr) ra = Some R" for R using ledger_free_rx [of R rr] x by simp
  define B where "B = {#R_pci, R_regions, R_netdev, R_iomap, R_coherent (tx_ring_dma ?p), R_coherent (rx_ring_dma ?p)#}"
  have "my_pci_remove up (Some dev) = stop @ [D_unregister_netdev, D_writel REG_IRQ_MASK 0, D_free_irq (p_irq ?p), D_napi_del] @
      ta @ ra @ [D_coherent_free (rx_ring_dma ?p), D_coherent_free (tx_ring_dma ?p), D_iounmap, D_free_netdev,
        D_release_regions, D_pci_disable]"
    unfolding my_pci_remove_def option.case s using r t x
    by (simp add: p Let_def my_free_pending_tx_def my_free_rx_buffers_def my_free_desc_rings_def free_rx_ring_def free_tx_ring_def)
  moreover have "held dev = {#R_napi, R_irq (p_irq ?p), R_registered#} + (B + rx_held rr + tx_held tr)"
    using r by (simp add: held_def rx_ring_held_def tx_ring_held_def base_held_def B_def add_mset_commute)
  moreover have "ledger R stop = Some R" for R by (simp add: stop_def)
  moreover have "ledger ({#R_napi, R_irq (p_irq ?p), R_registered#} + X)
      [D_unregister_netdev, D_writel REG_IRQ_MASK 0, D_free_irq (p_irq ?p), D_napi_del] = Some X" for X
    by (simp add: add_mset_commute)
  moreover have "ledger B [D_coherent_free (rx_ring_dma ?p), D_coherent_free (tx_ring_dma ?p), D_iounmap, D_free_netdev,
        D_release_regions, D_pci_disable] = Some {#}"
    by (simp add: B_def)
  ultimately show ?thesis by (simp only: ledger_append bind.bind_lunit tl xl)
qed

end
