(* ===== verification/Simple_Life_Props.thy ===== *)
theory Simple_Life_Props
  imports Simple_Run
begin

text \<open>
  The properties of the device's life in \<open>simple_netdev.c\<close>: probe, remove, interrupts, and the
  two places where the receive path and \<open>my_stop\<close> go wrong.
\<close>

section \<open>Probe and remove\<close>

definition probe_demo :: probe_env where
  "probe_demo = \<lparr>pe_enable = 0, pe_regions = 0, pe_mask64 = 0, pe_mask32 = 0, pe_netdev = True, pe_irqno = 11,
     pe_iomap = True, pe_rx_coherent = Some 0x1000, pe_tx_coherent = Some 0x2000,
     pe_buf = (\<lambda>i. Some (of_nat i, replicate RX_BUFFER_SIZE 0)), pe_map = (\<lambda>i. (of_nat (i + 100), False)),
     pe_request_irq = 0, pe_register = 0\<rparr>"

lemma alloc_rx_all:
  "\<forall>j. \<exists>q m a. pe_buf env j = Some (q, m) \<and> pe_map env j = (a, False) \<Longrightarrow> fst (alloc_rx_loop env left i ring) = 0"
proof (induction left arbitrary: i ring)
  case (Suc left)
  obtain q m a where "pe_buf env i = Some (q, m)" "pe_map env i = (a, False)" using Suc.prems by metis
  with Suc.IH [OF Suc.prems, of "Suc i" "ring[i := (ring ! i)\<lparr>rx_buf := Some (q, m), rx_dma_addr := a,
      rx_len := 0, rx_done := False, rx_owned := True\<rparr>]"] show ?case
    by (simp add: case_prod_unfold Let_def)
qed simp

lemma probe_demo_succeeds: "\<exists>dev as. my_pci_probe probe_demo = (0, Some dev, as)"
proof -
  have "fst (alloc_rx_loop probe_demo RX_RING_SIZE 0 ring) = 0" for ring
    by (rule alloc_rx_all) (simp add: probe_demo_def)
  then show ?thesis
    by (simp add: my_pci_probe_def probe_rings_def probe_demo_def Let_def my_alloc_rx_desc_ring_def my_alloc_tx_desc_ring_def
        my_alloc_rx_buffers_def fresh_netdev_def case_prod_unfold)
qed

text \<open>
  Claim C21: whichever step of the probe fails, everything acquired before it has been released
  exactly once, nothing else has been released, and the probe returns an error; when it
  succeeds the driver holds exactly the resources of \<open>held\<close>.
\<close>
theorem probe_all_or_nothing:
  assumes "my_pci_probe env = (r, drvdata, as)"
  shows "(r = 0 \<longleftrightarrow> drvdata \<noteq> None) \<and>
     ledger {#} as = Some (case drvdata of None \<Rightarrow> {#} | Some dev \<Rightarrow> held dev)"
  using my_pci_probe_post [of env] assms by (auto simp: probe_post_def split: option.splits)

text \<open>The interrupt line is refused, after all 64 buffers were allocated.\<close>
theorem probe_all_or_nothing_witness:
  "\<exists>as. my_pci_probe (probe_demo\<lparr>pe_request_irq := -16\<rparr>) = (-16, None, as) \<and> ledger {#} as = Some {#}"
proof -
  have "fst (alloc_rx_loop (probe_demo\<lparr>pe_request_irq := -16\<rparr>) RX_RING_SIZE 0 ring) = 0" for ring
    by (rule alloc_rx_all) (simp add: probe_demo_def)
  then have "\<exists>as. my_pci_probe (probe_demo\<lparr>pe_request_irq := -16\<rparr>) = (-16, None, as)"
    by (simp add: my_pci_probe_def probe_rings_def probe_demo_def Let_def my_alloc_rx_desc_ring_def my_alloc_tx_desc_ring_def
        my_alloc_rx_buffers_def fresh_netdev_def case_prod_unfold)
  then obtain as where "my_pci_probe (probe_demo\<lparr>pe_request_irq := -16\<rparr>) = (-16, None, as)" ..
  from probe_all_or_nothing [OF this] this show ?thesis by auto
qed

text \<open>
  Claim C22: over the whole life of the device, with any sequence of transmissions, interrupts,
  polls, opens, stops and device completions between a successful probe and the removal, no
  step is undefined and every resource is released exactly once: the account ends empty. It
  has the packets the stack handed over (freed on completion, at once when the mapping fails,
  or by the removal while they are pending) with their mappings, the receive buffers with
  theirs, the two rings, the interrupt, NAPI and the registrations of the device.
\<close>
theorem driver_lifecycle:
  assumes "probe_env_ok env" "my_pci_probe env = (0, Some dev, as0)" "\<forall>op \<in> set ops. nic_op_ok op"
  shows "\<exists>dev' as1. nic_run dev ops = Some (dev', as1) \<and>
     ledger {#} (as0 @ as1 @ my_pci_remove up (Some dev')) = Some {#}"
proof -
  from my_pci_probe_post [of env] assms(1,2) have p: "ledger {#} as0 = Some (held dev)" "nic_ok dev"
    by (simp_all add: probe_post_def)
  from nic_run_good [OF p(2) assms(3)] obtain dev' as1 where
    r: "nic_run dev ops = Some (dev', as1)" "nic_ok dev'" "ledger (held dev) as1 = Some (held dev')"
    by (auto simp: step_good_def)
  with p(1) remove_releases_all [OF r(2)] show ?thesis by (simp add: ledger_append)
qed

text \<open>The packet is still pending when the device is removed.\<close>
theorem driver_lifecycle_witness:
  "\<exists>dev as0 dev' as1. my_pci_probe probe_demo = (0, Some dev, as0) \<and>
     nic_run dev [N_open, N_xmit 5 False (skb_demo 1), N_rx_done 0 [1, 2], N_irq 3, N_poll (\<lambda>_. True) True 64] = Some (dev', as1) \<and>
     ledger {#} (as0 @ as1 @ my_pci_remove True (Some dev')) = Some {#}"
proof -
  obtain dev as0 where p: "my_pci_probe probe_demo = (0, Some dev, as0)" using probe_demo_succeeds by blast
  have e: "probe_env_ok probe_demo" by (simp add: probe_env_ok_def probe_demo_def)
  have o: "\<forall>op \<in> set [N_open, N_xmit 5 False (skb_demo 1), N_rx_done 0 [1, 2], N_irq 3, N_poll (\<lambda>_. True) True 64]. nic_op_ok op"
    by (simp add: RX_BUFFER_SIZE_def)
  from driver_lifecycle [OF e p o] p show ?thesis by blast
qed

section \<open>Interrupts\<close>

lemma tx_clean_loop_writes:
  "tx_clean_loop h ring c = Some (ring', c', as) \<Longrightarrow> writes r as = []"
proof (induction h ring c arbitrary: ring' c' as rule: tx_clean_loop.induct)
  case (1 h ring c)
  from 1(2) show ?case
    by (subst (asm) tx_clean_loop.simps)
       (auto simp: Let_def split: if_splits option.splits dest!: 1(1) [OF _ _ refl])
qed

lemma my_tx_clean_writes: "my_tx_clean dev = Some (dev', as) \<Longrightarrow> writes r as = []"
  by (auto simp: my_tx_clean_def Let_def split: option.splits if_splits prod.splits dest: tx_clean_loop_writes)

definition schedules :: "drv_act list \<Rightarrow> drv_act list" where
  "schedules as = filter (\<lambda>x. x = D_napi_schedule) as"

lemma tx_clean_loop_schedules:
  "tx_clean_loop h ring c = Some (ring', c', as) \<Longrightarrow> schedules as = []"
proof (induction h ring c arbitrary: ring' c' as rule: tx_clean_loop.induct)
  case (1 h ring c)
  from 1(2) show ?case
    by (subst (asm) tx_clean_loop.simps)
       (auto simp: Let_def schedules_def split: if_splits option.splits dest!: 1(1) [OF _ _ refl])
qed

lemma my_tx_clean_schedules: "my_tx_clean dev = Some (dev', as) \<Longrightarrow> schedules as = []"
  by (auto simp: my_tx_clean_def Let_def schedules_def split: option.splits if_splits prod.splits
      dest: tx_clean_loop_schedules [unfolded schedules_def])

text \<open>
  Claim C23: the interrupt handler answers \<open>IRQ_NONE\<close> and touches nothing when no status bit is
  set; otherwise it acknowledges exactly the bits it read, after everything else. It schedules
  the poll exactly when the receive bit is set, and then once, and it masks the receive
  interrupt (leaving the transmit one) exactly then: the log opens with the read of the status,
  the mask and the schedule, in this order, and has no other mask or schedule. It cleans the
  transmit ring exactly when the transmit bit is set, whatever the receive bit is.
\<close>
theorem irq_handler_protocol:
  assumes "tx_ok dev"
  shows "\<exists>r dev' as. my_irq_handler status dev = Some (r, dev', as) \<and> tx_ok dev' \<and>
     (if status = 0 then r = IRQ_NONE \<and> dev' = dev \<and> as = [D_readl REG_IRQ_STATUS]
      else r = IRQ_HANDLED \<and> last as = D_writel REG_IRQ_STATUS status \<and> writes REG_IRQ_STATUS as = [status] \<and>
        writes REG_IRQ_MASK as = (if status AND IRQ_RX \<noteq> 0 then [IRQ_TX] else []) \<and>
        (D_napi_schedule \<in> set as \<longleftrightarrow> status AND IRQ_RX \<noteq> 0) \<and>
        length (schedules as) = (if status AND IRQ_RX \<noteq> 0 then 1 else 0) \<and>
        (status AND IRQ_RX \<noteq> 0 \<longrightarrow> take 3 as = [D_readl REG_IRQ_STATUS, D_writel REG_IRQ_MASK IRQ_TX, D_napi_schedule]) \<and>
        (if status AND IRQ_TX \<noteq> 0 then \<exists>tx. my_tx_clean dev = Some (dev', tx) \<and> tx_inflight dev = freed as @ tx_inflight dev'
         else dev' = dev))"
proof (cases "status = 0")
  case True
  with assms show ?thesis by (simp add: my_irq_handler_def)
next
  case False
  define rx where "rx = (if status AND IRQ_RX \<noteq> 0 then [D_writel REG_IRQ_MASK IRQ_TX, D_napi_schedule] else [])"
  obtain dev' tx where t: "(if status AND IRQ_TX \<noteq> 0 then my_tx_clean dev else Some (dev, [])) = Some (dev', tx)"
    "tx_ok dev'" "status AND IRQ_TX \<noteq> 0 \<longrightarrow> tx_inflight dev = freed tx @ tx_inflight dev'"
    using my_tx_clean_ok [OF assms] assms by (cases "status AND IRQ_TX = 0") auto
  have w: "writes r tx = []" for r using t(1) my_tx_clean_writes by (auto split: if_splits)
  have n: "schedules tx = []" using t(1) my_tx_clean_schedules by (auto simp: schedules_def split: if_splits)
  then have nt: "D_napi_schedule \<notin> set tx" by (auto simp: schedules_def filter_empty_conv)
  define L where "L = [D_readl REG_IRQ_STATUS] @ rx @ tx @ [D_writel REG_IRQ_STATUS status]"
  have x: "my_irq_handler status dev = Some (IRQ_HANDLED, dev', L)"
    using False t(1) unfolding my_irq_handler_def rx_def L_def by simp
  have l: "last L = D_writel REG_IRQ_STATUS status" "writes REG_IRQ_STATUS L = [status]"
    "writes REG_IRQ_MASK L = (if status AND IRQ_RX \<noteq> 0 then [IRQ_TX] else [])"
    "D_napi_schedule \<in> set L \<longleftrightarrow> status AND IRQ_RX \<noteq> 0" "length (schedules L) = (if status AND IRQ_RX \<noteq> 0 then 1 else 0)"
    "status AND IRQ_RX \<noteq> 0 \<longrightarrow> take 3 L = [D_readl REG_IRQ_STATUS, D_writel REG_IRQ_MASK IRQ_TX, D_napi_schedule]"
    "freed L = freed tx"
    using n nt by (simp_all add: L_def rx_def w REG_IRQ_STATUS_def REG_IRQ_MASK_def schedules_def)
  show ?thesis using x t l False by (cases "status AND IRQ_TX = 0") auto
qed

theorem irq_handler_protocol_witness:
  "\<exists>r dev' as. my_irq_handler 2 full_demo = Some (r, dev', as) \<and> tx_ok dev' \<and> writes REG_IRQ_MASK as = [] \<and>
     D_napi_schedule \<notin> set as \<and> my_tx_clean full_demo \<noteq> None"
  using irq_handler_protocol [OF full_demo_ok, of 2] by (auto simp: IRQ_RX_def IRQ_TX_def)

text \<open>
  \<open>my_stop\<close> masks the interrupts before it waits for the poll; a poll that ends in that
  window below its budget unmasks them again, so the stopped device is left with both
  interrupts enabled, whereas without such a poll the last mask written is 0.
\<close>
theorem stop_race_unmasks:
  assumes "stop_begin dev = (dev1, as1)" "my_poll alloc True budget dev1 = Some (n, dev2, as2)" "n < budget"
  shows "last (writes REG_IRQ_MASK (as1 @ as2 @ [D_napi_disable])) = IRQ_RX OR IRQ_TX \<and>
     (\<exists>as. my_stop dev = (0, dev1, as) \<and> last (writes REG_IRQ_MASK as) = 0)"
proof -
  from assms(2,3) obtain as where "as2 = as @ [D_napi_complete n, D_writel REG_IRQ_MASK (IRQ_RX OR IRQ_TX)]"
    by (auto simp: my_poll_def Let_def split: option.splits if_splits prod.splits)
  with assms(1) show ?thesis by (auto simp: stop_begin_def my_stop_def)
qed

theorem stop_race_unmasks_witness:
  "\<exists>dev1 as1 dev2 as2. stop_begin nic_demo = (dev1, as1) \<and> my_poll (\<lambda>_. True) True 64 dev1 = Some (0, dev2, as2) \<and>
     last (writes REG_IRQ_MASK (as1 @ as2 @ [D_napi_disable])) = IRQ_RX OR IRQ_TX"
proof -
  let ?dev1 = "nic_demo\<lparr>nd_stopped := True\<rparr>"
  have s: "stop_begin nic_demo = (?dev1, [D_stop_queue, D_writel REG_IRQ_MASK 0])"
    by (simp add: stop_begin_def)
  have "poll_loop alloc (Suc left) w (replicate 64 rx_desc_demo) 0 = Some (replicate 64 rx_desc_demo, 0, w, [])" for alloc left w
    by (simp add: rx_desc_demo_def Let_def)
  then have "poll_loop alloc 64 w (replicate 64 rx_desc_demo) 0 = Some (replicate 64 rx_desc_demo, 0, w, [])" for alloc w
    by (metis numeral_Bit0 Suc_numeral eval_nat_numeral(2) semiring_norm(26) semiring_norm(27))
  then obtain dev2 as2 where p: "my_poll (\<lambda>_. True) True 64 ?dev1 = Some (0, dev2, as2)"
    by (simp add: my_poll_def nic_demo_def Let_def)
  from stop_race_unmasks [OF s p] s p show ?thesis by auto
qed

section \<open>The length the device reports\<close>

text \<open>
  The copy in \<open>my_poll\<close> trusts the length the device wrote into the descriptor: when
  the descriptor at \<open>rx_head\<close> is ready with a length above the 2048 bytes of its buffer and an
  skb of that length is allocated, the poll reads past the end of the buffer.
\<close>
theorem poll_overread:
  assumes "rx_ring (nd_priv dev) = Some ring" "rx_head (nd_priv dev) < length ring"
    "d = ring ! rx_head (nd_priv dev)" "rx_ready d" "rx_buf d = Some (q, m)" "length m = RX_BUFFER_SIZE"
    "RX_BUFFER_SIZE < unat (rx_len d)" "alloc 0" "0 < budget"
  shows "my_poll alloc complete budget dev = None"
proof -
  from assms(9) obtain left where "nat budget = Suc left" by (cases "nat budget") auto
  with assms show ?thesis by (simp add: my_poll_def rx_deliver_def rx_ready_def Let_def)
qed

theorem poll_overread_witness:
  "my_poll (\<lambda>_. True) True 64 (nic_demo\<lparr>nd_priv := (nd_priv nic_demo)\<lparr>rx_ring :=
     Some [rx_desc_demo\<lparr>rx_len := 4000, rx_owned := False, rx_done := True\<rparr>]\<rparr>\<rparr>) = None"
  by (rule poll_overread [where q = 7 and m = "replicate 2048 0" and
        ring = "[rx_desc_demo\<lparr>rx_len := 4000, rx_owned := False, rx_done := True\<rparr>]", OF _ _ refl])
    (simp_all add: nic_demo_def rx_desc_demo_def rx_ready_def RX_BUFFER_SIZE_def)

end
