(* ===== verification/Firewall.thy ===== *)
theory Firewall
  imports Prelude
begin

text \<open>
  The netfilter module \<open>netfilter/mac_firewall.c\<close>: the packet hook with its three rules, and
  the module's load and unload.  Header fields in network byte order are the 16- and 32-bit
  values a little-endian processor loads from the bytes of the packet.
\<close>

section \<open>Packets\<close>

definition load_be16 :: "u8 \<Rightarrow> u8 \<Rightarrow> u16" where
  "load_be16 b0 b1 = (ucast b0 :: u16) OR push_bit 8 (ucast b1)"

definition load_be32 :: "u8 \<Rightarrow> u8 \<Rightarrow> u8 \<Rightarrow> u8 \<Rightarrow> u32" where
  "load_be32 b0 b1 b2 b3 = (ucast b0 :: u32) OR push_bit 8 (ucast b1) OR push_bit 16 (ucast b2) OR push_bit 24 (ucast b3)"

definition ntohs :: "u16 \<Rightarrow> u16" where
  "ntohs x = push_bit 8 x OR drop_bit 8 x"

text \<open>Headers an \<open>skb\<close> points to; a pointer is \<open>None\<close> for \<open>NULL\<close>.\<close>

record ethhdr =
  h_dest :: "u8 list"
  h_source :: "u8 list"

record iphdr =
  saddr :: u32
  daddr :: u32
  protocol :: u8

record porthdr =
  source :: u16
  dest :: u16

record packet =
  eth_hdr :: "ethhdr option"
  ip_hdr :: "iphdr option"
  tcp_hdr :: "porthdr option"
  udp_hdr :: "porthdr option"

datatype verdict = NF_ACCEPT | NF_DROP

definition IPPROTO_TCP :: u8 where "IPPROTO_TCP = 6"
definition IPPROTO_UDP :: u8 where "IPPROTO_UDP = 17"

section \<open>The hook\<close>

definition blocked_macs :: "u8 list list" where
  "blocked_macs = [[0xAA, 0xBB, 0xCC, 0xDD, 0xEE, 0xFF], [0x11, 0x22, 0x33, 0x44, 0x55, 0x66],
     [0xDE, 0xAD, 0xBE, 0xEF, 0x00, 0x01]]"

fun is_mac_blocked_from :: "u8 list list \<Rightarrow> u8 list \<Rightarrow> bool" where
  "is_mac_blocked_from [] mac = False"
| "is_mac_blocked_from (m # ms) mac = (if mac = m then True else is_mac_blocked_from ms mac)"

definition is_mac_blocked :: "u8 list \<Rightarrow> bool" where
  "is_mac_blocked mac = is_mac_blocked_from blocked_macs mac"

text \<open>\<open>blocked_ip\<close> is the module's static variable.\<close>

definition mac_firewall_hook :: "u32 \<Rightarrow> packet option \<Rightarrow> verdict" where
  "mac_firewall_hook blocked_ip skb =
     (case skb of None \<Rightarrow> NF_ACCEPT
      | Some pkt \<Rightarrow>
     (case eth_hdr pkt of None \<Rightarrow> NF_ACCEPT
      | Some eth \<Rightarrow>
        if is_mac_blocked (h_source eth) then NF_DROP
        else
     (case ip_hdr pkt of None \<Rightarrow> NF_ACCEPT
      | Some iph \<Rightarrow>
        if saddr iph = blocked_ip then NF_DROP
        else if protocol iph = IPPROTO_TCP then
          (case tcp_hdr pkt of None \<Rightarrow> NF_ACCEPT
           | Some tcph \<Rightarrow> if ntohs (dest tcph) = 5001 then NF_DROP else NF_ACCEPT)
        else if protocol iph = IPPROTO_UDP then
          (case udp_hdr pkt of None \<Rightarrow> NF_ACCEPT | Some udph \<Rightarrow> NF_ACCEPT)
        else NF_ACCEPT)))"

section \<open>Load and unload\<close>

text \<open>The module's state: its variable and whether its hook is in the kernel's table.\<close>

record fw_module =
  fw_blocked_ip :: u32
  fw_hooked :: bool

text \<open>\<open>in_aton\<close> and the result of \<open>nf_register_net_hook\<close> are the kernel's.\<close>

definition mac_firewall_init :: "(string \<Rightarrow> u32) \<Rightarrow> int \<Rightarrow> fw_module \<Rightarrow> int \<times> fw_module" where
  "mac_firewall_init in_aton reg fw =
     (let fw = fw\<lparr>fw_blocked_ip := in_aton ''10.10.3.60''\<rparr>
      in if reg \<noteq> 0 then (reg, fw) else (0, fw\<lparr>fw_hooked := True\<rparr>))"

definition mac_firewall_exit :: "fw_module \<Rightarrow> fw_module" where
  "mac_firewall_exit fw = fw\<lparr>fw_hooked := False\<rparr>"

text \<open>What happens to a packet that arrives: the hook decides only while it is registered.\<close>

definition fw_deliver :: "fw_module \<Rightarrow> packet option \<Rightarrow> verdict" where
  "fw_deliver fw skb = (if fw_hooked fw then mac_firewall_hook (fw_blocked_ip fw) skb else NF_ACCEPT)"

section \<open>Lemmas\<close>

lemma is_mac_blocked_iff: "is_mac_blocked mac \<longleftrightarrow> mac \<in> set blocked_macs"
proof -
  have "is_mac_blocked_from ms mac \<longleftrightarrow> mac \<in> set ms" for ms by (induction ms) auto
  then show ?thesis by (simp add: is_mac_blocked_def)
qed

lemma ntohs_load: "ntohs (load_be16 b0 b1) = push_bit 8 (ucast b0) OR ucast b1"
  by (rule bit_word_eqI)
     (auto simp: ntohs_def load_be16_def bit_simps dest: bit_imp_le_length)

lemma ntohs_load_eq:
  "ntohs (load_be16 b0 b1) = push_bit 8 (ucast c0) OR ucast c1 \<longleftrightarrow> b0 = c0 \<and> b1 = c1"
proof
  assume "ntohs (load_be16 b0 b1) = push_bit 8 (ucast c0) OR ucast c1"
  then have e: "push_bit 8 (ucast b0 :: u16) OR ucast b1 = push_bit 8 (ucast c0) OR ucast c1" by (simp add: ntohs_load)
  have "bit b0 n = bit c0 n" if "n < 8" for n
    using arg_cong [OF e, of "\<lambda>w. bit w (n + 8)"] that by (auto simp: bit_simps dest: bit_imp_le_length)
  moreover have "bit b1 n = bit c1 n" if "n < 8" for n
    using arg_cong [OF e, of "\<lambda>w. bit w n"] that by (auto simp: bit_simps dest: bit_imp_le_length)
  ultimately show "b0 = c0 \<and> b1 = c1" by (auto intro!: bit_word_eqI)
qed (simp add: ntohs_load)

text \<open>Port 5001 is the two bytes \<open>0x13 0x89\<close>.\<close>

lemma port_5001: "ntohs (load_be16 b0 b1) = 5001 \<longleftrightarrow> b0 = 0x13 \<and> b1 = 0x89"
proof -
  have "(push_bit 8 (ucast (0x13 :: u8)) OR ucast (0x89 :: u8) :: u16) = 5001" by simp
  with ntohs_load_eq [of b0 b1 "0x13" "0x89"] show ?thesis by simp
qed

section \<open>Property\<close>

text \<open>
  Claim C24: once loaded, the module drops a packet exactly when its source MAC is one of the
  three blocked addresses, or its IPv4 source is 10.10.3.60, or it is TCP and the two bytes of
  its destination port are those of 5001; every other packet is accepted, and nothing is
  dropped before a successful load or after the unload.
\<close>
theorem firewall_decision:
  assumes aton: "in_aton ''10.10.3.60'' = load_be32 10 10 3 60"
    and init: "mac_firewall_init in_aton reg \<lparr>fw_blocked_ip = 0, fw_hooked = False\<rparr> = (r, fw)"
    and pkt: "eth_hdr pkt = Some eth" "ip_hdr pkt = Some iph" "tcp_hdr pkt = Some tcph" "udp_hdr pkt = udph"
    and wire: "dest tcph = load_be16 p0 p1"
  shows "(fw_deliver fw (Some pkt) = NF_DROP \<longleftrightarrow> reg = 0 \<and>
            (h_source eth \<in> set blocked_macs \<or> saddr iph = load_be32 10 10 3 60 \<or>
             protocol iph = IPPROTO_TCP \<and> p0 = 0x13 \<and> p1 = 0x89)) \<and>
     fw_deliver (mac_firewall_exit fw) (Some pkt) = NF_ACCEPT \<and> (r = 0 \<longleftrightarrow> fw_hooked fw)"
proof -
  have fw: "fw_blocked_ip fw = load_be32 10 10 3 60" "fw_hooked fw = (reg = 0)" "r = reg"
    using init aton by (auto simp: mac_firewall_init_def Let_def split: if_splits)
  have "mac_firewall_hook ip (Some pkt) = NF_DROP \<longleftrightarrow>
      h_source eth \<in> set blocked_macs \<or> saddr iph = ip \<or> protocol iph = IPPROTO_TCP \<and> p0 = 0x13 \<and> p1 = 0x89" for ip
    using pkt wire by (auto simp: mac_firewall_hook_def is_mac_blocked_iff port_5001 split: option.splits)
  with fw show ?thesis by (simp add: fw_deliver_def mac_firewall_exit_def)
qed

definition in_aton_demo :: "string \<Rightarrow> u32" where
  "in_aton_demo s = (if s = ''10.10.3.60'' then load_be32 10 10 3 60 else 0)"

definition packet_demo :: packet where
  "packet_demo = \<lparr>eth_hdr = Some \<lparr>h_dest = [1, 2, 3, 4, 5, 6], h_source = [2, 2, 2, 2, 2, 2]\<rparr>,
     ip_hdr = Some \<lparr>saddr = load_be32 192 168 0 1, daddr = 0, protocol = 6\<rparr>,
     tcp_hdr = Some \<lparr>source = 0, dest = load_be16 0x13 0x89\<rparr>, udp_hdr = None\<rparr>"

theorem firewall_decision_witness:
  "fw_deliver (snd (mac_firewall_init in_aton_demo 0 \<lparr>fw_blocked_ip = 0, fw_hooked = False\<rparr>)) (Some packet_demo) = NF_DROP"
proof -
  have a: "in_aton_demo ''10.10.3.60'' = load_be32 10 10 3 60" by (simp add: in_aton_demo_def)
  have i: "mac_firewall_init in_aton_demo 0 \<lparr>fw_blocked_ip = 0, fw_hooked = False\<rparr>
      = (0, \<lparr>fw_blocked_ip = load_be32 10 10 3 60, fw_hooked = True\<rparr>)"
    by (simp add: mac_firewall_init_def in_aton_demo_def)
  from firewall_decision [OF a i, of packet_demo] i show ?thesis
    by (simp add: packet_demo_def IPPROTO_TCP_def)
qed

end
