(* ===== verification/Chat_Text.thy ===== *)
theory Chat_Text
  imports Prelude "HOL-Library.Char_ord"
begin

text \<open>
  The part of the C library the chat programs parse and print with: C strings, \<open>%d\<close> in both
  directions, \<open>strtol\<close>, the \<open>sscanf\<close> formats they use as lists of directives, and \<open>fgets\<close> on a
  file's contents.  A C string is the list of its characters before the terminating \<open>NUL\<close>.
\<close>

section \<open>Characters\<close>

abbreviation NUL :: char where "NUL \<equiv> CHR 0x00"
abbreviation NL :: char where "NL \<equiv> CHR 0x0A"
abbreviation CR :: char where "CR \<equiv> CHR 0x0D"
abbreviation BAR :: char where "BAR \<equiv> CHR ''|''"

definition cstr :: "string \<Rightarrow> string" where
  "cstr s = takeWhile (\<lambda>c. c \<noteq> NUL) s"

definition is_digit :: "char \<Rightarrow> bool" where
  "is_digit c \<longleftrightarrow> CHR ''0'' \<le> c \<and> c \<le> CHR ''9''"

definition digit_val :: "char \<Rightarrow> nat" where
  "digit_val c = of_char c - 48"

definition digit_chr :: "nat \<Rightarrow> char" where
  "digit_chr d = char_of (48 + d)"

text \<open>\<open>isspace\<close> in the C locale.\<close>

definition is_space :: "char \<Rightarrow> bool" where
  "is_space c \<longleftrightarrow> c = CHR '' '' \<or> CHR 0x09 \<le> c \<and> c \<le> CHR 0x0D"

section \<open>Printing integers\<close>

fun dec_nat :: "nat \<Rightarrow> string" where
  "dec_nat n = (if n < 10 then [digit_chr n] else dec_nat (n div 10) @ [digit_chr (n mod 10)])"

declare dec_nat.simps [simp del]

definition dec :: "int \<Rightarrow> string" where
  "dec i = (if i < 0 then CHR ''-'' # dec_nat (nat (- i)) else dec_nat (nat i))"

section \<open>Scanning integers\<close>

definition num_val :: "string \<Rightarrow> nat" where
  "num_val ds = foldl (\<lambda>v c. 10 * v + digit_val c) 0 ds"

text \<open>
  Clamped to \<open>long\<close> as \<open>strtol\<close> does, and cut to \<open>int\<close> as \<open>%d\<close> does.  Where the code adds to an \<open>int\<close>
  (the next user's number) C leaves an overflow undefined; \<open>to_int\<close> is the identity there under
  \<open>users_ok\<close>, which the reachable states keep.
\<close>

definition clamp_long :: "int \<Rightarrow> int" where
  "clamp_long x = max (- (2 ^ 63)) (min (2 ^ 63 - 1) x)"

definition to_int :: "int \<Rightarrow> int" where
  "to_int x = signed_take_bit 31 x"

definition int_range :: "int \<Rightarrow> bool" where
  "int_range x \<longleftrightarrow> - (2 ^ 31) \<le> x \<and> x < 2 ^ 31"

definition long_range :: "int \<Rightarrow> bool" where
  "long_range x \<longleftrightarrow> - (2 ^ 63) \<le> x \<and> x < 2 ^ 63"

text \<open>White space, an optional sign and at least one digit; the value and the rest of the text.\<close>

definition scan_long :: "string \<Rightarrow> (int \<times> string) option" where
  "scan_long s =
     (let s1 = dropWhile is_space s;
          (neg, s2) = (case s1 of c # r \<Rightarrow> if c = CHR ''-'' then (True, r) else if c = CHR ''+'' then (False, r)
                        else (False, s1) | [] \<Rightarrow> (False, []));
          ds = takeWhile is_digit s2
      in if ds = [] then None
         else Some (clamp_long (if neg then - int (num_val ds) else int (num_val ds)), dropWhile is_digit s2))"

section \<open>\<open>sscanf\<close>\<close>

datatype directive =
    S_d                            \<comment> \<open>\<open>%d\<close>\<close>
  | S_ld                           \<comment> \<open>\<open>%ld\<close>\<close>
  | S_c                            \<comment> \<open>\<open>%c\<close>\<close>
  | S_s nat                        \<comment> \<open>\<open>%31s\<close>\<close>
  | S_until nat char               \<comment> \<open>\<open>%31[^|]\<close>\<close>
  | S_lit char
  | S_space

datatype scan_arg = A_int int | A_str string

fun sscanf :: "directive list \<Rightarrow> string \<Rightarrow> scan_arg list" where
  "sscanf [] s = []"
| "sscanf (S_d # ds) s =
     (case scan_long s of None \<Rightarrow> [] | Some (v, r) \<Rightarrow> A_int (to_int v) # sscanf ds r)"
| "sscanf (S_ld # ds) s =
     (case scan_long s of None \<Rightarrow> [] | Some (v, r) \<Rightarrow> A_int v # sscanf ds r)"
| "sscanf (S_c # ds) s = (case s of [] \<Rightarrow> [] | c # r \<Rightarrow> A_str [c] # sscanf ds r)"
| "sscanf (S_s n # ds) s =
     (let s1 = dropWhile is_space s; w = take n (takeWhile (\<lambda>c. \<not> is_space c) s1)
      in if w = [] then [] else A_str w # sscanf ds (drop (length w) s1))"
| "sscanf (S_until n x # ds) s =
     (let w = take n (takeWhile (\<lambda>c. c \<noteq> x) s)
      in if w = [] then [] else A_str w # sscanf ds (drop (length w) s))"
| "sscanf (S_lit c # ds) s = (case s of [] \<Rightarrow> [] | x # r \<Rightarrow> if x = c then sscanf ds r else [])"
| "sscanf (S_space # ds) s = sscanf ds (dropWhile is_space s)"

lemmas sscanf_convs = sscanf.simps(2,3,5,6)
declare sscanf_convs [simp del]

section \<open>\<open>fgets\<close>\<close>

text \<open>
  \<open>fgets_lines n f\<close> is what successive calls with a buffer of \<open>n\<close> bytes return until the end of
  the file: pieces of at most \<open>n - 1\<close> characters that end at a newline when one is reached.
\<close>

definition fgets_one :: "nat \<Rightarrow> string \<Rightarrow> string \<times> string" where
  "fgets_one n f =
     (let w = takeWhile (\<lambda>c. c \<noteq> NL) f
      in if length w < n - 1 then (if length w < length f then (w @ [NL], drop (Suc (length w)) f) else (w, []))
         else (take (n - 1) f, drop (n - 1) f))"

lemma fgets_one_shorter:
  "f \<noteq> [] \<Longrightarrow> 1 < n \<Longrightarrow> length (snd (fgets_one n f)) < length f"
  by (cases f) (auto simp: fgets_one_def Let_def)

function fgets_lines :: "nat \<Rightarrow> string \<Rightarrow> string list" where
  "fgets_lines n f = (if f = [] \<or> n \<le> 1 then [] else fst (fgets_one n f) # fgets_lines n (snd (fgets_one n f)))"
  by pat_completeness auto
termination
  by (relation "measure (\<lambda>(n, f). length f)") (auto intro: fgets_one_shorter)

declare fgets_lines.simps [simp del]

section \<open>Round trips\<close>

lemma digit_chr_facts:
  assumes "d < 10"
  shows "is_digit (digit_chr d)" "digit_val (digit_chr d) = d"
proof -
  have "d \<in> {0..<10}" using assms by simp
  then have "d \<in> set [0..<10]" by simp
  then have "is_digit (digit_chr d) \<and> digit_val (digit_chr d) = d"
    by (simp add: upt_rec [of 0] is_digit_def digit_chr_def digit_val_def less_eq_char_def)
       (elim disjE; simp)
  then show "is_digit (digit_chr d)" "digit_val (digit_chr d) = d" by simp_all
qed

lemma num_val_snoc [simp]: "num_val (ds @ [c]) = 10 * num_val ds + digit_val c"
  by (simp add: num_val_def)

lemma num_val_Nil [simp]: "num_val [] = 0"
  by (simp add: num_val_def)

lemma dec_nat_facts: "list_all is_digit (dec_nat n) \<and> dec_nat n \<noteq> [] \<and> num_val (dec_nat n) = n"
proof (induction n rule: dec_nat.induct)
  case (1 n)
  show ?case
  proof (cases "n < 10")
    case True
    then have "dec_nat n = [digit_chr n]" by (simp add: dec_nat.simps)
    with True show ?thesis
      using num_val_snoc [of "[]" "digit_chr n"] by (simp add: digit_chr_facts)
  next
    case False
    then have e: "dec_nat n = dec_nat (n div 10) @ [digit_chr (n mod 10)]" by (subst dec_nat.simps) simp
    have "n mod 10 < 10" by simp
    with 1 [OF False] show ?thesis unfolding e by (simp add: digit_chr_facts)
  qed
qed

lemma not_space_digit: "is_digit c \<Longrightarrow> \<not> is_space c" "is_digit c \<Longrightarrow> c \<noteq> CHR ''-''" "is_digit c \<Longrightarrow> c \<noteq> CHR ''+''"
  by (auto simp: is_digit_def is_space_def less_eq_char_def)

lemma clamp_long_id [simp]: "long_range x \<Longrightarrow> clamp_long x = x"
  by (simp add: clamp_long_def long_range_def)

lemma to_int_id [simp]: "int_range x \<Longrightarrow> to_int x = x"
  by (simp add: to_int_def int_range_def signed_take_bit_int_eq_self)

lemma int_range_long: "int_range x \<Longrightarrow> long_range x"
  by (simp add: int_range_def long_range_def)

lemma scan_digits:
  "list_all is_digit ds \<Longrightarrow> (r = [] \<or> \<not> is_digit (hd r)) \<Longrightarrow>
   takeWhile is_digit (ds @ r) = ds \<and> dropWhile is_digit (ds @ r) = r"
  by (induction ds) (cases r; simp)+

lemma scan_long_dec:
  assumes r: "r = [] \<or> \<not> is_digit (hd r)" and x: "long_range x"
  shows "scan_long (dec x @ r) = Some (x, r)"
proof (cases "x < 0")
  case True
  let ?ds = "dec_nat (nat (- x))"
  have "dropWhile is_space (CHR ''-'' # ?ds @ r) = CHR ''-'' # ?ds @ r" by (simp add: is_space_def less_eq_char_def)
  with scan_digits [OF conjunct1 [OF dec_nat_facts] r, of "nat (- x)"] dec_nat_facts [of "nat (- x)"] True x
  show ?thesis by (simp add: scan_long_def dec_def Let_def)
next
  case False
  let ?ds = "dec_nat (nat x)"
  obtain c cs where c: "?ds = c # cs" "is_digit c" using dec_nat_facts [of "nat x"] by (cases ?ds) auto
  then have "dropWhile is_space (?ds @ r) = ?ds @ r" by (simp add: not_space_digit)
  with scan_digits [OF conjunct1 [OF dec_nat_facts] r, of "nat x"] dec_nat_facts [of "nat x"] False x c
  show ?thesis by (simp add: scan_long_def dec_def Let_def not_space_digit)
qed

lemma scan_S_d [simp]:
  "r = [] \<or> \<not> is_digit (hd r) \<Longrightarrow> int_range x \<Longrightarrow> sscanf (S_d # ds) (dec x @ r) = A_int x # sscanf ds r"
  by (simp add: scan_long_dec int_range_long sscanf_convs)

lemma scan_S_ld [simp]:
  "r = [] \<or> \<not> is_digit (hd r) \<Longrightarrow> long_range x \<Longrightarrow> sscanf (S_ld # ds) (dec x @ r) = A_int x # sscanf ds r"
  by (simp add: scan_long_dec sscanf_convs)

lemma scan_S_until:
  "w \<noteq> [] \<Longrightarrow> length w \<le> n \<Longrightarrow> x \<notin> set w \<Longrightarrow> r = [] \<or> hd r = x \<Longrightarrow>
   sscanf (S_until n x # ds) (w @ r) = A_str w # sscanf ds r"
proof -
  assume a: "w \<noteq> []" "length w \<le> n" "x \<notin> set w" "r = [] \<or> hd r = x"
  have "takeWhile (\<lambda>c. c \<noteq> x) (w @ r) = w" using a(3,4) by (cases r) (auto simp: takeWhile_append)
  with a show ?thesis by (simp add: sscanf_convs)
qed

text \<open>Reading a file that was written as short lines gives the lines back.\<close>

lemma fgets_lines_concat:
  "\<forall>l \<in> set ls. NL \<notin> set l \<and> length l + 1 < n \<Longrightarrow> fgets_lines n (concat (map (\<lambda>l. l @ [NL]) ls)) = map (\<lambda>l. l @ [NL]) ls"
proof (induction ls)
  case Nil
  then show ?case by (simp add: fgets_lines.simps)
next
  case (Cons l ls)
  let ?f = "concat (map (\<lambda>l. l @ [NL]) ls)"
  have len: "length l < n - 1" using Cons.prems by auto
  have "takeWhile (\<lambda>c. c \<noteq> NL) (l @ NL # ?f) = l" using Cons.prems by (simp add: takeWhile_append)
  then have "fgets_one n (l @ NL # ?f) = (l @ [NL], ?f)" using len by (simp add: fgets_one_def Let_def)
  with Cons show ?case by (subst fgets_lines.simps) auto
qed

lemma NL_notin_dec [simp]: "NL \<notin> set (dec x)" and BAR_notin_dec: "BAR \<notin> set (dec x)"
proof -
  have "NL \<notin> set (dec_nat n) \<and> BAR \<notin> set (dec_nat n)" for n
    using dec_nat_facts [of n] by (auto simp: list_all_iff is_digit_def less_eq_char_def)
  then show "NL \<notin> set (dec x)" "BAR \<notin> set (dec x)" by (simp_all add: dec_def)
qed

text \<open>A printed \<open>int\<close> has at most 11 characters, a \<open>long\<close> at most 20.\<close>

lemma length_dec_nat: "n < 10 ^ k \<Longrightarrow> 0 < k \<Longrightarrow> length (dec_nat n) \<le> k"
proof (induction k arbitrary: n)
  case (Suc k)
  show ?case
  proof (cases "n < 10")
    case True
    then show ?thesis by (simp add: dec_nat.simps)
  next
    case False
    then have "n div 10 < 10 ^ k" "0 < k" using Suc.prems by (cases k; simp add: less_mult_imp_div_less mult.commute)+
    with Suc.IH [of "n div 10"] False show ?thesis by (subst dec_nat.simps) simp
  qed
qed simp

lemma length_dec_int: "int_range x \<Longrightarrow> length (dec x) \<le> 11"
  using length_dec_nat [of "nat x" 10] length_dec_nat [of "nat (- x)" 10]
  by (auto simp: dec_def int_range_def nat_less_iff)

lemma length_dec_long: "long_range x \<Longrightarrow> length (dec x) \<le> 20"
  using length_dec_nat [of "nat x" 19] length_dec_nat [of "nat (- x)" 19]
  by (auto simp: dec_def long_range_def nat_less_iff)

end
