(* ===== verification/Chat_Data.thy ===== *)
theory Chat_Data
  imports Chat_Text Posix
begin

text \<open>
  The data of \<open>chat/server.c\<close> and its user database: \<open>send_all\<close>, the lookups, and
  \<open>save_users\<close> and \<open>load_users\<close> with their two file formats.
\<close>

section \<open>Constants and data\<close>

definition MAX_CLIENTS :: nat where "MAX_CLIENTS = 100"
definition MAX_USERS :: nat where "MAX_USERS = 1000"
definition USERNAME_SIZE :: nat where "USERNAME_SIZE = 32"
definition MESSAGE_SIZE :: nat where "MESSAGE_SIZE = 1024"
definition INPUT_BUFFER_SIZE :: nat where "INPUT_BUFFER_SIZE = 4096"

datatype client_mode = MODE_LOGIN | MODE_MENU | MODE_CHAT | MODE_ADMIN

text \<open>The flags are C integers, read with \<open>%d\<close> and tested for being non-zero.\<close>

record user =
  u_id :: int
  u_name :: string
  u_active :: int
  u_is_admin :: int

text \<open>
  \<open>c_input\<close> is the first \<open>input_len\<close> bytes of the input buffer and \<open>c_menu\<close> the first
  \<open>menu_contact_count\<close> contact ids; the rest of both arrays is never read.
\<close>

record chat_client =
  c_fd :: int
  c_active :: bool
  c_logged_in :: bool
  c_user_id :: int
  c_mode :: client_mode
  c_partner :: int
  c_input :: string
  c_menu :: "int list"

datatype srv_act =
    S_send int string        \<comment> \<open>text for a client; a failure of \<open>send\<close> is ignored by every caller\<close>
  | S_epoll_add int
  | S_epoll_del int
  | S_close int

text \<open>The static variables, the two files (\<open>None\<close>: no such file) and what was sent.\<close>

record server =
  s_users :: "user list"
  s_clients :: "chat_client list"
  s_users_file :: "string option"
  s_msgs :: "string option"
  s_out :: "srv_act list"

text \<open>
  What the environment answers while a line is handled: the clock, whether the files can be
  opened, written and renamed, and \<open>%H:%M\<close> of a time.
\<close>

record srv_env =
  e_time :: int
  e_save_ok :: bool
  e_append_ok :: bool
  e_read_ok :: bool
  e_hhmm :: "int \<Rightarrow> string"

definition zero_client :: chat_client where
  "zero_client = \<lparr>c_fd = 0, c_active = False, c_logged_in = False, c_user_id = 0, c_mode = MODE_LOGIN,
     c_partner = 0, c_input = [], c_menu = []\<rparr>"

section \<open>Sending\<close>

text \<open>
  The loop of \<open>send_all\<close> over the kernel's answers, in order; \<open>None\<close> is a call still waiting
  for the next one.  The second component is what reached the socket.
\<close>

fun send_all :: "send_ans list \<Rightarrow> string \<Rightarrow> (int \<times> string) option" where
  "send_all ks buf =
     (if buf = [] then Some (0, [])
      else case ks of [] \<Rightarrow> None
      | Send_err e # ks' \<Rightarrow> if e = EINTR then send_all ks' buf else Some (-1, [])
      | Sent n # ks' \<Rightarrow> map_option (\<lambda>(r, out). (r, take n buf @ out)) (send_all ks' (drop n buf)))"

declare send_all.simps [simp del]

text \<open>\<open>send_text\<close> sends up to the terminator; \<open>send_format\<close> formats into 4096 bytes first.\<close>

definition send_text :: "int \<Rightarrow> string \<Rightarrow> server \<Rightarrow> server" where
  "send_text fd text s = s\<lparr>s_out := s_out s @ [S_send fd (cstr text)]\<rparr>"

definition send_format :: "int \<Rightarrow> string \<Rightarrow> server \<Rightarrow> server" where
  "send_format fd text s = send_text fd (take 4095 (cstr text)) s"

section \<open>Lookups\<close>

definition find_user_index_by_id :: "user list \<Rightarrow> int \<Rightarrow> nat option" where
  "find_user_index_by_id us uid = first_index (\<lambda>u. u_id u = uid) us"

definition find_user_index_by_name :: "user list \<Rightarrow> string \<Rightarrow> nat option" where
  "find_user_index_by_name us nm = first_index (\<lambda>u. u_name u = nm) us"

fun max_id_from :: "int \<Rightarrow> user list \<Rightarrow> int" where
  "max_id_from m [] = m"
| "max_id_from m (u # us) = max_id_from (if u_id u > m then u_id u else m) us"

definition get_max_user_id :: "user list \<Rightarrow> int" where
  "get_max_user_id us = max_id_from 0 us"

definition find_client_by_user_id :: "chat_client list \<Rightarrow> int \<Rightarrow> nat option" where
  "find_client_by_user_id cs uid = first_index (\<lambda>c. c_active c \<and> c_logged_in c \<and> c_user_id c = uid) cs"

definition find_free_client_slot :: "chat_client list \<Rightarrow> nat option" where
  "find_free_client_slot cs = first_index (\<lambda>c. \<not> c_active c) cs"

section \<open>The user database\<close>

definition user_line :: "user \<Rightarrow> string" where
  "user_line u = dec (u_id u) @ [BAR] @ u_name u @ [BAR] @ dec (u_active u) @ [BAR] @ dec (u_is_admin u)"

definition users_text :: "user list \<Rightarrow> string" where
  "users_text us = concat (map (\<lambda>u. user_line u @ [NL]) us)"

definition save_users :: "bool \<Rightarrow> server \<Rightarrow> int \<times> server" where
  "save_users ok s = (if ok then (0, s\<lparr>s_users_file := Some (users_text (s_users s))\<rparr>) else (-1, s))"

definition parse_user_line :: "string \<Rightarrow> user option" where
  "parse_user_line line =
     (case sscanf [S_d, S_lit BAR, S_until 31 BAR, S_lit BAR, S_d, S_lit BAR, S_d] line of
        [A_int i, A_str n, A_int a, A_int ad] \<Rightarrow> Some \<lparr>u_id = i, u_name = n, u_active = a, u_is_admin = ad\<rparr>
      | _ \<Rightarrow>
        (case sscanf [S_d, S_lit BAR, S_s 31] line of
           [A_int i, A_str n] \<Rightarrow>
             Some \<lparr>u_id = i, u_name = n, u_active = 1, u_is_admin = (if n = ''ahmet'' then 1 else 0)\<rparr>
         | _ \<Rightarrow> None))"

fun parse_users :: "user list \<Rightarrow> string list \<Rightarrow> user list" where
  "parse_users us [] = us"
| "parse_users us (line # ls) =
     (if length us \<ge> MAX_USERS then us
      else case parse_user_line (cstr line) of None \<Rightarrow> parse_users us ls
      | Some u \<Rightarrow> parse_users (us @ [u]) ls)"

text \<open>
  \<open>fopen\<close> with mode \<open>a+\<close> creates a missing file.  A new slot of the table is zero, so it does not
  raise the maximum of the ids.
\<close>

definition load_users :: "bool \<Rightarrow> bool \<Rightarrow> server \<Rightarrow> int \<times> server" where
  "load_users open_ok save_ok s =
     (if \<not> open_ok then (-1, s)
      else let file = (case s_users_file s of None \<Rightarrow> [] | Some f \<Rightarrow> f);
               us = parse_users [] (fgets_lines 256 file)
        in case find_user_index_by_name us ''ahmet'' of
             None \<Rightarrow>
               if length us \<ge> MAX_USERS then (-1, s\<lparr>s_users_file := Some file, s_users := us\<rparr>)
               else save_users save_ok (s\<lparr>s_users_file := Some file, s_users := us @
                      [\<lparr>u_id = to_int (get_max_user_id us + 1), u_name = ''ahmet'', u_active = 1, u_is_admin = 1\<rparr>]\<rparr>)
           | Some i \<Rightarrow>
               save_users save_ok (s\<lparr>s_users_file := Some file,
                  s_users := us[i := (us ! i)\<lparr>u_active := 1, u_is_admin := 1\<rparr>]\<rparr>))"

section \<open>Facts\<close>

lemma send_all_spec:
  "\<forall>n buf. Sent n \<in> set ks \<longrightarrow> 0 < n \<Longrightarrow> send_all ks buf = Some (r, out) \<Longrightarrow>
   (\<exists>rest. buf = out @ rest \<and> (r = 0 \<and> rest = [] \<or> r = -1 \<and> rest \<noteq> []))"
proof (induction ks buf arbitrary: r out rule: send_all.induct)
  case (1 ks buf)
  show ?case
  proof (cases "buf = []")
    case True
    with 1(4) show ?thesis by (simp add: send_all.simps)
  next
    case False
    note ne = this
    then obtain k ks' where ks: "ks = k # ks'" using 1(4) by (cases ks) (auto simp: send_all.simps)
    show ?thesis
    proof (cases k)
      case (Sent n)
      with 1(4) ks ne have "map_option (\<lambda>(r, out). (r, take n buf @ out)) (send_all ks' (drop n buf)) = Some (r, out)"
        using send_all.simps [of ks buf] by simp
      then obtain out' where "send_all ks' (drop n buf) = Some (r, out')" "out = take n buf @ out'" by auto
      with 1(1) [OF ne ks Sent] 1(3) ks obtain rest where "drop n buf = out' @ rest"
        "r = 0 \<and> rest = [] \<or> r = -1 \<and> rest \<noteq> []" by auto
      then show ?thesis using \<open>out = take n buf @ out'\<close> by (metis append.assoc append_take_drop_id)
    next
      case (Send_err e)
      show ?thesis
      proof (cases "e = EINTR")
        case True
        with 1(4) ks ne Send_err have "send_all ks' buf = Some (r, out)"
          using send_all.simps [of ks buf] by simp
        with 1(2) [OF ne ks Send_err True] 1(3) ks show ?thesis by auto
      next
        case False
        with 1(4) ks ne Send_err have "r = -1" "out = []" by (auto simp: send_all.simps)
        with ne show ?thesis by simp
      qed
    qed
  qed
qed

section \<open>The round trip of the user database\<close>

definition name_ok :: "string \<Rightarrow> bool" where
  "name_ok n \<longleftrightarrow> n \<noteq> [] \<and> length n < 32 \<and> BAR \<notin> set n \<and> NL \<notin> set n \<and> NUL \<notin> set n"

definition user_ok :: "user \<Rightarrow> bool" where
  "user_ok u \<longleftrightarrow> name_ok (u_name u) \<and> int_range (u_id u) \<and> int_range (u_active u) \<and> int_range (u_is_admin u)"

lemma cstr_id: "NUL \<notin> set s \<Longrightarrow> cstr s = s"
  unfolding cstr_def takeWhile_eq_all_conv by metis

lemma NUL_notin_dec [simp]: "NUL \<notin> set (dec x)"
proof -
  have "NUL \<notin> set (dec_nat n)" for n
    using dec_nat_facts [of n] by (auto simp: list_all_iff is_digit_def less_eq_char_def)
  then show ?thesis by (simp add: dec_def)
qed

lemma BAR_not_digit [simp]: "\<not> is_digit BAR" "\<not> is_digit NL"
  by (simp_all add: is_digit_def less_eq_char_def)

lemma parse_user_line_roundtrip:
  assumes "user_ok u"
  shows "parse_user_line (cstr (user_line u @ [NL])) = Some u"
proof -
  have n: "u_name u \<noteq> []" "length (u_name u) \<le> 31" "BAR \<notin> set (u_name u)"
    and i: "int_range (u_id u)" "int_range (u_active u)" "int_range (u_is_admin u)"
    using assms by (auto simp: user_ok_def name_ok_def)
  have "cstr (user_line u @ [NL]) = user_line u @ [NL]"
    using assms by (intro cstr_id) (simp add: user_line_def user_ok_def name_ok_def)
  moreover have "sscanf [S_d, S_lit BAR, S_until 31 BAR, S_lit BAR, S_d, S_lit BAR, S_d] (user_line u @ [NL])
      = [A_int (u_id u), A_str (u_name u), A_int (u_active u), A_int (u_is_admin u)]"
  proof -
    have "sscanf [S_d, S_lit BAR, S_d] (dec (u_active u) @ BAR # dec (u_is_admin u) @ [NL]) = [A_int (u_active u), A_int (u_is_admin u)]"
      using i by simp
    moreover have "sscanf (S_until 31 BAR # ds) (u_name u @ BAR # r) = A_str (u_name u) # sscanf ds (BAR # r)" for ds r
      using n by (intro scan_S_until) simp_all
    ultimately show ?thesis using i unfolding user_line_def by simp
  qed
  ultimately show ?thesis by (simp add: parse_user_line_def)
qed

lemma parse_users_roundtrip:
  "\<forall>u \<in> set us. user_ok u \<Longrightarrow> length us0 + length us \<le> MAX_USERS \<Longrightarrow>
   parse_users us0 (map (\<lambda>u. user_line u @ [NL]) us) = us0 @ us"
proof (induction us arbitrary: us0)
  case (Cons u us)
  then show ?case using parse_user_line_roundtrip [of u] Cons.IH [of "us0 @ [u]"] by simp
qed simp

lemma user_line_fits: "user_ok u \<Longrightarrow> NL \<notin> set (user_line u) \<and> length (user_line u) + 1 < 256"
  using length_dec_int [of "u_id u"] length_dec_int [of "u_active u"] length_dec_int [of "u_is_admin u"]
  by (auto simp: user_line_def user_ok_def name_ok_def)

lemma users_file_roundtrip:
  assumes "\<forall>u \<in> set us. user_ok u" "length us \<le> MAX_USERS"
  shows "parse_users [] (fgets_lines 256 (users_text us)) = us"
proof -
  have "fgets_lines 256 (users_text us) = map (\<lambda>u. user_line u @ [NL]) us"
    using fgets_lines_concat [of "map user_line us" 256] user_line_fits assms(1)
    by (auto simp: users_text_def comp_def)
  with parse_users_roundtrip [of us "[]"] assms show ?thesis by simp
qed

section \<open>Fresh ids\<close>

lemma max_id_from_ge: "m \<le> max_id_from m us \<and> (\<forall>u \<in> set us. u_id u \<le> max_id_from m us)"
proof (induction us arbitrary: m)
  case (Cons u us)
  from Cons.IH [of "if u_id u > m then u_id u else m"] show ?case by (auto split: if_splits)
qed simp

lemma max_id_from_append: "max_id_from m (us @ vs) = max_id_from (max_id_from m us) vs"
  by (induction us arbitrary: m) auto

lemma get_max_user_id_ge: "u \<in> set us \<Longrightarrow> u_id u \<le> get_max_user_id us" "0 \<le> get_max_user_id us"
  using max_id_from_ge [of 0 us] by (auto simp: get_max_user_id_def)

lemma max_id_from_foldl: "max_id_from m us = foldl (\<lambda>m i. if i > m then i else m) m (map u_id us)"
  by (induction us arbitrary: m) simp_all

lemma max_id_from_ids: "map u_id us = map u_id vs \<Longrightarrow> max_id_from m us = max_id_from m vs"
  by (simp add: max_id_from_foldl)

end
