(* ===== verification/Chat_Msgs.thy ===== *)
theory Chat_Msgs
  imports Chat_Data "HOL-Library.Multiset"
begin

text \<open>
  The message database of \<open>chat/server.c\<close>: \<open>sanitize_message\<close>, \<open>append_message\<close>, the history of
  a chat and the conversation list with its exchange sort.
\<close>

section \<open>Storing a message\<close>

fun sanitize_message :: "string \<Rightarrow> string" where
  "sanitize_message [] = []"
| "sanitize_message (c # r) =
     (if c = BAR then CHR ''/'' # sanitize_message r
      else if c = CR \<or> c = NL then []
      else c # sanitize_message r)"

definition clean_message :: "string \<Rightarrow> string" where
  "clean_message text = sanitize_message (take (MESSAGE_SIZE - 1) (cstr text))"

definition msg_line :: "int \<Rightarrow> int \<Rightarrow> int \<Rightarrow> string \<Rightarrow> string" where
  "msg_line t a b m = dec t @ [BAR] @ dec a @ [BAR] @ dec b @ [BAR] @ m"

definition append_message :: "srv_env \<Rightarrow> int \<Rightarrow> int \<Rightarrow> string \<Rightarrow> server \<Rightarrow> int \<times> server" where
  "append_message env sender receiver text s =
     (if \<not> e_append_ok env then (-1, s)
      else let file = (case s_msgs s of None \<Rightarrow> [] | Some f \<Rightarrow> f)
        in (0, s\<lparr>s_msgs := Some (file @ msg_line (e_time env) sender receiver (clean_message text) @ [NL])\<rparr>))"

section \<open>The history of a chat\<close>

record history_message =
  h_time :: int
  h_sender :: int
  h_receiver :: int
  h_text :: string

definition parse_message :: "string \<Rightarrow> history_message option" where
  "parse_message line =
     (case sscanf [S_ld, S_lit BAR, S_d, S_lit BAR, S_d, S_lit BAR, S_until 1023 NL] line of
        [A_int t, A_int a, A_int b] \<Rightarrow> Some \<lparr>h_time = t, h_sender = a, h_receiver = b, h_text = []\<rparr>
      | [A_int t, A_int a, A_int b, A_str m] \<Rightarrow> Some \<lparr>h_time = t, h_sender = a, h_receiver = b, h_text = m\<rparr>
      | _ \<Rightarrow> None)"

definition belongs_to_chat :: "int \<Rightarrow> int \<Rightarrow> history_message \<Rightarrow> bool" where
  "belongs_to_chat my_id partner m \<longleftrightarrow>
     h_sender m = my_id \<and> h_receiver m = partner \<or> h_sender m = partner \<and> h_receiver m = my_id"

text \<open>The array of ten: append while there is room, then shift left and overwrite the last.\<close>

definition history_push :: "history_message list \<Rightarrow> history_message \<Rightarrow> history_message list" where
  "history_push hs m = (if length hs < 10 then hs @ [m] else drop 1 hs @ [m])"

fun collect_history :: "int \<Rightarrow> int \<Rightarrow> history_message list \<Rightarrow> string list \<Rightarrow> history_message list" where
  "collect_history my_id partner hs [] = hs"
| "collect_history my_id partner hs (line # ls) =
     (case parse_message (cstr line) of None \<Rightarrow> collect_history my_id partner hs ls
      | Some m \<Rightarrow> if \<not> belongs_to_chat my_id partner m then collect_history my_id partner hs ls
                  else collect_history my_id partner (history_push hs m) ls)"

definition sender_name :: "user list \<Rightarrow> int \<Rightarrow> string" where
  "sender_name us uid = (case find_user_index_by_id us uid of None \<Rightarrow> ''unknown'' | Some i \<Rightarrow> u_name (us ! i))"

definition cfd_at :: "server \<Rightarrow> nat \<Rightarrow> int" where
  "cfd_at s ci = c_fd (s_clients s ! ci)"

definition show_history :: "srv_env \<Rightarrow> int \<Rightarrow> history_message list \<Rightarrow> server \<Rightarrow> server" where
  "show_history env fd hs s =
     fold (\<lambda>m s. send_format fd (''['' @ e_hhmm env (h_time m) @ ''] '' @ sender_name (s_users s) (h_sender m)
                    @ '': '' @ h_text m @ [NL]) s) hs s"

definition show_last_messages :: "srv_env \<Rightarrow> nat \<Rightarrow> int \<Rightarrow> server \<Rightarrow> server" where
  "show_last_messages env ci partner s =
     (let fd = cfd_at s ci; none = [NL] @ ''No previous messages.'' @ [NL] in
      case (if e_read_ok env then s_msgs s else None) of None \<Rightarrow> send_text fd none s
      | Some f \<Rightarrow>
        let hs = collect_history (c_user_id (s_clients s ! ci)) partner [] (fgets_lines 1400 f) in
        if hs = [] then send_text fd none s
        else send_text fd (''----------------------------'' @ [NL])
               (show_history env fd hs
                 (send_text fd ([NL] @ ''----- LAST 10 MESSAGES -----'' @ [NL]) s)))"

section \<open>The conversation list\<close>

text \<open>The contact ids with the time of the last message, as the two parallel arrays hold them.\<close>

definition note_contact :: "(int \<times> int) list \<Rightarrow> int \<Rightarrow> int \<Rightarrow> (int \<times> int) list" where
  "note_contact cs other t =
     (case first_index (\<lambda>c. fst c = other) cs of
        None \<Rightarrow> if length cs \<ge> MAX_USERS then cs else cs @ [(other, if t > 0 then t else 0)]
      | Some i \<Rightarrow> if t > snd (cs ! i) then cs[i := (other, t)] else cs)"

definition other_party :: "int \<Rightarrow> int \<Rightarrow> int \<Rightarrow> int" where
  "other_party my_id sender receiver =
     (if sender = my_id then receiver else if receiver = my_id then sender else -1)"

fun collect_contacts :: "int \<Rightarrow> (int \<times> int) list \<Rightarrow> string list \<Rightarrow> (int \<times> int) list" where
  "collect_contacts my_id cs [] = cs"
| "collect_contacts my_id cs (line # ls) =
     (case sscanf [S_ld, S_lit BAR, S_d, S_lit BAR, S_d, S_lit BAR] (cstr line) of
        [A_int t, A_int a, A_int b] \<Rightarrow>
          (let other = other_party my_id a b in
           if other = -1 then collect_contacts my_id cs ls
           else collect_contacts my_id (note_contact cs other t) ls)
      | _ \<Rightarrow> collect_contacts my_id cs ls)"

text \<open>The exchange sort: for every \<open>i\<close>, compare with every later \<open>j\<close> and swap.\<close>

definition exchange_step :: "nat \<Rightarrow> nat \<Rightarrow> (int \<times> int) list \<Rightarrow> (int \<times> int) list" where
  "exchange_step i j cs = (if snd (cs ! j) > snd (cs ! i) then cs[i := cs ! j, j := cs ! i] else cs)"

definition exchange_pass :: "nat \<Rightarrow> (int \<times> int) list \<Rightarrow> (int \<times> int) list" where
  "exchange_pass i cs = fold (exchange_step i) [i + 1..<length cs] cs"

definition exchange_sort :: "(int \<times> int) list \<Rightarrow> (int \<times> int) list" where
  "exchange_sort cs = fold exchange_pass [0..<length cs] cs"

definition contact_list :: "srv_env \<Rightarrow> int \<Rightarrow> server \<Rightarrow> (int \<times> int) list" where
  "contact_list env my_id s =
     exchange_sort (case (if e_read_ok env then s_msgs s else None) of None \<Rightarrow> []
       | Some f \<Rightarrow> collect_contacts my_id [] (fgets_lines 1400 f))"

definition user_status :: "server \<Rightarrow> user \<Rightarrow> string" where
  "user_status s u = (if u_active u = 0 then ''removed''
     else if find_client_by_user_id (s_clients s) (u_id u) \<noteq> None then ''online'' else ''offline'')"

definition show_contact :: "int \<Rightarrow> nat \<times> int \<Rightarrow> server \<Rightarrow> server" where
  "show_contact fd p s = (case p of (i, cid) \<Rightarrow>
     (case find_user_index_by_id (s_users s) cid of None \<Rightarrow> s
      | Some k \<Rightarrow> send_format fd (dec (int i + 1) @ ''. '' @ u_name (s_users s ! k) @ '' ['' @
                   user_status s (s_users s ! k) @ '']'' @ [NL]) s))"

definition is_admin_id :: "user list \<Rightarrow> int \<Rightarrow> bool" where
  "is_admin_id us uid = (case find_user_index_by_id us uid of None \<Rightarrow> False | Some i \<Rightarrow> u_is_admin (us ! i) \<noteq> 0)"

definition show_conversation_list :: "srv_env \<Rightarrow> nat \<Rightarrow> server \<Rightarrow> server" where
  "show_conversation_list env ci s =
     (let cl = s_clients s ! ci; fd = c_fd cl;
          ids = map fst (contact_list env (c_user_id cl) s);
          s = s\<lparr>s_clients := (s_clients s)[ci := cl\<lparr>c_menu := ids\<rparr>]\<rparr>;
          s = send_text fd ([NL] @ ''========== CHATS =========='' @ [NL]) s;
          s = (if ids = [] then send_text fd (''No previous conversations.'' @ [NL]) s else s);
          s = fold (show_contact fd) (enumerate 0 ids) s;
          s = send_text fd ([NL] @ ''Number       : open chat'' @ [NL] @ ''n <username> : new/open chat'' @ [NL]
                @ ''r            : refresh'' @ [NL]) s;
          s = (if is_admin_id (s_users s) (c_user_id cl)
               then send_text fd (''a            : admin page'' @ [NL]) s else s)
      in send_text fd (''q            : disconnect'' @ [NL] @ ''==========================='' @ [NL] @ ''> '') s)"

section \<open>Facts\<close>

lemma sanitize_clean: "c \<in> set (sanitize_message s) \<Longrightarrow> c \<noteq> BAR \<and> c \<noteq> CR \<and> c \<noteq> NL"
  by (induction s) (auto split: if_splits)

lemma sanitize_NUL: "NUL \<notin> set s \<Longrightarrow> NUL \<notin> set (sanitize_message s)"
  by (induction s) auto

lemma length_sanitize: "length (sanitize_message s) \<le> length s"
  by (induction s) auto

lemma sanitize_id: "BAR \<notin> set s \<Longrightarrow> CR \<notin> set s \<Longrightarrow> NL \<notin> set s \<Longrightarrow> sanitize_message s = s"
  by (induction s) auto

lemma NUL_notin_cstr: "NUL \<notin> set (cstr s)"
  unfolding cstr_def by (metis set_takeWhileD)

lemma clean_message_facts:
  "length (clean_message m) \<le> 1023" "NL \<notin> set (clean_message m)" "NUL \<notin> set (clean_message m)"
proof -
  have "length (clean_message m) \<le> length (take (MESSAGE_SIZE - 1) (cstr m))"
    unfolding clean_message_def by (rule length_sanitize)
  then show "length (clean_message m) \<le> 1023" by (simp add: MESSAGE_SIZE_def)
  show "NL \<notin> set (clean_message m)" unfolding clean_message_def using sanitize_clean by blast
  show "NUL \<notin> set (clean_message m)" unfolding clean_message_def
    by (rule sanitize_NUL) (metis NUL_notin_cstr in_set_takeD)
qed

text \<open>A stored line is read back whole, and as the same message.\<close>

lemma parse_message_roundtrip:
  assumes "long_range t" "int_range a" "int_range b" "length m \<le> 1023" "NL \<notin> set m" "NUL \<notin> set m"
  shows "parse_message (cstr (msg_line t a b m @ [NL])) = Some \<lparr>h_time = t, h_sender = a, h_receiver = b, h_text = m\<rparr>"
proof -
  have c: "cstr (msg_line t a b m @ [NL]) = dec t @ BAR # dec a @ BAR # dec b @ BAR # m @ [NL]"
    using assms(6) by (subst cstr_id) (simp_all add: msg_line_def)
  have "sscanf [S_until 1023 NL] (m @ [NL]) = (if m = [] then [] else [A_str m])"
    using scan_S_until [of m 1023 NL "[NL]" "[]"] assms(4,5) by (simp add: sscanf_convs)
  then show ?thesis unfolding c parse_message_def using assms(1,2,3) by (simp split: if_splits)
qed

lemma msg_line_fits:
  assumes "long_range t" "int_range a" "int_range b"
  shows "NL \<notin> set (msg_line t a b (clean_message m)) \<and> length (msg_line t a b (clean_message m)) + 1 < 1400"
  using length_dec_long [OF assms(1)] length_dec_int [OF assms(2)] length_dec_int [OF assms(3)] clean_message_facts [of m]
  by (auto simp: msg_line_def)

end
