(* ===== verification/Chat_Sort.thy ===== *)
theory Chat_Sort
  imports Chat_Msgs
begin

text \<open>
  What the loops over the message database of \<open>chat/server.c\<close> compute: the array of ten is the
  end of the chat, the exchange sort is a sort, and the contacts are distinct.
\<close>

section \<open>The last ten messages\<close>

definition last_n :: "nat \<Rightarrow> 'a list \<Rightarrow> 'a list" where
  "last_n k xs = drop (length xs - k) xs"

definition chat_messages :: "int \<Rightarrow> int \<Rightarrow> string list \<Rightarrow> history_message list" where
  "chat_messages my_id partner ls =
     filter (belongs_to_chat my_id partner) (List.map_filter (\<lambda>l. parse_message (cstr l)) ls)"

lemma history_push_last: "history_push (last_n 10 xs) m = last_n 10 (xs @ [m])"
proof (cases "length xs < 10")
  case True
  then show ?thesis by (simp add: history_push_def last_n_def)
next
  case False
  then have "Suc (length xs - 10) = length xs - 9" by simp
  with False show ?thesis by (simp add: history_push_def last_n_def)
qed

lemma collect_history_last:
  "collect_history my_id partner (last_n 10 xs) ls = last_n 10 (xs @ chat_messages my_id partner ls)"
proof (induction ls arbitrary: xs)
  case Nil
  then show ?case by (simp add: chat_messages_def map_filter_simps)
next
  case (Cons l ls)
  show ?case
  proof (cases "parse_message (cstr l)")
    case None
    with Cons show ?thesis by (simp add: chat_messages_def map_filter_simps)
  next
    case (Some m)
    with Cons.IH [of xs] Cons.IH [of "xs @ [m]"] show ?thesis
      by (simp add: chat_messages_def map_filter_simps history_push_last)
  qed
qed

lemma collect_history_eq:
  "collect_history my_id partner [] ls = last_n 10 (chat_messages my_id partner ls)"
  using collect_history_last [of my_id partner "[]" ls] by (simp add: last_n_def)

lemma last_n_snoc: "0 < k \<Longrightarrow> xs \<noteq> [] \<Longrightarrow> last (last_n k xs) = last xs"
  by (simp add: last_n_def)

section \<open>The exchange sort\<close>

lemma length_exchange_step [simp]: "length (exchange_step i j cs) = length cs"
  by (simp add: exchange_step_def)

lemma mset_exchange_step: "i < length cs \<Longrightarrow> j < length cs \<Longrightarrow> mset (exchange_step i j cs) = mset cs"
  by (simp add: exchange_step_def mset_swap)

lemma pass_prefix:
  assumes "i < length cs" "j \<le> length cs" "cs' = fold (exchange_step i) [i + 1..<j] cs"
  shows "length cs' = length cs \<and> take i cs' = take i cs \<and> mset cs' = mset cs \<and>
     (\<forall>k. i < k \<and> k < j \<longrightarrow> snd (cs' ! k) \<le> snd (cs' ! i))"
  using assms(2,3)
proof (induction j arbitrary: cs')
  case 0
  then show ?case by simp
next
  case (Suc j)
  show ?case
  proof (cases "i + 1 \<le> j")
    case False
    with Suc.prems show ?thesis by auto
  next
    case True
    define d where "d = fold (exchange_step i) [i + 1..<j] cs"
    have cs': "cs' = exchange_step i j d" using Suc.prems True by (simp add: d_def)
    from Suc.IH [OF _ d_def] Suc.prems have IH: "length d = length cs" "take i d = take i cs" "mset d = mset cs"
      "\<forall>k. i < k \<and> k < j \<longrightarrow> snd (d ! k) \<le> snd (d ! i)" by auto
    have l: "i < length d" "j < length d" using IH(1) assms(1) Suc.prems(1) by auto
    have "take i cs' = take i cs" unfolding cs' exchange_step_def using IH(2) True by simp
    moreover have "mset cs' = mset cs" unfolding cs' using mset_exchange_step [OF l] IH(3) by simp
    moreover have "snd (cs' ! k) \<le> snd (cs' ! i)" if "i < k" "k < Suc j" for k
    proof (cases "k = j")
      case True
      with l \<open>i + 1 \<le> j\<close> show ?thesis by (simp add: cs' exchange_step_def nth_list_update)
    next
      case False
      with that IH(4) have "snd (d ! k) \<le> snd (d ! i)" by simp
      with l False that \<open>i + 1 \<le> j\<close> show ?thesis by (simp add: cs' exchange_step_def nth_list_update)
    qed
    ultimately show ?thesis using IH(1) by (simp add: cs')
  qed
qed

lemma exchange_pass_spec:
  assumes "i < length cs"
  shows "length (exchange_pass i cs) = length cs" "take i (exchange_pass i cs) = take i cs"
    "mset (exchange_pass i cs) = mset cs"
    "i < k \<Longrightarrow> k < length cs \<Longrightarrow> snd (exchange_pass i cs ! k) \<le> snd (exchange_pass i cs ! i)"
  using pass_prefix [OF assms le_refl refl] by (simp_all add: exchange_pass_def)

lemma exchange_sort_prefix:
  assumes "i \<le> length cs" "cs' = fold exchange_pass [0..<i] cs"
  shows "length cs' = length cs \<and> mset cs' = mset cs \<and>
     (\<forall>a b. a < i \<and> a < b \<and> b < length cs \<longrightarrow> snd (cs' ! b) \<le> snd (cs' ! a))"
  using assms
proof (induction i arbitrary: cs')
  case 0
  then show ?case by simp
next
  case (Suc i)
  define d where "d = fold exchange_pass [0..<i] cs"
  have cs': "cs' = exchange_pass i d" using Suc.prems by (simp add: d_def)
  from Suc.IH [OF _ d_def] Suc.prems have IH: "length d = length cs" "mset d = mset cs"
    "\<forall>a b. a < i \<and> a < b \<and> b < length cs \<longrightarrow> snd (d ! b) \<le> snd (d ! a)" by auto
  have l: "i < length d" using IH(1) Suc.prems by simp
  note p = exchange_pass_spec [OF l]
  have "mset (take i cs') + mset (drop i cs') = mset (take i d) + mset (drop i d)"
    using p(3) by (metis append_take_drop_id cs' mset_append)
  then have tail: "set (drop i cs') = set (drop i d)"
    using p(2) unfolding cs' by (metis add_left_cancel set_mset_mset)
  have "snd (cs' ! b) \<le> snd (cs' ! a)" if ab: "a < Suc i" "a < b" "b < length cs" for a b
  proof (cases "a = i")
    case True
    with ab p(4) [of b] IH(1) show ?thesis by (simp add: cs')
  next
    case False
    then have a: "a < i" using ab by simp
    have same: "cs' ! k = d ! k" if "k < i" for k using p(2) that unfolding cs' by (metis nth_take)
    show ?thesis
    proof (cases "b < i")
      case True
      with IH(3) a ab same show ?thesis by simp
    next
      case False
      have lc: "length cs' = length cs" using p(1) IH(1) by (simp add: cs')
      have "cs' ! b \<in> set (drop i cs')" using False ab lc by (auto simp: in_set_conv_nth intro!: exI [of _ "b - i"])
      then obtain m where "m < length (drop i d)" "drop i d ! m = cs' ! b"
        unfolding tail by (metis in_set_conv_nth)
      then obtain k where "i \<le> k" "k < length d" "cs' ! b = d ! k" by (metis (no_types, lifting)
          length_drop less_diff_conv add.commute le_add1 less_imp_le_nat l nth_drop)
      with IH(1,3) a same show ?thesis by simp
    qed
  qed
  then show ?case using p(1,3) IH(1,2) by (simp add: cs')
qed

lemma exchange_sort_correct:
  "mset (exchange_sort cs) = mset cs" "sorted_wrt (\<lambda>x y. snd x \<ge> snd y) (exchange_sort cs)"
  using exchange_sort_prefix [OF le_refl refl, of cs] by (simp_all add: exchange_sort_def sorted_wrt_iff_nth_less)

section \<open>The contacts\<close>

definition contacts_ok :: "(int \<times> int) list \<Rightarrow> bool" where
  "contacts_ok cs \<longleftrightarrow> distinct (map fst cs) \<and> length cs \<le> MAX_USERS \<and> -1 \<notin> set (map fst cs)"

lemma note_contact_ok:
  assumes "contacts_ok cs" "other \<noteq> -1"
  shows "contacts_ok (note_contact cs other t)"
proof (cases "first_index (\<lambda>c. fst c = other) cs")
  case None
  then have "other \<notin> set (map fst cs)" by (auto simp: first_index_None_iff)
  with None assms show ?thesis by (auto simp: note_contact_def contacts_ok_def)
next
  case (Some i)
  then have "i < length cs" "fst (cs ! i) = other" by (auto dest: first_index_holds)
  then have "map fst (cs[i := (other, t)]) = map fst cs" by (simp add: map_update list_update_same_conv)
  then have "contacts_ok (cs[i := (other, t)])"
    using assms(1) unfolding contacts_ok_def length_list_update by metis
  with Some assms(1) show ?thesis by (simp add: note_contact_def)
qed

lemma collect_contacts_ok:
  "contacts_ok cs \<Longrightarrow> contacts_ok (collect_contacts my_id cs ls)"
proof (induction my_id cs ls rule: collect_contacts.induct)
  case (2 my_id cs line ls)
  then show ?case by (auto simp: note_contact_ok Let_def split: list.splits scan_arg.splits)
qed simp

lemma contact_list_ok: "contacts_ok (contact_list env my_id s)"
proof -
  have "contacts_ok cs \<Longrightarrow> contacts_ok (exchange_sort cs)" for cs
    using exchange_sort_correct(1) [of cs] unfolding contacts_ok_def
    by (metis mset_eq_imp_distinct_iff mset_eq_length mset_eq_setD mset_map)
  moreover have "contacts_ok (collect_contacts my_id [] ls)" for ls
    by (rule collect_contacts_ok) (simp add: contacts_ok_def)
  moreover have "contacts_ok []" by (simp add: contacts_ok_def)
  ultimately show ?thesis by (auto simp: contact_list_def split: option.splits)
qed

end
