(* ===== verification/Chat_Session.thy ===== *)
theory Chat_Session
  imports Chat_Sort
begin

text \<open>
  What \<open>chat/server.c\<close> does with one line of a client, by the mode the client is in: login,
  menu, chat and admin page.  Every handler returns the code's result (0: the client is gone)
  and the new state.
\<close>

section \<open>Clients\<close>

definition upd_client :: "nat \<Rightarrow> (chat_client \<Rightarrow> chat_client) \<Rightarrow> server \<Rightarrow> server" where
  "upd_client ci f s = s\<lparr>s_clients := (s_clients s)[ci := f (s_clients s ! ci)]\<rparr>"

definition disconnect_client :: "nat \<Rightarrow> server \<Rightarrow> server" where
  "disconnect_client ci s =
     (if ci \<ge> MAX_CLIENTS then s
      else if \<not> c_active (s_clients s ! ci) then s
      else let fd = cfd_at s ci
        in s\<lparr>s_clients := (s_clients s)[ci := zero_client\<lparr>c_fd := -1\<rparr>],
             s_out := s_out s @ [S_epoll_del fd, S_close fd]\<rparr>)"

definition open_chat :: "srv_env \<Rightarrow> nat \<Rightarrow> int \<Rightarrow> server \<Rightarrow> server" where
  "open_chat env ci partner s =
     (let fd = cfd_at s ci in
      case find_user_index_by_id (s_users s) partner of
        None \<Rightarrow> send_text fd (''User not found.'' @ [NL] @ ''> '') s
      | Some pi \<Rightarrow>
        if partner = c_user_id (s_clients s ! ci)
        then send_text fd (''You cannot chat with yourself.'' @ [NL] @ ''> '') s
        else
          let s = upd_client ci (\<lambda>c. c\<lparr>c_mode := MODE_CHAT, c_partner := partner\<rparr>) s;
              s = send_format fd ([NL] @ ''===== CHAT: '' @ u_name (s_users s ! pi) @ '' ====='' @ [NL]) s;
              s = (if u_active (s_users s ! pi) = 0
                   then send_text fd (''[This user has been removed. '' @ ''History is read-only.]'' @ [NL]) s else s);
              s = show_last_messages env ci partner s
          in send_text fd (''Type q and press Enter to leave chat.'' @ [NL] @ ''> '') s)"

definition show_admin_user :: "int \<Rightarrow> nat \<times> user \<Rightarrow> server \<Rightarrow> server" where
  "show_admin_user fd p s = (case p of (i, u) \<Rightarrow>
     send_format fd (dec (int i + 1) @ ''. '' @ u_name u @ ''  ID='' @ dec (u_id u) @ ''  ['' @
       (if u_active u \<noteq> 0 then ''active'' else ''removed'') @ '']'' @
       (if u_is_admin u \<noteq> 0 then '' [ADMIN]'' else []) @ [NL]) s)"

definition show_admin_page :: "nat \<Rightarrow> server \<Rightarrow> server" where
  "show_admin_page ci s =
     (let fd = cfd_at s ci;
          s = send_text fd ([NL] @ ''========== ADMIN =========='' @ [NL]) s;
          s = fold (show_admin_user fd) (enumerate 0 (s_users s)) s
      in send_text fd ([NL] @ ''d <number> : remove user'' @ [NL] @ ''r <number> : restore user'' @ [NL] @
           ''q          : leave admin page'' @ [NL] @ ''==========================='' @ [NL] @ ''admin> '') s)"

section \<open>Login\<close>

text \<open>The common end of \<open>process_login\<close>, once the user's index is known.\<close>

definition login_as :: "srv_env \<Rightarrow> nat \<Rightarrow> nat \<Rightarrow> server \<Rightarrow> int \<times> server" where
  "login_as env ci ui s =
     (let u = s_users s ! ui; fd = cfd_at s ci;
          s = upd_client ci (\<lambda>c. c\<lparr>c_user_id := u_id u, c_logged_in := True, c_mode := MODE_MENU\<rparr>) s;
          s = send_format fd ([NL] @ ''Login successful.'' @ [NL] @ ''Welcome '' @ u_name u @ ''. User ID: '' @
                dec (u_id u) @ (if u_is_admin u \<noteq> 0 then '' [ADMIN]'' else []) @ [NL]) s
      in (1, show_conversation_list env ci s))"

definition process_login :: "srv_env \<Rightarrow> nat \<Rightarrow> string \<Rightarrow> server \<Rightarrow> int \<times> server" where
  "process_login env ci line s =
     (let line = sanitize_message line; fd = cfd_at s ci in
      if line = [] then
        (1, send_text fd (''Username cannot be empty.'' @ [NL] @ ''Enter your username: '') s)
      else if length line \<ge> USERNAME_SIZE then
        (1, send_text fd (''Username is too long.'' @ [NL] @ ''Enter your username: '') s)
      else case find_user_index_by_name (s_users s) line of
        Some ui \<Rightarrow>
          if u_active (s_users s ! ui) = 0 then
            (0, disconnect_client ci
                  (send_text fd (''This account has been removed '' @ ''and cannot currently be used.'' @ [NL]) s))
          else if find_client_by_user_id (s_clients s) (u_id (s_users s ! ui)) \<noteq> None then
            (0, disconnect_client ci (send_text fd (''This user is already logged in.'' @ [NL]) s))
          else login_as env ci ui s
      | None \<Rightarrow>
          if length (s_users s) \<ge> MAX_USERS then
            (0, disconnect_client ci (send_text fd (''User database is full.'' @ [NL]) s))
          else
            let u = \<lparr>u_id = to_int (get_max_user_id (s_users s) + 1), u_name = take (USERNAME_SIZE - 1) line,
                     u_active = 1, u_is_admin = 0\<rparr>
            in case save_users (e_save_ok env) (s\<lparr>s_users := s_users s @ [u]\<rparr>) of (r, s') \<Rightarrow>
               if r < 0 then (0, disconnect_client ci (send_text fd (''Could not save user.'' @ [NL]) s'))
               else login_as env ci (length (s_users s)) s')"

section \<open>Menu\<close>

definition process_menu :: "srv_env \<Rightarrow> nat \<Rightarrow> string \<Rightarrow> server \<Rightarrow> int \<times> server" where
  "process_menu env ci line s =
     (let cl = s_clients s ! ci; fd = c_fd cl; invalid = (1, send_text fd (''Invalid command.'' @ [NL] @ ''> '') s) in
      if line = ''q'' then (0, disconnect_client ci (send_text fd (''Goodbye.'' @ [NL]) s))
      else if line = ''r'' then (1, show_conversation_list env ci s)
      else if line = ''a'' then
        (if is_admin_id (s_users s) (c_user_id cl)
         then (1, show_admin_page ci (upd_client ci (\<lambda>c. c\<lparr>c_mode := MODE_ADMIN\<rparr>) s))
         else (1, send_text fd (''Admin access denied.'' @ [NL] @ ''> '') s))
      else if take 2 line = ''n '' then
        (case find_user_index_by_name (s_users s) (drop 2 line) of
           None \<Rightarrow> (1, send_text fd (''User does not exist.'' @ [NL] @ ''> '') s)
         | Some ui \<Rightarrow> (1, open_chat env ci (u_id (s_users s ! ui)) s))
      else case scan_long line of
        Some (selection, []) \<Rightarrow>
          if 1 \<le> selection \<and> selection \<le> int (length (c_menu cl))
          then (1, open_chat env ci (c_menu cl ! nat (selection - 1)) s)
          else invalid
      | _ \<Rightarrow> invalid)"

section \<open>Chat\<close>

definition process_chat :: "srv_env \<Rightarrow> nat \<Rightarrow> string \<Rightarrow> server \<Rightarrow> int \<times> server" where
  "process_chat env ci line s =
     (let cl = s_clients s ! ci; fd = c_fd cl in
      if line = ''q'' then
        (1, show_conversation_list env ci (upd_client ci (\<lambda>c. c\<lparr>c_mode := MODE_MENU, c_partner := -1\<rparr>) s))
      else if line = [] then (1, send_text fd ''> '' s)
      else case find_user_index_by_id (s_users s) (c_partner cl) of
        None \<Rightarrow> (1, send_text fd (''This user no longer exists.'' @ [NL] @ ''> '') s)
      | Some pi \<Rightarrow>
        let p = s_users s ! pi in
        if u_active p = 0 then
          (1, send_format fd (u_name p @ '' is currently unavailable. '' @ ''The account has been removed.'' @ [NL] @ ''> '') s)
        else case append_message env (c_user_id cl) (u_id p) line s of (r, s) \<Rightarrow>
        if r < 0 then (1, send_text fd (''Message could not be saved.'' @ [NL] @ ''> '') s)
        else case find_client_by_user_id (s_clients s) (u_id p) of
          None \<Rightarrow> (1, send_format fd (''[Stored. '' @ u_name p @ '' is offline.]'' @ [NL] @ ''> '') s)
        | Some ri \<Rightarrow>
          let rc = s_clients s ! ri; me = sender_name (s_users s) (c_user_id cl);
              s = (if c_mode rc = MODE_CHAT \<and> c_partner rc = c_user_id cl
                   then send_format (c_fd rc) ([NL] @ me @ '': '' @ line @ [NL] @ ''> '') s
                   else send_format (c_fd rc) ([NL] @ ''[New message from '' @ me @ '']'' @ [NL] @ ''> '') s)
          in (1, send_text fd ''> '' s))"

section \<open>Admin page\<close>

definition set_user_active :: "nat \<Rightarrow> int \<Rightarrow> server \<Rightarrow> server" where
  "set_user_active i a s = s\<lparr>s_users := (s_users s)[i := (s_users s ! i)\<lparr>u_active := a\<rparr>]\<rparr>"

definition remove_user :: "srv_env \<Rightarrow> nat \<Rightarrow> nat \<Rightarrow> server \<Rightarrow> server" where
  "remove_user env ci t s =
     (let s = snd (save_users (e_save_ok env) (set_user_active t 0 s));
          s = (case find_client_by_user_id (s_clients s) (u_id (s_users s ! t)) of
                 None \<Rightarrow> s
               | Some tc \<Rightarrow> disconnect_client tc
                   (send_text (cfd_at s tc) ([NL] @ ''Your account has been removed '' @ ''by the administrator.'' @ [NL]) s));
          s = send_format (cfd_at s ci) (u_name (s_users s ! t) @ '' removed.'' @ [NL]) s
      in show_admin_page ci s)"

definition restore_user :: "srv_env \<Rightarrow> nat \<Rightarrow> nat \<Rightarrow> server \<Rightarrow> server" where
  "restore_user env ci t s =
     (let fd = cfd_at s ci;
          s = snd (save_users (e_save_ok env) (set_user_active t 1 s));
          s = send_format fd (u_name (s_users s ! t) @ '' restored.'' @ [NL]) s
      in show_admin_page ci s)"

definition process_admin :: "srv_env \<Rightarrow> nat \<Rightarrow> string \<Rightarrow> server \<Rightarrow> int \<times> server" where
  "process_admin env ci line s =
     (let fd = cfd_at s ci; say = (\<lambda>t. (1, send_text fd (t @ [NL] @ ''admin> '') s)) in
      if line = ''q'' then (1, show_conversation_list env ci (upd_client ci (\<lambda>c. c\<lparr>c_mode := MODE_MENU\<rparr>) s))
      else case sscanf [S_c, S_space, S_d] line of
        [A_str command, A_int selection] \<Rightarrow>
          if selection < 1 \<or> selection > int (length (s_users s)) then say ''Invalid user number.''
          else let t = nat (selection - 1); u = s_users s ! t in
          if command = ''d'' then
            (if u_is_admin u \<noteq> 0 then say ''Admin account cannot be removed.''
             else if u_active u = 0 then say ''User is already removed.''
             else (1, remove_user env ci t s))
          else if command = ''r'' then
            (if u_active u \<noteq> 0 then say ''User is already active.''
             else (1, restore_user env ci t s))
          else say ''Unknown admin command.''
      | _ \<Rightarrow> say ''Invalid admin command.'')"

definition process_line :: "srv_env \<Rightarrow> nat \<Rightarrow> string \<Rightarrow> server \<Rightarrow> int \<times> server" where
  "process_line env ci line s =
     (let line = sanitize_message line in
      case c_mode (s_clients s ! ci) of
        MODE_LOGIN \<Rightarrow> process_login env ci line s
      | MODE_MENU \<Rightarrow> process_menu env ci line s
      | MODE_CHAT \<Rightarrow> process_chat env ci line s
      | MODE_ADMIN \<Rightarrow> process_admin env ci line s)"

section \<open>What sending leaves alone\<close>

lemma send_state [simp]:
  "s_users (send_text fd t s) = s_users s" "s_clients (send_text fd t s) = s_clients s"
  "s_users_file (send_text fd t s) = s_users_file s" "s_msgs (send_text fd t s) = s_msgs s"
  "s_users (send_format fd t s) = s_users s" "s_clients (send_format fd t s) = s_clients s"
  "s_users_file (send_format fd t s) = s_users_file s" "s_msgs (send_format fd t s) = s_msgs s"
  by (simp_all add: send_text_def send_format_def)

definition same_db :: "server \<Rightarrow> server \<Rightarrow> bool" where
  "same_db s t \<longleftrightarrow> s_users t = s_users s \<and> s_clients t = s_clients s \<and> s_users_file t = s_users_file s \<and> s_msgs t = s_msgs s"

lemma same_db_fold: "(\<And>x s. same_db s (f x s)) \<Longrightarrow> same_db s (fold f xs s)"
  by (induction xs arbitrary: s) (auto simp: same_db_def)

lemma show_state [simp]:
  "same_db s (show_history env fd hs s)" "same_db s (show_last_messages env ci p s)"
  "same_db s (show_admin_page ci s)" "same_db s (fold (show_contact fd) ps s)"
proof -
  have h: "same_db s (show_history env fd hs s)" for env fd hs s
    unfolding show_history_def by (rule same_db_fold) (simp add: same_db_def)
  then show "same_db s (show_history env fd hs s)" .
  show "same_db s (show_last_messages env ci p s)"
    by (auto simp: show_last_messages_def same_db_def Let_def h [unfolded same_db_def] split: option.splits)
  have "same_db t (fold (show_admin_user fd) us t)" for fd us t
    by (rule same_db_fold) (auto simp: show_admin_user_def same_db_def split: prod.splits)
  then show "same_db s (show_admin_page ci s)" by (simp add: show_admin_page_def same_db_def Let_def)
  show "same_db s (fold (show_contact fd) ps s)"
    by (rule same_db_fold) (auto simp: show_contact_def same_db_def split: prod.splits option.splits)
qed

lemmas same_dbD = show_state [unfolded same_db_def]

lemma show_conversation_list_state:
  "s_users (show_conversation_list env ci s) = s_users s"
  "s_users_file (show_conversation_list env ci s) = s_users_file s"
  "s_msgs (show_conversation_list env ci s) = s_msgs s"
  "s_clients (show_conversation_list env ci s) = (s_clients s)[ci := (s_clients s ! ci)
     \<lparr>c_menu := map fst (contact_list env (c_user_id (s_clients s ! ci)) s)\<rparr>]"
  by (simp_all add: show_conversation_list_def Let_def same_dbD)

end
