(* ===== verification/Chat_Main.thy ===== *)
theory Chat_Main
  imports Chat_Session
begin

text \<open>
  The event loop of \<open>chat/server.c\<close>: setting up, accepting connections, receiving bytes and
  cutting them into lines.
\<close>

section \<open>A line never adds input\<close>

text \<open>A client after a step: still connected as it was, or gone with an empty slot.\<close>

definition slot_kept :: "chat_client \<Rightarrow> chat_client \<Rightarrow> bool" where
  "slot_kept c d \<longleftrightarrow> c_input d = c_input c \<and> c_fd d = c_fd c \<and> c_active d = c_active c \<or>
     c_input d = [] \<and> \<not> c_active d"

definition inputs_kept :: "server \<Rightarrow> server \<Rightarrow> bool" where
  "inputs_kept s t \<longleftrightarrow> length (s_clients t) = length (s_clients s) \<and>
     (\<forall>j < length (s_clients s). slot_kept (s_clients s ! j) (s_clients t ! j))"

lemma slot_kept_refl [simp]: "slot_kept c c"
  by (simp add: slot_kept_def)

lemma slot_kept_trans: "slot_kept a b \<Longrightarrow> slot_kept b c \<Longrightarrow> slot_kept a c"
  by (auto simp: slot_kept_def)

lemma nth_upd: "j < length xs \<Longrightarrow> xs[i := x] ! j = (if i = j then x else xs ! j)"
  by (simp add: nth_list_update)

lemma inputs_kept_refl: "s_clients t = s_clients s \<Longrightarrow> inputs_kept s t"
  by (simp add: inputs_kept_def)

lemma inputs_kept_trans: "inputs_kept s t \<Longrightarrow> inputs_kept t u \<Longrightarrow> inputs_kept s u"
  unfolding inputs_kept_def using slot_kept_trans by metis

lemma inputs_kept_upd: "(\<And>c. slot_kept c (f c)) \<Longrightarrow> inputs_kept s (upd_client ci f s)"
  by (simp add: inputs_kept_def upd_client_def nth_upd)

lemma inputs_kept_disconnect: "inputs_kept s (disconnect_client ci s)"
  by (auto simp: inputs_kept_def disconnect_client_def Let_def nth_upd zero_client_def slot_kept_def)

lemma inputs_kept_list: "inputs_kept s (show_conversation_list env ci s)"
  by (simp add: inputs_kept_def show_conversation_list_state nth_upd) (simp add: slot_kept_def)

lemma inputs_kept_open: "inputs_kept s (open_chat env ci p s)"
  by (auto simp: inputs_kept_def open_chat_def Let_def same_dbD upd_client_def nth_upd slot_kept_def split: option.splits)

lemma inputs_kept_login_as: "inputs_kept s (snd (login_as env ci ui s))"
  by (auto simp: inputs_kept_def login_as_def Let_def show_conversation_list_state upd_client_def nth_upd slot_kept_def)

lemma inputs_kept_after: "inputs_kept t u \<Longrightarrow> s_clients t = s_clients s \<Longrightarrow> inputs_kept s u"
  by (simp add: inputs_kept_def)

lemma save_users_state [simp]:
  "s_users (snd (save_users ok s)) = s_users s" "s_clients (snd (save_users ok s)) = s_clients s"
  "s_msgs (snd (save_users ok s)) = s_msgs s"
  by (simp_all add: save_users_def)

lemma inputs_kept_process_line: "inputs_kept s (snd (process_line env ci line s))"
proof (cases "c_mode (s_clients s ! ci)")
  case MODE_LOGIN
  have "inputs_kept s (snd (process_login env ci l s))" for l
    by (auto simp: process_login_def Let_def save_users_def inputs_kept_refl split: option.splits
        intro: inputs_kept_after [OF inputs_kept_disconnect] inputs_kept_after [OF inputs_kept_login_as] inputs_kept_login_as)
  with MODE_LOGIN show ?thesis by (simp add: process_line_def Let_def)
next
  case MODE_MENU
  have a: "inputs_kept s (show_admin_page ci (upd_client ci (\<lambda>c. c\<lparr>c_mode := MODE_ADMIN\<rparr>) s))"
    by (rule inputs_kept_trans [OF inputs_kept_upd inputs_kept_refl]) (simp_all add: same_dbD slot_kept_def)
  have "inputs_kept s (snd (process_menu env ci l s))" for l
    using a by (auto simp: process_menu_def Let_def inputs_kept_refl inputs_kept_open inputs_kept_list
        split: option.splits list.splits intro: inputs_kept_after [OF inputs_kept_disconnect])
  with MODE_MENU show ?thesis by (simp add: process_line_def Let_def)
next
  case MODE_CHAT
  have a: "inputs_kept s (show_conversation_list env ci (upd_client ci (\<lambda>c. c\<lparr>c_mode := MODE_MENU, c_partner := -1\<rparr>) s))"
    by (rule inputs_kept_trans [OF inputs_kept_upd inputs_kept_list]) (simp add: slot_kept_def)
  have "inputs_kept s (snd (process_chat env ci l s))" for l
    using a by (auto simp: process_chat_def Let_def append_message_def inputs_kept_refl split: option.splits)
  with MODE_CHAT show ?thesis by (simp add: process_line_def Let_def)
next
  case MODE_ADMIN
  have a: "inputs_kept s (show_conversation_list env ci (upd_client ci (\<lambda>c. c\<lparr>c_mode := MODE_MENU\<rparr>) s))"
    by (rule inputs_kept_trans [OF inputs_kept_upd inputs_kept_list]) (simp add: slot_kept_def)
  have r: "inputs_kept s (remove_user env ci t s)" for t
    by (auto simp: remove_user_def set_user_active_def Let_def same_dbD inputs_kept_refl split: option.splits
        intro: inputs_kept_after [OF inputs_kept_trans [OF inputs_kept_disconnect inputs_kept_refl]])
  have r': "inputs_kept s (restore_user env ci t s)" for t
    by (simp add: restore_user_def set_user_active_def Let_def same_dbD inputs_kept_refl)
  have "inputs_kept s (snd (process_admin env ci l s))" for l
    using a r r' by (auto simp: process_admin_def Let_def inputs_kept_refl split: list.splits scan_arg.splits)
  with MODE_ADMIN show ?thesis by (simp add: process_line_def Let_def)
qed

section \<open>Lines\<close>

definition line_start :: "nat \<Rightarrow> server \<Rightarrow> string" where
  "line_start ci s = takeWhile (\<lambda>c. c \<noteq> NL) (c_input (s_clients s ! ci))"

definition drop_line :: "nat \<Rightarrow> server \<Rightarrow> server" where
  "drop_line ci s = upd_client ci (\<lambda>c. c\<lparr>c_input := drop (length (line_start ci s) + 1) (c_input c)\<rparr>) s"

lemma drop_line_shorter:
  assumes "ci < length (s_clients s)" "NL \<in> set (c_input (s_clients s ! ci))"
  shows "length (c_input (s_clients (snd (process_line env ci line (drop_line ci s))) ! ci)) < length (c_input (s_clients s ! ci))"
proof -
  have "c_input (s_clients s ! ci) \<noteq> []" using assms(2) by auto
  then have "length (c_input (s_clients (drop_line ci s) ! ci)) < length (c_input (s_clients s ! ci))"
    using assms(1) by (simp add: drop_line_def upd_client_def)
  moreover have "ci < length (s_clients (drop_line ci s))" using assms(1) by (simp add: drop_line_def upd_client_def)
  ultimately show ?thesis using inputs_kept_process_line [of "drop_line ci s" env ci line]
    unfolding inputs_kept_def slot_kept_def by (metis le_less_trans le_zero_eq list.size(3) nat_le_linear)
qed

text \<open>
  The loop over complete lines: \<open>env k\<close> answers the calls of the \<open>k\<close>-th line.  The C string of a
  line ends at its first \<open>NUL\<close>.
\<close>

function process_lines :: "(nat \<Rightarrow> srv_env) \<Rightarrow> nat \<Rightarrow> nat \<Rightarrow> server \<Rightarrow> server" where
  "process_lines env k ci s =
     (if \<not> (ci < length (s_clients s) \<and> c_active (s_clients s ! ci)) then s
      else if NL \<notin> set (c_input (s_clients s ! ci)) then s
      else case process_line (env k) ci (cstr (line_start ci s)) (drop_line ci s) of (r, s') \<Rightarrow>
        if r = 0 then s' else process_lines env (Suc k) ci s')"
  by pat_completeness auto
termination
proof (relation "measure (\<lambda>(env, k, ci, s). length (c_input (s_clients s ! ci)))")
  fix env :: "nat \<Rightarrow> srv_env" and k ci :: nat and s s' :: server and r :: int
  assume "\<not> \<not> (ci < length (s_clients s) \<and> c_active (s_clients s ! ci))" "\<not> NL \<notin> set (c_input (s_clients s ! ci))"
    and x: "(r, s') = process_line (env k) ci (cstr (line_start ci s)) (drop_line ci s)"
  then show "((env, Suc k, ci, s'), env, k, ci, s) \<in> measure (\<lambda>(env, k, ci, s). length (c_input (s_clients s ! ci)))"
    using drop_line_shorter [of ci s "env k" "cstr (line_start ci s)"] x [symmetric] by simp
qed simp

declare process_lines.simps [simp del]

section \<open>Events\<close>

datatype sock_read = Rd string | Rd_err errno

datatype chat_event =
    Ev_accept int bool                              \<comment> \<open>what \<open>accept\<close> returns; whether \<open>epoll_ctl\<close> works\<close>
  | Ev_data int sock_read "nat \<Rightarrow> srv_env"          \<comment> \<open>a ready descriptor; what \<open>recv\<close> of 1024 bytes returns\<close>

definition new_client :: "int \<Rightarrow> chat_client" where
  "new_client fd = zero_client\<lparr>c_fd := fd, c_active := True, c_user_id := -1, c_partner := -1\<rparr>"

definition handle_accept :: "int \<Rightarrow> bool \<Rightarrow> server \<Rightarrow> server" where
  "handle_accept fd add_ok s =
     (if fd < 0 then s
      else case find_free_client_slot (s_clients s) of
        None \<Rightarrow> (let s = send_text fd (''Server is full.'' @ [NL]) s in s\<lparr>s_out := s_out s @ [S_close fd]\<rparr>)
      | Some ci \<Rightarrow>
        let s = s\<lparr>s_clients := (s_clients s)[ci := new_client fd]\<rparr> in
        if \<not> add_ok then disconnect_client ci s
        else send_text fd ''Enter your username: '' (s\<lparr>s_out := s_out s @ [S_epoll_add fd]\<rparr>))"

definition find_client_by_fd :: "chat_client list \<Rightarrow> int \<Rightarrow> nat option" where
  "find_client_by_fd cs fd = first_index (\<lambda>c. c_active c \<and> c_fd c = fd) cs"

definition handle_data :: "int \<Rightarrow> sock_read \<Rightarrow> (nat \<Rightarrow> srv_env) \<Rightarrow> server \<Rightarrow> server" where
  "handle_data fd ans env s =
     (case find_client_by_fd (s_clients s) fd of None \<Rightarrow> s
      | Some ci \<Rightarrow>
        (case ans of
           Rd_err e \<Rightarrow> if e = EINTR then s else disconnect_client ci s
         | Rd bytes \<Rightarrow>
           if bytes = [] then disconnect_client ci s
           else if length (c_input (s_clients s ! ci)) + length bytes \<ge> INPUT_BUFFER_SIZE then
             upd_client ci (\<lambda>c. c\<lparr>c_input := []\<rparr>) (send_text fd (''Input line too long.'' @ [NL]) s)
           else process_lines env 0 ci (upd_client ci (\<lambda>c. c\<lparr>c_input := c_input c @ bytes\<rparr>) s)))"

fun handle_event :: "chat_event \<Rightarrow> server \<Rightarrow> server" where
  "handle_event (Ev_accept fd ok) s = handle_accept fd ok s"
| "handle_event (Ev_data fd ans env) s = handle_data fd ans env s"

definition chat_run :: "chat_event list \<Rightarrow> server \<Rightarrow> server" where
  "chat_run evs s = fold handle_event evs s"

text \<open>
  The start of \<open>main\<close>: cleared client slots, the user database, the listening socket and the
  epoll instance.  A system call's answer is negative on failure.
\<close>

definition chat_setup :: "bool \<Rightarrow> bool \<Rightarrow> int \<Rightarrow> int \<Rightarrow> int \<Rightarrow> int \<Rightarrow> int \<Rightarrow> server \<Rightarrow> int option \<times> server" where
  "chat_setup open_ok save_ok sock bindr listenr ep addr s =
     (let s = s\<lparr>s_clients := replicate MAX_CLIENTS (zero_client\<lparr>c_fd := -1\<rparr>)\<rparr> in
      case load_users open_ok save_ok s of (r, s) \<Rightarrow>
      let close = (\<lambda>fd s. s\<lparr>s_out := s_out s @ [S_close fd]\<rparr>) in
      if r < 0 then (Some 1, s)
      else if sock < 0 then (Some 1, s)
      else if bindr < 0 then (Some 1, close sock s)
      else if listenr < 0 then (Some 1, close sock s)
      else if ep < 0 then (Some 1, close sock s)
      else if addr < 0 then (Some 1, close sock (close ep s))
      else (None, s\<lparr>s_out := s_out s @ [S_epoll_add sock]\<rparr>))"

end
