(* ===== verification/Chat_Inv.thy ===== *)
theory Chat_Inv
  imports Chat_Main
begin

text \<open>
  The invariant of \<open>chat/server.c\<close> and its preservation by every handler: the user table is a
  function of the ids and of the names, every login is of an existing, active user, no user is
  logged in twice, the admin page is open only to admins, and the input buffers never fill.
\<close>

section \<open>The invariant\<close>

definition users_ok :: "user list \<Rightarrow> bool" where
  "users_ok us \<longleftrightarrow> (\<forall>u \<in> set us. user_ok u) \<and> distinct (map u_id us) \<and> distinct (map u_name us) \<and>
     length us \<le> MAX_USERS \<and> get_max_user_id us + int (MAX_USERS - length us) < 2 ^ 31"

definition logged :: "chat_client \<Rightarrow> bool" where
  "logged c \<longleftrightarrow> c_active c \<and> c_logged_in c"

definition client_ok :: "user list \<Rightarrow> chat_client \<Rightarrow> bool" where
  "client_ok us c \<longleftrightarrow> length (c_input c) < INPUT_BUFFER_SIZE \<and>
     (c_logged_in c \<longrightarrow> c_active c) \<and>
     (if c_logged_in c
      then c_mode c \<noteq> MODE_LOGIN \<and> (\<exists>u \<in> set us. u_id u = c_user_id c \<and> u_active u \<noteq> 0) \<and>
           (c_mode c = MODE_ADMIN \<longrightarrow> is_admin_id us (c_user_id c))
      else c_mode c = MODE_LOGIN)"

definition clients_ok :: "user list \<Rightarrow> chat_client list \<Rightarrow> bool" where
  "clients_ok us cs \<longleftrightarrow> length cs = MAX_CLIENTS \<and> (\<forall>i < length cs. client_ok us (cs ! i)) \<and>
     (\<forall>i j. i < length cs \<and> j < length cs \<and> c_logged_in (cs ! i) \<and> c_logged_in (cs ! j) \<and>
        c_user_id (cs ! i) = c_user_id (cs ! j) \<longrightarrow> i = j)"

definition srv_ok :: "server \<Rightarrow> bool" where
  "srv_ok s \<longleftrightarrow> users_ok (s_users s) \<and> clients_ok (s_users s) (s_clients s)"

lemma srv_okD [dest]:
  assumes "srv_ok s"
  shows "users_ok (s_users s)" "clients_ok (s_users s) (s_clients s)"
  using assms by (simp_all add: srv_ok_def)

lemma srv_ok_same: "srv_ok s \<Longrightarrow> s_users t = s_users s \<Longrightarrow> s_clients t = s_clients s \<Longrightarrow> srv_ok t"
  by (simp add: srv_ok_def)

section \<open>Changing one client\<close>

lemma client_ok_zero [simp]: "client_ok us (zero_client\<lparr>c_fd := f\<rparr>)"
  by (simp add: client_ok_def zero_client_def INPUT_BUFFER_SIZE_def)

lemma clients_ok_upd:
  assumes ok: "clients_ok us cs" and c: "client_ok us c"
    and no: "\<And>j. j < length cs \<Longrightarrow> j \<noteq> i \<Longrightarrow> c_logged_in c \<Longrightarrow> c_logged_in (cs ! j) \<Longrightarrow> c_user_id (cs ! j) \<noteq> c_user_id c"
  shows "clients_ok us (cs[i := c])"
proof -
  have "a = b" if "a < length cs" "b < length cs" "c_logged_in (cs[i := c] ! a)" "c_logged_in (cs[i := c] ! b)"
    "c_user_id (cs[i := c] ! a) = c_user_id (cs[i := c] ! b)" for a b
  proof (cases "a = i"; cases "b = i")
    assume "a = i" "b \<noteq> i"
    with no [of b] that show ?thesis by simp
  next
    assume "a \<noteq> i" "b = i"
    with no [of a] that show ?thesis by simp
  next
    assume "a \<noteq> i" "b \<noteq> i"
    with that ok show ?thesis unfolding clients_ok_def by (metis nth_list_update_neq)
  qed simp
  moreover have "client_ok us (cs[i := c] ! a)" if "a < length cs" for a
    using ok c that by (simp add: clients_ok_def nth_upd)
  ultimately show ?thesis using ok by (simp add: clients_ok_def)
qed

lemma clients_ok_out:
  "clients_ok us cs \<Longrightarrow> client_ok us c \<Longrightarrow> \<not> c_logged_in c \<Longrightarrow> clients_ok us (cs[i := c])"
  by (rule clients_ok_upd) auto

lemma clients_ok_keep:
  assumes ok: "clients_ok us cs" and i: "i < length cs" and c: "client_ok us c"
    "c_logged_in c = c_logged_in (cs ! i)" "c_user_id c = c_user_id (cs ! i)"
  shows "clients_ok us (cs[i := c])"
  using ok c(1)
proof (rule clients_ok_upd)
  fix j assume "j < length cs" "j \<noteq> i" "c_logged_in c" "c_logged_in (cs ! j)"
  with ok i c(2,3) show "c_user_id (cs ! j) \<noteq> c_user_id c" unfolding clients_ok_def by metis
qed

lemma clients_ok_login:
  assumes ok: "clients_ok us cs" and c: "client_ok us c"
    and no: "find_client_by_user_id cs (c_user_id c) = None"
  shows "clients_ok us (cs[i := c])"
  using ok c
proof (rule clients_ok_upd)
  fix j assume j: "j < length cs" "c_logged_in (cs ! j)"
  with ok have "c_active (cs ! j)" by (simp add: clients_ok_def client_ok_def)
  with j no show "c_user_id (cs ! j) \<noteq> c_user_id c"
    by (auto simp: find_client_by_user_id_def first_index_None_iff)
qed

lemma disconnect_ok:
  assumes "srv_ok s"
  shows "srv_ok (disconnect_client ci s)"
  using assms clients_ok_out [of "s_users s" "s_clients s" "zero_client\<lparr>c_fd := -1\<rparr>" ci]
  by (auto simp: srv_ok_def disconnect_client_def Let_def) (simp_all add: zero_client_def)

lemma client_ok_menu [simp]: "client_ok us (c\<lparr>c_menu := m\<rparr>) = client_ok us c"
  "client_ok us (c\<lparr>c_fd := f\<rparr>) = client_ok us c" "client_ok us (c\<lparr>c_partner := p\<rparr>) = client_ok us c"
  by (simp_all add: client_ok_def)

lemma clients_ok_nth: "clients_ok us cs \<Longrightarrow> i < MAX_CLIENTS \<Longrightarrow> client_ok us (cs ! i)"
  by (simp add: clients_ok_def)

lemma list_ok:
  assumes "srv_ok s" "ci < MAX_CLIENTS"
  shows "srv_ok (show_conversation_list env ci s)"
proof -
  have "clients_ok (s_users s) ((s_clients s)[ci := (s_clients s ! ci)\<lparr>c_menu := m\<rparr>])" for m
    using assms by (intro clients_ok_keep) (auto simp: srv_ok_def clients_ok_def)
  with assms show ?thesis by (simp add: srv_ok_def show_conversation_list_state)
qed

lemma mode_ok:
  assumes "srv_ok s" "ci < MAX_CLIENTS" "c_logged_in (s_clients s ! ci)" "m \<noteq> MODE_LOGIN"
    "m = MODE_ADMIN \<longrightarrow> is_admin_id (s_users s) (c_user_id (s_clients s ! ci))"
    "\<And>c. f c = c\<lparr>c_mode := m, c_partner := c_partner (f c)\<rparr>"
  shows "srv_ok (upd_client ci f s)"
proof -
  have ok: "client_ok (s_users s) (s_clients s ! ci)" using assms(1,2) by (auto simp: srv_ok_def clients_ok_def)
  have f: "c_logged_in (f c) = c_logged_in c" "c_user_id (f c) = c_user_id c" "c_input (f c) = c_input c"
    "c_active (f c) = c_active c" "c_mode (f c) = m" for c
    by (subst assms(6), simp)+
  have "client_ok (s_users s) (f (s_clients s ! ci))"
    using ok assms(3-5) unfolding client_ok_def f by simp
  then have "clients_ok (s_users s) ((s_clients s)[ci := f (s_clients s ! ci)])"
    using assms(1,2) f by (intro clients_ok_keep) (auto simp: srv_ok_def clients_ok_def)
  with assms(1) show ?thesis by (simp add: srv_ok_def upd_client_def)
qed

lemma open_chat_ok:
  assumes "srv_ok s" "ci < MAX_CLIENTS" "c_logged_in (s_clients s ! ci)"
  shows "srv_ok (open_chat env ci p s)"
proof -
  have "srv_ok (upd_client ci (\<lambda>c. c\<lparr>c_mode := MODE_CHAT, c_partner := p\<rparr>) s)"
    by (rule mode_ok [OF assms, of MODE_CHAT]) simp_all
  with assms(1) show ?thesis
    by (auto simp: open_chat_def Let_def same_dbD split: option.splits intro: srv_ok_same)
qed

section \<open>The user table\<close>

lemma is_admin_id_append: "is_admin_id us i \<Longrightarrow> is_admin_id (us @ vs) i"
proof -
  have "first_index P us = Some k \<Longrightarrow> first_index P (us @ vs) = Some k" for P :: "user \<Rightarrow> bool" and k
    by (induction us arbitrary: k) auto
  then show "is_admin_id us i \<Longrightarrow> is_admin_id (us @ vs) i"
    by (auto simp: is_admin_id_def find_user_index_by_id_def nth_append split: option.splits dest: first_index_less)
qed

lemma client_ok_mono:
  assumes "client_ok us c" "\<And>u. u \<in> set us \<Longrightarrow> u_active u \<noteq> 0 \<Longrightarrow> \<exists>v \<in> set vs. u_id v = u_id u \<and> u_active v \<noteq> 0"
    "\<And>i. is_admin_id us i \<Longrightarrow> is_admin_id vs i"
  shows "client_ok vs c"
  using assms unfolding client_ok_def by (metis (full_types))

lemma clients_ok_mono:
  assumes "clients_ok us cs" "\<And>u. u \<in> set us \<Longrightarrow> u_active u \<noteq> 0 \<Longrightarrow> \<exists>v \<in> set vs. u_id v = u_id u \<and> u_active v \<noteq> 0"
    "\<And>i. is_admin_id us i \<Longrightarrow> is_admin_id vs i"
  shows "clients_ok vs cs"
  using assms(1) client_ok_mono [OF _ assms(2,3)] unfolding clients_ok_def by blast

lemma clients_ok_append: "clients_ok us cs \<Longrightarrow> clients_ok (us @ vs) cs"
  by (erule clients_ok_mono) (auto intro: is_admin_id_append)

lemma get_max_user_id_append: "get_max_user_id (us @ [u]) = max (get_max_user_id us) (u_id u)"
  by (simp add: get_max_user_id_def max_id_from_append max_def)

text \<open>A new user's id is fresh, and there is still room for the ids of all later users.\<close>

lemma users_ok_add:
  assumes ok: "users_ok us" and room: "length us < MAX_USERS" and n: "name_ok nm"
    and new: "find_user_index_by_name us nm = None"
  shows "users_ok (us @ [\<lparr>u_id = to_int (get_max_user_id us + 1), u_name = nm, u_active = 1, u_is_admin = 0\<rparr>])"
proof -
  let ?m = "get_max_user_id us"
  have m: "0 \<le> ?m" "?m + int (MAX_USERS - length us) < 2 ^ 31" using ok get_max_user_id_ge(2) by (auto simp: users_ok_def)
  then have r: "int_range (?m + 1)" using room by (simp add: int_range_def)
  have "u_id u \<le> ?m" if "u \<in> set us" for u using that by (rule get_max_user_id_ge)
  then have "?m + 1 \<notin> set (map u_id us)" by force
  moreover have "nm \<notin> set (map u_name us)" using new by (auto simp: find_user_index_by_name_def first_index_None_iff)
  moreover have "user_ok \<lparr>u_id = ?m + 1, u_name = nm, u_active = 1, u_is_admin = 0\<rparr>"
    using n r by (simp add: user_ok_def int_range_def)
  moreover have "max ?m (?m + 1) + int (MAX_USERS - Suc (length us)) < 2 ^ 31" using m room by simp
  ultimately show ?thesis using ok room r by (simp add: users_ok_def get_max_user_id_append)
qed

lemma get_max_user_id_update: "u_id v = u_id (us ! i) \<Longrightarrow> get_max_user_id (us[i := v]) = get_max_user_id us"
proof -
  assume "u_id v = u_id (us ! i)"
  then have "map u_id (us[i := v]) = map u_id us"
    by (metis list_update_id map_update)
  then show ?thesis unfolding get_max_user_id_def by (rule max_id_from_ids)
qed

lemma users_ok_active:
  assumes ok: "users_ok us" and i: "i < length us" and a: "int_range a"
  shows "users_ok (us[i := (us ! i)\<lparr>u_active := a\<rparr>])"
proof -
  have m: "map u_id (us[i := (us ! i)\<lparr>u_active := a\<rparr>]) = map u_id us" "map u_name (us[i := (us ! i)\<lparr>u_active := a\<rparr>]) = map u_name us"
    using i by (simp_all add: map_update list_update_same_conv)
  have "user_ok ((us ! i)\<lparr>u_active := a\<rparr>)" using ok i a by (simp add: users_ok_def user_ok_def)
  with ok have "\<forall>u \<in> set (us[i := (us ! i)\<lparr>u_active := a\<rparr>]). user_ok u"
    using set_update_subset_insert [of us i] unfolding users_ok_def by blast
  moreover have g: "get_max_user_id (us[i := (us ! i)\<lparr>u_active := a\<rparr>]) = get_max_user_id us"
    by (rule get_max_user_id_update) simp
  ultimately show ?thesis using ok unfolding users_ok_def m g length_list_update by blast
qed

lemma is_admin_id_active:
  assumes "i < length us"
  shows "is_admin_id (us[i := (us ! i)\<lparr>u_active := a\<rparr>]) k = is_admin_id us k"
proof -
  have "first_index (\<lambda>u. u_id u = k) (us[i := (us ! i)\<lparr>u_active := a\<rparr>]) = first_index (\<lambda>u. u_id u = k) us"
    using assms by (induction us arbitrary: i) (auto split: nat.splits)
  moreover have "u_is_admin (us[i := (us ! i)\<lparr>u_active := a\<rparr>] ! j) = u_is_admin (us ! j)" for j
    using assms by (cases "i = j") simp_all
  ultimately show ?thesis by (simp add: is_admin_id_def find_user_index_by_id_def split: option.splits)
qed

section \<open>The handlers\<close>

lemma login_as_ok:
  assumes ok: "srv_ok s" and ci: "ci < MAX_CLIENTS" "c_active (s_clients s ! ci)"
    and ui: "ui < length (s_users s)" "u_active (s_users s ! ui) \<noteq> 0"
    and no: "find_client_by_user_id (s_clients s) (u_id (s_users s ! ui)) = None"
  shows "srv_ok (snd (login_as env ci ui s))"
proof -
  let ?u = "s_users s ! ui"
  let ?c = "(s_clients s ! ci)\<lparr>c_user_id := u_id ?u, c_logged_in := True, c_mode := MODE_MENU\<rparr>"
  have "client_ok (s_users s) (s_clients s ! ci)" using ok ci by (auto simp: srv_ok_def clients_ok_def)
  then have "client_ok (s_users s) ?c" using ci(2) ui by (auto simp: client_ok_def)
  then have "clients_ok (s_users s) ((s_clients s)[ci := ?c])"
    using ok no by (intro clients_ok_login) (auto simp: srv_ok_def)
  then have "srv_ok (upd_client ci (\<lambda>c. c\<lparr>c_user_id := u_id ?u, c_logged_in := True, c_mode := MODE_MENU\<rparr>) s)"
    using ok by (simp add: srv_ok_def upd_client_def)
  with ci(1) show ?thesis
    by (auto simp: login_as_def Let_def intro!: list_ok intro: srv_ok_same)
qed

lemma find_client_none_fresh:
  assumes "srv_ok s"
  shows "find_client_by_user_id (s_clients s) (get_max_user_id (s_users s) + 1) = None"
proof -
  have "c_user_id c \<noteq> get_max_user_id (s_users s) + 1" if "c \<in> set (s_clients s)" "c_logged_in c" for c
  proof -
    from that assms have "client_ok (s_users s) c" by (auto simp: srv_ok_def clients_ok_def in_set_conv_nth)
    with that obtain u where "u \<in> set (s_users s)" "u_id u = c_user_id c" by (auto simp: client_ok_def)
    with get_max_user_id_ge(1) show ?thesis by fastforce
  qed
  then show ?thesis by (auto simp: find_client_by_user_id_def first_index_None_iff)
qed

lemma process_login_ok:
  assumes ok: "srv_ok s" and ci: "ci < MAX_CLIENTS" "c_active (s_clients s ! ci)" and nul: "NUL \<notin> set line"
  shows "srv_ok (snd (process_login env ci line s))"
proof -
  let ?l = "sanitize_message line"
  have dis: "srv_ok (disconnect_client ci (send_text fd t s'))" if "srv_ok s'" for fd t s'
    by (rule disconnect_ok, rule srv_ok_same [OF that]) simp_all
  show ?thesis
  proof (cases "?l = [] \<or> length ?l \<ge> USERNAME_SIZE")
    case True
    then show ?thesis using ok by (auto simp: process_login_def Let_def intro: srv_ok_same)
  next
    case False
    then have name: "name_ok ?l" using sanitize_NUL [OF nul] sanitize_clean [of _ line]
      by (auto simp: name_ok_def USERNAME_SIZE_def)
    show ?thesis
    proof (cases "find_user_index_by_name (s_users s) ?l")
      case (Some ui)
      then have "ui < length (s_users s)" by (auto simp: find_user_index_by_name_def)
      with False Some dis [OF ok] login_as_ok [OF ok ci] show ?thesis
        by (auto simp: process_login_def Let_def)
    next
      case None
      let ?u = "\<lparr>u_id = to_int (get_max_user_id (s_users s) + 1), u_name = take (USERNAME_SIZE - 1) ?l, u_active = 1, u_is_admin = 0\<rparr>"
      let ?s = "s\<lparr>s_users := s_users s @ [?u]\<rparr>"
      show ?thesis
      proof (cases "length (s_users s) \<ge> MAX_USERS")
        case True
        with False None dis [OF ok] show ?thesis by (simp add: process_login_def Let_def)
      next
        case room: False
        have tk: "take (USERNAME_SIZE - 1) ?l = ?l" using False by (simp add: USERNAME_SIZE_def)
        have users: "users_ok (s_users ?s)"
          using users_ok_add [OF _ _ name None] ok room tk by (simp add: srv_ok_def)
        have "clients_ok (s_users ?s) (s_clients s)"
          using ok by (simp add: srv_ok_def clients_ok_append)
        with users have ok2: "srv_ok ?s" by (simp add: srv_ok_def)
        have "int_range (u_id ?u)" using users by (simp add: users_ok_def user_ok_def)
        have m: "to_int (get_max_user_id (s_users s) + 1) = get_max_user_id (s_users s) + 1"
          using ok room get_max_user_id_ge(2) [of "s_users s"]
          by (intro to_int_id) (auto simp: srv_ok_def users_ok_def int_range_def)
        obtain r s' where r: "save_users (e_save_ok env) ?s = (r, s')" by fastforce
        have cl: "s_clients s' = s_clients s" "s_users s' = s_users s @ [?u]"
          by (simp_all add: arg_cong [OF r, of snd, simplified, symmetric])
        have s': "srv_ok s'" by (rule srv_ok_same [OF ok2]) (simp_all add: cl)
        have "srv_ok (snd (login_as env ci (length (s_users s)) s'))"
          using find_client_none_fresh [OF ok] ci cl m by (intro login_as_ok [OF s']) simp_all
        moreover have "process_login env ci line s = (if r < 0
            then (0, disconnect_client ci (send_text (cfd_at s ci) (''Could not save user.'' @ [NL]) s'))
            else login_as env ci (length (s_users s)) s')"
          using False None room r by (simp add: process_login_def Let_def)
        ultimately show ?thesis using dis [OF s'] by simp
      qed
    qed
  qed
qed

lemma process_menu_ok:
  assumes ok: "srv_ok s" and ci: "ci < MAX_CLIENTS" "c_logged_in (s_clients s ! ci)"
  shows "srv_ok (snd (process_menu env ci line s))"
proof -
  have "srv_ok (upd_client ci (\<lambda>c. c\<lparr>c_mode := MODE_ADMIN\<rparr>) s)" if "is_admin_id (s_users s) (c_user_id (s_clients s ! ci))"
    by (rule mode_ok [OF ok ci, of MODE_ADMIN]) (use that in simp_all)
  then have "srv_ok (show_admin_page ci (upd_client ci (\<lambda>c. c\<lparr>c_mode := MODE_ADMIN\<rparr>) s))"
    if "is_admin_id (s_users s) (c_user_id (s_clients s ! ci))"
    using that by (auto simp: same_dbD intro: srv_ok_same)
  moreover have "srv_ok (disconnect_client ci (send_text fd t s))" for fd t
    by (rule disconnect_ok, rule srv_ok_same [OF ok]) simp_all
  moreover have "srv_ok (send_text fd t s)" for fd t by (rule srv_ok_same [OF ok]) simp_all
  ultimately show ?thesis using list_ok [OF ok ci(1)] open_chat_ok [OF ok ci]
    by (auto simp: process_menu_def Let_def split: option.splits list.splits)
qed

lemma process_chat_ok:
  assumes ok: "srv_ok s" and ci: "ci < MAX_CLIENTS" "c_logged_in (s_clients s ! ci)"
  shows "srv_ok (snd (process_chat env ci line s))"
proof -
  have "srv_ok (upd_client ci (\<lambda>c. c\<lparr>c_mode := MODE_MENU, c_partner := -1\<rparr>) s)"
    by (rule mode_ok [OF ok ci, of MODE_MENU]) simp_all
  with ci(1) have "srv_ok (show_conversation_list env ci (upd_client ci (\<lambda>c. c\<lparr>c_mode := MODE_MENU, c_partner := -1\<rparr>) s))"
    by (intro list_ok)
  moreover have "srv_ok t" if "s_users t = s_users s" "s_clients t = s_clients s" for t
    by (rule srv_ok_same [OF ok that])
  ultimately show ?thesis
    by (auto simp: process_chat_def Let_def append_message_def split: option.splits)
qed

end
