(* ===== verification/Chat_Reach.thy ===== *)
theory Chat_Reach
  imports Chat_Inv
begin

text \<open>
  The admin page keeps the invariant of \<open>chat/server.c\<close>, and so do lines, received bytes,
  connections and whole runs of the event loop.
\<close>

section \<open>The admin page\<close>

lemma client_ok_deactivate:
  assumes c: "client_ok us c" and i: "i < length us" and other: "c_logged_in c \<Longrightarrow> c_user_id c \<noteq> u_id (us ! i)"
  shows "client_ok (us[i := (us ! i)\<lparr>u_active := a\<rparr>]) c"
proof -
  have "\<exists>u \<in> set (us[i := (us ! i)\<lparr>u_active := a\<rparr>]). u_id u = c_user_id c \<and> u_active u \<noteq> 0" if l: "c_logged_in c"
  proof -
    from c l obtain u where u: "u \<in> set us" "u_id u = c_user_id c" "u_active u \<noteq> 0" by (auto simp: client_ok_def)
    then obtain k where k: "k < length us" "us ! k = u" by (auto simp: in_set_conv_nth)
    with other [OF l] u have "k \<noteq> i" by auto
    with k have "us[i := (us ! i)\<lparr>u_active := a\<rparr>] ! k = u" "k < length (us[i := (us ! i)\<lparr>u_active := a\<rparr>])" by simp_all
    with u show ?thesis by (metis nth_mem)
  qed
  with c i show ?thesis unfolding client_ok_def by (simp add: is_admin_id_active)
qed

lemma client_ok_activate:
  assumes c: "client_ok us c" and i: "i < length us"
  shows "client_ok (us[i := (us ! i)\<lparr>u_active := 1\<rparr>]) c"
proof -
  have "\<exists>u \<in> set (us[i := (us ! i)\<lparr>u_active := 1\<rparr>]). u_id u = c_user_id c \<and> u_active u \<noteq> 0" if "c_logged_in c"
  proof -
    from c that obtain k where k: "k < length us" "u_id (us ! k) = c_user_id c" "u_active (us ! k) \<noteq> 0"
      by (auto simp: client_ok_def in_set_conv_nth)
    then have "u_id (us[i := (us ! i)\<lparr>u_active := 1\<rparr>] ! k) = c_user_id c \<and> u_active (us[i := (us ! i)\<lparr>u_active := 1\<rparr>] ! k) \<noteq> 0"
      by (simp add: nth_upd)
    with k(1) show ?thesis by (metis length_list_update nth_mem)
  qed
  with c i show ?thesis unfolding client_ok_def by (simp add: is_admin_id_active)
qed

lemma find_client_unique:
  assumes ok: "clients_ok us cs" and f: "find_client_by_user_id cs uid = Some tc"
    and j: "j < length cs" "c_logged_in (cs ! j)" "c_user_id (cs ! j) = uid"
  shows "j = tc"
proof -
  from f have "tc < length cs" "c_logged_in (cs ! tc)" "c_user_id (cs ! tc) = uid"
    unfolding find_client_by_user_id_def by (auto dest: first_index_SomeD)
  with ok j show ?thesis unfolding clients_ok_def by metis
qed

lemma find_client_none:
  assumes ok: "clients_ok us cs" and f: "find_client_by_user_id cs uid = None"
    and j: "j < length cs" "c_logged_in (cs ! j)"
  shows "c_user_id (cs ! j) \<noteq> uid"
proof -
  from ok j have "c_active (cs ! j)" by (simp add: clients_ok_def client_ok_def)
  with f j show ?thesis by (auto simp: find_client_by_user_id_def first_index_None_iff)
qed

lemma clients_ok_clients:
  assumes "clients_ok us cs" "\<And>j. j < length cs \<Longrightarrow> client_ok vs (cs ! j)"
  shows "clients_ok vs cs"
  using assms unfolding clients_ok_def by blast

lemma remove_user_ok:
  assumes ok: "srv_ok s" and t: "t < length (s_users s)"
  shows "srv_ok (remove_user env ci t s)"
proof -
  let ?us = "(s_users s)[t := (s_users s ! t)\<lparr>u_active := 0\<rparr>]"
  let ?uid = "u_id (s_users s ! t)"
  have us: "users_ok ?us" using users_ok_active [OF _ t, of 0] ok by (auto simp: srv_ok_def int_range_def)
  have ck: "clients_ok (s_users s) (s_clients s)" using ok by (simp add: srv_ok_def)
  have core: "srv_ok (case find_client_by_user_id (s_clients s) ?uid of None \<Rightarrow> u
      | Some tc \<Rightarrow> disconnect_client tc (send_text (fd tc) x u))"
    if u: "s_users u = ?us" "s_clients u = s_clients s" for u x and fd :: "nat \<Rightarrow> int"
  proof (cases "find_client_by_user_id (s_clients s) ?uid")
    case None
    have "clients_ok ?us (s_clients s)"
      using ck
    proof (rule clients_ok_clients)
      fix j assume j: "j < length (s_clients s)"
      show "client_ok ?us (s_clients s ! j)"
        using ck j find_client_none [OF ck None j] t by (intro client_ok_deactivate) (auto simp: clients_ok_def)
    qed
    with us u None show ?thesis by (simp add: srv_ok_def)
  next
    case (Some tc)
    then have tc: "tc < length (s_clients s)" "c_active (s_clients s ! tc)"
      unfolding find_client_by_user_id_def by (auto dest: first_index_SomeD)
    let ?cs = "(s_clients s)[tc := zero_client\<lparr>c_fd := -1\<rparr>]"
    have "clients_ok (s_users s) ?cs" by (rule clients_ok_out [OF ck client_ok_zero]) (simp add: zero_client_def)
    then have "clients_ok ?us ?cs"
    proof (rule clients_ok_clients)
      fix j assume j: "j < length ?cs"
      show "client_ok ?us (?cs ! j)"
      proof (cases "j = tc")
        case True
        with tc show ?thesis by (simp add: client_ok_def zero_client_def INPUT_BUFFER_SIZE_def)
      next
        case False
        have "client_ok (s_users s) (s_clients s ! j)" using ck j by (simp add: clients_ok_def)
        then have "client_ok ?us (s_clients s ! j)"
          using find_client_unique [OF ck Some, of j] j False t by (intro client_ok_deactivate) auto
        with False show ?thesis by simp
      qed
    qed
    moreover have "tc < MAX_CLIENTS" using ck tc unfolding clients_ok_def by metis
    ultimately show ?thesis using us u tc Some
      by (simp add: srv_ok_def disconnect_client_def Let_def)
  qed
  let ?s1 = "snd (save_users (e_save_ok env) (set_user_active t 0 s))"
  have u1: "s_users ?s1 = ?us" "s_clients ?s1 = s_clients s" by (simp_all add: set_user_active_def)
  have id: "u_id (?us ! t) = ?uid" using t by simp
  show ?thesis unfolding remove_user_def Let_def u1 id
    by (rule srv_ok_same [OF core [OF u1, where fd = "cfd_at ?s1"]]) (simp_all add: same_dbD)
qed

lemma restore_user_ok:
  assumes ok: "srv_ok s" and t: "t < length (s_users s)"
  shows "srv_ok (restore_user env ci t s)"
proof -
  let ?us = "(s_users s)[t := (s_users s ! t)\<lparr>u_active := 1\<rparr>]"
  have "users_ok ?us" using users_ok_active [OF _ t, of 1] ok by (auto simp: srv_ok_def int_range_def)
  moreover have "clients_ok ?us (s_clients s)"
  proof (rule clients_ok_clients)
    show ck: "clients_ok (s_users s) (s_clients s)" using ok by (simp add: srv_ok_def)
    fix j assume "j < length (s_clients s)"
    with ck show "client_ok ?us (s_clients s ! j)" by (intro client_ok_activate [OF _ t]) (simp add: clients_ok_def)
  qed
  ultimately show ?thesis by (simp add: srv_ok_def restore_user_def Let_def same_dbD set_user_active_def)
qed

lemma process_admin_ok:
  assumes ok: "srv_ok s" and ci: "ci < MAX_CLIENTS" "c_logged_in (s_clients s ! ci)"
  shows "srv_ok (snd (process_admin env ci line s))"
proof -
  have "srv_ok (upd_client ci (\<lambda>c. c\<lparr>c_mode := MODE_MENU\<rparr>) s)"
    by (rule mode_ok [OF ok ci, of MODE_MENU]) simp_all
  with ci(1) have "srv_ok (show_conversation_list env ci (upd_client ci (\<lambda>c. c\<lparr>c_mode := MODE_MENU\<rparr>) s))"
    by (intro list_ok)
  moreover have "srv_ok (send_text fd t s)" for fd t by (rule srv_ok_same [OF ok]) simp_all
  moreover have "srv_ok (remove_user env ci (nat (k - 1)) s)" "srv_ok (restore_user env ci (nat (k - 1)) s)"
    if "\<not> (k < 1 \<or> k > int (length (s_users s)))" for k
  proof -
    have "nat (k - 1) < length (s_users s)" using that by linarith
    then show "srv_ok (remove_user env ci (nat (k - 1)) s)" "srv_ok (restore_user env ci (nat (k - 1)) s)"
      by (simp_all add: remove_user_ok restore_user_ok ok)
  qed
  ultimately show ?thesis
    by (auto simp: process_admin_def Let_def split: list.splits scan_arg.splits)
qed

section \<open>Lines, bytes and connections\<close>

lemma process_line_ok:
  assumes ok: "srv_ok s" and ci: "ci < MAX_CLIENTS" "c_active (s_clients s ! ci)" and nul: "NUL \<notin> set line"
  shows "srv_ok (snd (process_line env ci line s))"
proof -
  have "client_ok (s_users s) (s_clients s ! ci)" using ok ci by (auto simp: srv_ok_def clients_ok_def)
  then have "c_mode (s_clients s ! ci) \<noteq> MODE_LOGIN \<Longrightarrow> c_logged_in (s_clients s ! ci)"
    by (auto simp: client_ok_def split: if_splits)
  with process_login_ok [OF ok ci sanitize_NUL [OF nul]] process_menu_ok [OF ok ci(1)]
    process_chat_ok [OF ok ci(1)] process_admin_ok [OF ok ci(1)]
  show ?thesis by (cases "c_mode (s_clients s ! ci)") (simp_all add: process_line_def Let_def)
qed

lemma input_ok:
  assumes ok: "srv_ok s" and ci: "ci < MAX_CLIENTS"
    and f: "\<And>c. f c = c\<lparr>c_input := c_input (f c)\<rparr>" "length (c_input (f (s_clients s ! ci))) < INPUT_BUFFER_SIZE"
  shows "srv_ok (upd_client ci f s)"
proof -
  have g: "c_logged_in (f c) = c_logged_in c" "c_user_id (f c) = c_user_id c" "c_mode (f c) = c_mode c"
    "c_active (f c) = c_active c" for c by (subst f(1), simp)+
  have "client_ok (s_users s) (s_clients s ! ci)" using ok ci by (auto simp: srv_ok_def clients_ok_def)
  with f(2) have "client_ok (s_users s) (f (s_clients s ! ci))" unfolding client_ok_def g by blast
  then have "clients_ok (s_users s) ((s_clients s)[ci := f (s_clients s ! ci)])"
    using ok ci g by (intro clients_ok_keep) (auto simp: srv_ok_def clients_ok_def)
  with ok show ?thesis by (simp add: srv_ok_def upd_client_def)
qed

lemma process_lines_ok: "srv_ok s \<Longrightarrow> srv_ok (process_lines env k ci s)"
proof (induction env k ci s rule: process_lines.induct)
  case (1 env k ci s)
  have len: "length (s_clients s) = MAX_CLIENTS" using 1(2) by (simp add: srv_ok_def clients_ok_def)
  show ?case
  proof (cases "ci < length (s_clients s) \<and> c_active (s_clients s ! ci) \<and> NL \<in> set (c_input (s_clients s ! ci))")
    case False
    then have "process_lines env k ci s = s" by (subst process_lines.simps) auto
    with 1(2) show ?thesis by simp
  next
    case True
    obtain r s' where p: "process_line (env k) ci (cstr (line_start ci s)) (drop_line ci s) = (r, s')" by fastforce
    have ci: "ci < MAX_CLIENTS" using True len by simp
    have "length (c_input (s_clients s ! ci)) < INPUT_BUFFER_SIZE"
      using 1(2) ci len by (auto simp: srv_ok_def clients_ok_def client_ok_def)
    then have d: "srv_ok (drop_line ci s)" unfolding drop_line_def
      using 1(2) ci by (intro input_ok) simp_all
    have "c_active (s_clients (drop_line ci s) ! ci)" using True by (simp add: drop_line_def upd_client_def)
    from process_line_ok [OF d ci this NUL_notin_cstr, of "env k" "line_start ci s"] p have s': "srv_ok s'" by simp
    have step: "process_lines env k ci s = (if r = 0 then s' else process_lines env (Suc k) ci s')"
      using True p by (subst process_lines.simps) simp
    show ?thesis
    proof (cases "r = 0")
      case True
      with step s' show ?thesis by simp
    next
      case False
      with 1(1) [OF _ _ p [symmetric] False s'] True step show ?thesis by simp
    qed
  qed
qed

lemma handle_accept_ok:
  assumes ok: "srv_ok s"
  shows "srv_ok (handle_accept fd add_ok s)"
proof -
  have n: "client_ok (s_users s) (new_client fd)" "\<not> c_logged_in (new_client fd)"
    by (simp_all add: new_client_def client_ok_def zero_client_def INPUT_BUFFER_SIZE_def)
  have "srv_ok (s\<lparr>s_clients := (s_clients s)[ci := new_client fd]\<rparr>)" for ci
    using ok clients_ok_out [OF _ n, of "s_clients s" ci] by (simp add: srv_ok_def)
  then have "srv_ok t" if "s_users t = s_users s" "s_clients t = (s_clients s)[ci := new_client fd]" for t ci
    using that srv_ok_same [of "s\<lparr>s_clients := (s_clients s)[ci := new_client fd]\<rparr>" t] by simp
  moreover have "srv_ok t" if "s_users t = s_users s" "s_clients t = s_clients s" for t
    by (rule srv_ok_same [OF ok that])
  ultimately show ?thesis using ok
    by (auto simp: handle_accept_def Let_def split: option.splits intro!: disconnect_ok)
qed

lemma handle_data_ok:
  assumes ok: "srv_ok s"
  shows "srv_ok (handle_data fd ans env s)"
proof (cases "find_client_by_fd (s_clients s) fd")
  case None
  with ok show ?thesis by (simp add: handle_data_def)
next
  case (Some ci)
  then have ci: "ci < MAX_CLIENTS" using ok by (auto simp: find_client_by_fd_def srv_ok_def clients_ok_def)
  have "srv_ok (upd_client ci (\<lambda>c. c\<lparr>c_input := []\<rparr>) (send_text fd' t s))" for fd' t
    by (rule input_ok) (use ci srv_ok_same [OF ok, of "send_text fd' t s"] in \<open>simp_all add: INPUT_BUFFER_SIZE_def\<close>)
  moreover have "srv_ok (upd_client ci (\<lambda>c. c\<lparr>c_input := c_input c @ bs\<rparr>) s)"
    if "\<not> length (c_input (s_clients s ! ci)) + length bs \<ge> INPUT_BUFFER_SIZE" for bs
    by (rule input_ok [OF ok ci]) (use that in simp_all)
  ultimately show ?thesis using ok Some
    by (auto simp: handle_data_def disconnect_ok process_lines_ok split: sock_read.splits)
qed

lemma handle_event_ok: "srv_ok s \<Longrightarrow> srv_ok (handle_event ev s)"
  by (cases ev) (simp_all add: handle_accept_ok handle_data_ok)

lemma chat_run_ok: "srv_ok s \<Longrightarrow> srv_ok (chat_run evs s)"
  unfolding chat_run_def by (induction evs arbitrary: s) (simp_all add: handle_event_ok)

end
