(* ===== verification/Framing.thy ===== *)
theory Framing
  imports Chat_Text
begin

text \<open>
  The line framing the chat servers share: received bytes are appended to an input buffer and
  every complete line is taken off the front and handled, until the client is gone.  The
  contract \<open>line_server\<close> asks that handling a line neither reads nor writes the buffer of a
  client that stays; then how the bytes were cut into receives does not matter.
\<close>

definition first_line :: "string \<Rightarrow> string" where
  "first_line buf = takeWhile (\<lambda>c. c \<noteq> NL) buf"

definition after_line :: "string \<Rightarrow> string" where
  "after_line buf = drop (length (first_line buf) + 1) buf"

lemma first_line_append: "NL \<in> set buf \<Longrightarrow> first_line (buf @ b) = first_line buf"
  by (induction buf) (auto simp: first_line_def)

lemma length_first_line: "NL \<in> set buf \<Longrightarrow> length (first_line buf) < length buf"
  by (induction buf) (auto simp: first_line_def)

lemma after_line_append: "NL \<in> set buf \<Longrightarrow> after_line (buf @ b) = after_line buf @ b"
  using length_first_line [of buf] by (simp add: after_line_def first_line_append)

lemma length_after_line: "NL \<in> set buf \<Longrightarrow> length (after_line buf) < length buf"
  using length_first_line [of buf] by (simp add: after_line_def)

locale line_server =
  fixes active :: "'s \<Rightarrow> bool"
    and input :: "'s \<Rightarrow> string"
    and set_input :: "string \<Rightarrow> 's \<Rightarrow> 's"
    and handle :: "string \<Rightarrow> 's \<Rightarrow> int \<times> 's"
    and run :: "'s \<Rightarrow> 's"
  assumes active_set: "active s \<Longrightarrow> active (set_input x s)"
    and input_set: "active s \<Longrightarrow> input (set_input x s) = x"
    and set_set: "set_input y (set_input x s) = set_input y s"
    and handle_set: "active s \<Longrightarrow> handle l s = (r, t) \<Longrightarrow>
      handle l (set_input x s) = (r, if active t then set_input x t else t)"
    and handle_input: "active s \<Longrightarrow> handle l s = (r, t) \<Longrightarrow> active t \<Longrightarrow> input t = input s"
    and handle_gone: "active s \<Longrightarrow> handle l s = (0, t) \<Longrightarrow> \<not> active t"
    and run_inactive: "\<not> active s \<Longrightarrow> run s = s"
    and run_unfold: "active s \<Longrightarrow> run s =
      (if NL \<notin> set (input s) then s
       else case handle (cstr (first_line (input s))) (set_input (after_line (input s)) s) of (r, t) \<Rightarrow>
         if r = 0 then t else run t)"
begin

definition feed :: "string \<Rightarrow> 's \<Rightarrow> 's" where
  "feed b s = set_input (input s @ b) s"

lemma run_step:
  assumes "active s" "NL \<in> set (input s)"
  shows "run s = run (snd (handle (cstr (first_line (input s))) (set_input (after_line (input s)) s)))"
proof -
  obtain r t where h: "handle (cstr (first_line (input s))) (set_input (after_line (input s)) s) = (r, t)" by fastforce
  have a: "active (set_input (after_line (input s)) s)" using assms(1) by (rule active_set)
  show ?thesis
  proof (cases "r = 0")
    case True
    with handle_gone [OF a] h have "\<not> active t" by simp
    with h True assms show ?thesis by (simp add: run_unfold run_inactive)
  next
    case False
    with h assms show ?thesis by (simp add: run_unfold)
  qed
qed

text \<open>Two receives are one receive of both, unless the client was gone after the first.\<close>

lemma run_feed:
  "active s \<Longrightarrow> run (feed b s) = (if active (run s) then run (feed b (run s)) else run s)"
proof (induction "length (input s)" arbitrary: s rule: less_induct)
  case less
  show ?case
  proof (cases "NL \<in> set (input s)")
    case False
    with less.prems have "run s = s" by (simp add: run_unfold)
    with less.prems show ?thesis by simp
  next
    case True
    let ?l = "cstr (first_line (input s))" and ?x = "after_line (input s)"
    let ?d = "set_input ?x s"
    obtain r t where h: "handle ?l ?d = (r, t)" by fastforce
    have a: "active ?d" "active (feed b s)" using less.prems by (simp_all add: active_set feed_def)
    have i: "input (feed b s) = input s @ b" using less.prems by (simp add: feed_def input_set)
    have "handle ?l (set_input (?x @ b) ?d) = (r, if active t then set_input (?x @ b) t else t)"
      by (rule handle_set [OF a(1) h])
    then have h': "handle (cstr (first_line (input (feed b s)))) (set_input (after_line (input (feed b s))) (feed b s))
        = (r, if active t then set_input (?x @ b) t else t)"
      unfolding i using True by (simp add: first_line_append after_line_append set_set feed_def)
    have run_s: "run s = run t" using run_step [OF less.prems True] h by simp
    have run_f: "run (feed b s) = run (if active t then set_input (?x @ b) t else t)"
      using run_step [OF a(2)] True h' by (simp add: i)
    show ?thesis
    proof (cases "active t")
      case False
      with run_s run_f show ?thesis by (simp add: run_inactive)
    next
      case act: True
      have it: "input t = ?x" using handle_input [OF a(1) h act] less.prems by (simp add: input_set)
      with length_after_line [OF True] less.hyps [of t] act
      have "run (feed b t) = (if active (run t) then run (feed b (run t)) else run t)" by simp
      with act run_s run_f it show ?thesis by (simp add: feed_def)
    qed
  qed
qed

lemma run_input:
  "active s \<Longrightarrow> active (run s) \<Longrightarrow> length (input (run s)) \<le> length (input s) \<and> NL \<notin> set (input (run s))"
proof (induction "length (input s)" arbitrary: s rule: less_induct)
  case less
  show ?case
  proof (cases "NL \<in> set (input s)")
    case False
    with less.prems show ?thesis by (simp add: run_unfold)
  next
    case True
    let ?l = "cstr (first_line (input s))" and ?x = "after_line (input s)"
    let ?d = "set_input ?x s"
    obtain r t where h: "handle ?l ?d = (r, t)" by fastforce
    have a: "active ?d" using less.prems(1) by (rule active_set)
    have run_s: "run s = run t" using run_step [OF less.prems(1) True] h by simp
    then have act: "active t" using less.prems(2) by (metis run_inactive)
    have "input t = ?x" using handle_input [OF a h act] less.prems by (simp add: input_set)
    with length_after_line [OF True] less.hyps [of t] act less.prems(2) run_s show ?thesis by fastforce
  qed
qed

end

end
