(* ===== verification/Chat_Chunks.thy ===== *)
theory Chat_Chunks
  imports Chat_Reach Framing
begin

text \<open>
  Handling a line in \<open>chat/server.c\<close> does not look at the input buffer of its client, so the
  server satisfies the framing contract.
\<close>

section \<open>Changing the buffer commutes with everything\<close>

definition here :: "nat \<Rightarrow> server \<Rightarrow> bool" where
  "here ci s \<longleftrightarrow> ci < MAX_CLIENTS \<and> ci < length (s_clients s) \<and> c_active (s_clients s ! ci)"

definition put :: "nat \<Rightarrow> string \<Rightarrow> server \<Rightarrow> server" where
  "put ci x s = upd_client ci (\<lambda>c. c\<lparr>c_input := x\<rparr>) s"

definition put_if :: "nat \<Rightarrow> string \<Rightarrow> server \<Rightarrow> server" where
  "put_if ci x s = (if here ci s then put ci x s else s)"

lemma put_fields [simp]:
  "s_users (put ci x s) = s_users s" "s_users_file (put ci x s) = s_users_file s" "s_msgs (put ci x s) = s_msgs s"
  "s_out (put ci x s) = s_out s" "length (s_clients (put ci x s)) = length (s_clients s)"
  by (simp_all add: put_def upd_client_def)

lemma put_nth:
  "here ci s \<Longrightarrow> s_clients (put ci x s) ! ci = (s_clients s ! ci)\<lparr>c_input := x\<rparr>"
  "j \<noteq> ci \<Longrightarrow> s_clients (put ci x s) ! j = s_clients s ! j"
  by (simp_all add: put_def upd_client_def here_def)

lemma put_clients [simp]:
  "here ci s \<Longrightarrow> cfd_at (put ci x s) j = cfd_at s j"
  "here ci s \<Longrightarrow> c_active (s_clients (put ci x s) ! j) = c_active (s_clients s ! j)"
  "here ci s \<Longrightarrow> c_fd (s_clients (put ci x s) ! j) = c_fd (s_clients s ! j)"
  "here ci s \<Longrightarrow> c_user_id (s_clients (put ci x s) ! j) = c_user_id (s_clients s ! j)"
  "here ci s \<Longrightarrow> c_mode (s_clients (put ci x s) ! j) = c_mode (s_clients s ! j)"
  "here ci s \<Longrightarrow> c_partner (s_clients (put ci x s) ! j) = c_partner (s_clients s ! j)"
  "here ci s \<Longrightarrow> c_menu (s_clients (put ci x s) ! j) = c_menu (s_clients s ! j)"
  by (cases "j = ci"; simp add: put_nth cfd_at_def)+

lemma put_find [simp]: "find_client_by_user_id (s_clients (put ci x s)) uid = find_client_by_user_id (s_clients s) uid"
  unfolding find_client_by_user_id_def put_def upd_client_def by (simp add: first_index_update)

lemma put_send [simp]:
  "send_text fd t (put ci x s) = put ci x (send_text fd t s)" "send_format fd t (put ci x s) = put ci x (send_format fd t s)"
  by (simp_all add: send_text_def send_format_def put_def upd_client_def)

lemma here_same [simp]:
  "here ci (send_text fd t s) = here ci s" "here ci (send_format fd t s) = here ci s"
  by (simp_all add: here_def)

lemma put_fold: "(\<And>y s. f y (put ci x s) = put ci x (f y s)) \<Longrightarrow> fold f ys (put ci x s) = put ci x (fold f ys s)"
  by (induction ys arbitrary: s) simp_all

lemma put_show_contact [simp]: "fold (show_contact fd) ps (put ci x s) = put ci x (fold (show_contact fd) ps s)"
  by (rule put_fold) (auto simp: show_contact_def user_status_def split: prod.splits option.splits)

lemma put_history [simp]: "show_history env fd hs (put ci x s) = put ci x (show_history env fd hs s)"
  unfolding show_history_def by (rule put_fold) simp

lemma put_last [simp]: "here ci s \<Longrightarrow> show_last_messages env ci p (put ci x s) = put ci x (show_last_messages env ci p s)"
  by (simp add: show_last_messages_def Let_def split: option.splits)

lemma put_admin_page [simp]: "here ci s \<Longrightarrow> show_admin_page ci (put ci x s) = put ci x (show_admin_page ci s)"
proof -
  have "fold (show_admin_user fd) us (put ci x t) = put ci x (fold (show_admin_user fd) us t)" for fd us t
    by (rule put_fold) (simp add: show_admin_user_def split: prod.splits)
  then show "here ci s \<Longrightarrow> show_admin_page ci (put ci x s) = put ci x (show_admin_page ci s)"
    by (simp add: show_admin_page_def Let_def)
qed

lemma upd_upd: "ci < length (s_clients s) \<Longrightarrow> upd_client ci f (upd_client ci g s) = upd_client ci (\<lambda>c. f (g c)) s"
  unfolding upd_client_def by simp

lemma put_upd:
  assumes f: "\<And>c. f (c\<lparr>c_input := x\<rparr>) = (f c)\<lparr>c_input := x\<rparr>" and h: "here ci s"
  shows "upd_client ci f (put ci x s) = put ci x (upd_client ci f s)"
proof -
  have l: "ci < length (s_clients s)" using h by (simp add: here_def)
  show ?thesis unfolding put_def upd_upd [OF l] f ..
qed

lemma here_upd:
  assumes f: "\<And>c. c_active (f c) = c_active c"
  shows "here ci (upd_client ci f s) = here ci s"
  unfolding here_def upd_client_def by (cases "ci < length (s_clients s)") (simp_all add: f)

lemma put_list [simp]:
  "here ci s \<Longrightarrow> show_conversation_list env ci (put ci x s) = put ci x (show_conversation_list env ci s)"
proof -
  assume h: "here ci s"
  have m: "contact_list env uid (put ci x s) = contact_list env uid s" for uid by (simp add: contact_list_def)
  define ids where "ids = map fst (contact_list env (c_user_id (s_clients s ! ci)) s)"
  have u: "(put ci x s)\<lparr>s_clients := (s_clients (put ci x s))[ci := (s_clients (put ci x s) ! ci)\<lparr>c_menu := ids\<rparr>]\<rparr>
      = put ci x (s\<lparr>s_clients := (s_clients s)[ci := (s_clients s ! ci)\<lparr>c_menu := ids\<rparr>]\<rparr>)"
    using put_upd [of "\<lambda>c. c\<lparr>c_menu := ids\<rparr>", OF _ h] by (simp add: upd_client_def)
  show ?thesis unfolding show_conversation_list_def Let_def put_clients [OF h] m ids_def [symmetric] u
    by simp
qed

lemma here_list [simp]: "here ci (show_conversation_list env ci s) = here ci s"
  by (auto simp: here_def show_conversation_list_state)

lemma put_open: "here ci s \<Longrightarrow> open_chat env ci p (put ci x s) = put ci x (open_chat env ci p s)"
  by (auto simp: open_chat_def Let_def put_upd here_upd split: option.splits)

lemma here_show [simp]:
  "here ci (show_admin_page cj s) = here ci s" "here ci (show_last_messages env cj p s) = here ci s"
  by (simp_all add: here_def same_dbD)

lemma here_open: "here ci s \<Longrightarrow> here ci (open_chat env ci p s)"
  by (auto simp: open_chat_def Let_def here_upd split: option.splits)

lemma put_disconnect:
  "here ci s \<Longrightarrow> disconnect_client cj (put ci x s) = put_if ci x (disconnect_client cj s)"
proof (cases "cj = ci")
  case True
  assume h: "here ci s"
  with True show ?thesis
    by (simp add: disconnect_client_def Let_def put_if_def put_def upd_client_def here_def cfd_at_def zero_client_def)
next
  case False
  assume h: "here ci s"
  then have "here ci (disconnect_client cj s)" using False by (simp add: disconnect_client_def here_def Let_def)
  with h False show ?thesis
    by (auto simp: disconnect_client_def Let_def put_if_def put_def upd_client_def here_def cfd_at_def list_update_swap)
qed

section \<open>The handlers\<close>

lemma put_if_here: "here ci t \<Longrightarrow> put_if ci x t = put ci x t"
  by (simp add: put_if_def)

lemma put_if_simps [simp]:
  "send_text fd t (put_if ci x s) = put_if ci x (send_text fd t s)"
  "send_format fd t (put_if ci x s) = put_if ci x (send_format fd t s)"
  "show_admin_page ci (put_if ci x s) = put_if ci x (show_admin_page ci s)"
  "s_users (put_if ci x s) = s_users s"
  "cfd_at (put_if ci x s) cj = cfd_at s cj"
  by (simp_all add: put_if_def)

lemma put_sets:
  "(put ci x s)\<lparr>s_users := us\<rparr> = put ci x (s\<lparr>s_users := us\<rparr>)"
  "(put ci x s)\<lparr>s_msgs := m\<rparr> = put ci x (s\<lparr>s_msgs := m\<rparr>)"
  by (simp_all add: put_def upd_client_def)

lemma here_sets [simp]: "here ci (s\<lparr>s_users := us\<rparr>) = here ci s" "here ci (s\<lparr>s_msgs := m\<rparr>) = here ci s"
  "here ci (s\<lparr>s_users_file := f\<rparr>) = here ci s" "here ci (snd (save_users ok s)) = here ci s"
  by (simp_all add: here_def)

lemma put_save: "save_users ok (put ci x s) = map_prod id (put ci x) (save_users ok s)"
  by (simp add: save_users_def put_def upd_client_def)

lemma put_login_as:
  assumes h: "here ci s"
  shows "login_as env ci ui (put ci x s) = map_prod id (put_if ci x) (login_as env ci ui s)"
proof -
  define f where "f = (\<lambda>c::chat_client. c\<lparr>c_user_id := u_id (s_users s ! ui), c_logged_in := True, c_mode := MODE_MENU\<rparr>)"
  have u: "upd_client ci f (put ci x s) = put ci x (upd_client ci f s)" by (rule put_upd [OF _ h]) (simp add: f_def)
  have h2: "here ci (upd_client ci f s)" using h here_upd [of f ci s] by (simp add: f_def)
  show ?thesis using h2 by (simp add: login_as_def Let_def f_def [symmetric] u h put_if_here)
qed

lemma put_login:
  assumes h: "here ci s"
  shows "process_login env ci line (put ci x s) = map_prod id (put_if ci x) (process_login env ci line s)"
proof -
  let ?l = "sanitize_message line"
  consider (bad) "?l = [] \<or> length ?l \<ge> USERNAME_SIZE"
    | (old) ui where "\<not> (?l = [] \<or> length ?l \<ge> USERNAME_SIZE)" "find_user_index_by_name (s_users s) ?l = Some ui"
    | (new) "\<not> (?l = [] \<or> length ?l \<ge> USERNAME_SIZE)" "find_user_index_by_name (s_users s) ?l = None" by blast
  then show ?thesis
  proof cases
    case bad
    with h show ?thesis by (auto simp: process_login_def Let_def put_if_here)
  next
    case old
    with h show ?thesis by (simp add: process_login_def Let_def put_if_here put_disconnect put_login_as)
  next
    case new
    let ?u = "\<lparr>u_id = to_int (get_max_user_id (s_users s) + 1), u_name = take (USERNAME_SIZE - 1) ?l, u_active = 1, u_is_admin = 0\<rparr>"
    obtain r s' where r: "save_users (e_save_ok env) (s\<lparr>s_users := s_users s @ [?u]\<rparr>) = (r, s')" by fastforce
    have h': "here ci s'" using here_sets(4) [of ci "e_save_ok env" "s\<lparr>s_users := s_users s @ [?u]\<rparr>"] r h by (simp del: here_sets(4))
    have r': "save_users (e_save_ok env) ((put ci x s)\<lparr>s_users := s_users s @ [?u]\<rparr>) = (r, put ci x s')"
      unfolding put_sets put_save r by simp
    show ?thesis using new h h' r r'
      by (simp add: process_login_def Let_def put_disconnect put_login_as)
  qed
qed

lemma put_menu:
  assumes h: "here ci s"
  shows "process_menu env ci line (put ci x s) = map_prod id (put_if ci x) (process_menu env ci line s)"
proof -
  define f where "f = (\<lambda>c::chat_client. c\<lparr>c_mode := MODE_ADMIN\<rparr>)"
  have u: "upd_client ci f (put ci x s) = put ci x (upd_client ci f s)" by (rule put_upd [OF _ h]) (simp add: f_def)
  have h2: "here ci (upd_client ci f s)" using h here_upd [of f ci s] by (simp add: f_def)
  show ?thesis using h h2
    by (auto simp: process_menu_def Let_def f_def [symmetric] u put_if_here put_disconnect put_open here_open
        split: option.splits list.splits)
qed

lemma put_chat:
  assumes h: "here ci s"
  shows "process_chat env ci line (put ci x s) = map_prod id (put_if ci x) (process_chat env ci line s)"
proof -
  define f where "f = (\<lambda>c::chat_client. c\<lparr>c_mode := MODE_MENU, c_partner := -1\<rparr>)"
  have u: "upd_client ci f (put ci x s) = put ci x (upd_client ci f s)" by (rule put_upd [OF _ h]) (simp add: f_def)
  have h2: "here ci (upd_client ci f s)" using h here_upd [of f ci s] by (simp add: f_def)
  have m: "append_message env a b t (put ci x s) = map_prod id (put ci x) (append_message env a b t s)" for a b t
    by (simp add: append_message_def put_sets split: option.splits)
  have hm: "here ci (snd (append_message env a b t s))" for a b t using h by (simp add: append_message_def)
  have mu: "s_users (snd (append_message env a b t s)) = s_users s" "s_clients (snd (append_message env a b t s)) = s_clients s" for a b t
    by (simp_all add: append_message_def)
  show ?thesis using h h2 hm
    by (simp add: process_chat_def Let_def f_def [symmetric] u put_if_here m case_prod_unfold mu split: option.splits)
qed

lemma put_remove: "here ci s \<Longrightarrow> remove_user env ci t (put ci x s) = put_if ci x (remove_user env ci t s)"
  by (simp add: remove_user_def Let_def set_user_active_def put_sets put_save put_disconnect put_if_here split: option.splits)

lemma put_restore: "here ci s \<Longrightarrow> restore_user env ci t (put ci x s) = put_if ci x (restore_user env ci t s)"
  by (simp add: restore_user_def Let_def set_user_active_def put_sets put_save put_if_here)

lemma put_admin:
  assumes h: "here ci s"
  shows "process_admin env ci line (put ci x s) = map_prod id (put_if ci x) (process_admin env ci line s)"
proof -
  define f where "f = (\<lambda>c::chat_client. c\<lparr>c_mode := MODE_MENU\<rparr>)"
  have u: "upd_client ci f (put ci x s) = put ci x (upd_client ci f s)" by (rule put_upd [OF _ h]) (simp add: f_def)
  have h2: "here ci (upd_client ci f s)" using h here_upd [of f ci s] by (simp add: f_def)
  show ?thesis using h h2
    by (auto simp: process_admin_def Let_def f_def [symmetric] u put_if_here put_remove put_restore
        split: list.splits scan_arg.splits)
qed

lemma put_line:
  assumes h: "here ci s"
  shows "process_line env ci line (put ci x s) = map_prod id (put_if ci x) (process_line env ci line s)"
  using h by (cases "c_mode (s_clients s ! ci)") (simp_all add: process_line_def Let_def put_login put_menu put_chat put_admin)

section \<open>The framing contract holds\<close>

lemma put_same: "put ci (c_input (s_clients s ! ci)) s = s"
  by (simp add: put_def upd_client_def)

lemma here_put [simp]: "here ci s \<Longrightarrow> here ci (put ci x s)"
  by (simp add: here_def put_def upd_client_def)

lemma line_keeps_input:
  assumes h: "here ci s" and p: "process_line env ci l s = (r, t)" and t: "here ci t"
  shows "c_input (s_clients t ! ci) = c_input (s_clients s ! ci)"
proof -
  have "t = put_if ci (c_input (s_clients s ! ci)) t"
    using put_line [OF h, of env l "c_input (s_clients s ! ci)"] p by (simp add: put_same)
  then have e: "t = put ci (c_input (s_clients s ! ci)) t" using t by (simp add: put_if_here)
  show ?thesis by (subst e) (simp add: put_nth(1) [OF t])
qed

lemma disconnect_gone: "here ci s \<Longrightarrow> \<not> here ci (disconnect_client ci s)"
  by (simp add: here_def disconnect_client_def Let_def zero_client_def)

lemma login_as_result [simp]: "fst (login_as env ci ui s) = 1"
  by (simp add: login_as_def Let_def)

lemma line_gone:
  assumes h: "here ci s" and p: "process_line env ci l s = (0, t)"
  shows "\<not> here ci t"
proof (cases "c_mode (s_clients s ! ci)")
  case MODE_LOGIN
  have a: "login_as env ci ui s' = (0, t) \<Longrightarrow> False" for ui s' using login_as_result [of env ci ui s'] by simp
  have "process_login env ci m s = (0, t) \<Longrightarrow> \<not> here ci t" for m
    using h by (auto simp: process_login_def Let_def save_users_def disconnect_gone
        split: option.splits if_splits dest: a)
  with p MODE_LOGIN show ?thesis by (simp add: process_line_def Let_def)
next
  case MODE_MENU
  have "process_menu env ci m s = (0, t) \<Longrightarrow> \<not> here ci t" for m
    using h by (auto simp: process_menu_def Let_def disconnect_gone split: option.splits if_splits list.splits)
  with p MODE_MENU show ?thesis by (simp add: process_line_def Let_def)
next
  case MODE_CHAT
  have "fst (process_chat env ci m s) = 1" for m
    by (simp add: process_chat_def Let_def case_prod_unfold split: option.splits)
  with p MODE_CHAT show ?thesis by (simp add: process_line_def Let_def) (metis fst_conv zero_neq_one)
next
  case MODE_ADMIN
  have "fst (process_admin env ci m s) = 1" for m
    by (auto simp: process_admin_def Let_def split: list.splits scan_arg.splits)
  with p MODE_ADMIN show ?thesis by (simp add: process_line_def Let_def) (metis fst_conv zero_neq_one)
qed

text \<open>With the same answers for every line, the count of lines does not matter.\<close>

lemma process_lines_count: "process_lines (\<lambda>_. e) k ci s = process_lines (\<lambda>_. e) 0 ci s"
proof -
  have "env = (\<lambda>_. e) \<Longrightarrow> process_lines env k ci s = process_lines env j ci s" for env j
  proof (induction env k ci s arbitrary: j rule: process_lines.induct)
    case (1 env k ci s)
    obtain r s' where p: "process_line e ci (cstr (line_start ci s)) (drop_line ci s) = (r, s')" by fastforce
    show ?case
    proof (cases "ci < length (s_clients s) \<and> c_active (s_clients s ! ci) \<and> NL \<in> set (c_input (s_clients s ! ci)) \<and> r \<noteq> 0")
      case False
      with p 1(2) show ?thesis
        unfolding process_lines.simps [of env k ci s] process_lines.simps [of env j ci s] by auto
    next
      case True
      have p': "process_line (env k) ci (cstr (line_start ci s)) (drop_line ci s) = (r, s')" using p 1(2) by simp
      have "process_lines env (Suc k) ci s' = process_lines env (Suc j) ci s'"
        using 1(1) [OF _ _ p' [symmetric] _ 1(2)] True by simp
      with True p 1(2) show ?thesis
        unfolding process_lines.simps [of env k ci s] process_lines.simps [of env j ci s] by simp
    qed
  qed
  then show ?thesis by blast
qed

definition run_lines :: "srv_env \<Rightarrow> nat \<Rightarrow> server \<Rightarrow> server" where
  "run_lines e ci s = (if here ci s then process_lines (\<lambda>_. e) 0 ci s else s)"

lemma run_lines_unfold:
  assumes h: "here ci s"
  shows "run_lines e ci s =
      (if NL \<notin> set (c_input (s_clients s ! ci)) then s
       else case process_line e ci (cstr (first_line (c_input (s_clients s ! ci))))
              (put ci (after_line (c_input (s_clients s ! ci))) s) of (r, t) \<Rightarrow>
         if r = 0 then t else run_lines e ci t)"
proof -
  have l: "line_start ci s = first_line (c_input (s_clients s ! ci))"
    by (simp add: line_start_def first_line_def)
  have d: "drop_line ci s = put ci (after_line (c_input (s_clients s ! ci))) s"
    by (simp add: drop_line_def put_def upd_client_def l after_line_def)
  have t: "process_lines (\<lambda>_. e) (Suc 0) ci t = run_lines e ci t"
    if "process_line e ci x (put ci y s) = (r, t)" for x y r t
  proof (cases "here ci t")
    case True
    then show ?thesis using process_lines_count [of e "Suc 0" ci t] by (simp add: run_lines_def)
  next
    case False
    moreover have "ci < MAX_CLIENTS" using h by (simp add: here_def)
    ultimately have "\<not> (ci < length (s_clients t) \<and> c_active (s_clients t ! ci))" by (simp add: here_def)
    with False show ?thesis unfolding run_lines_def by (subst process_lines.simps) simp
  qed
  show ?thesis
    using h t unfolding run_lines_def [of e ci s] process_lines.simps [of _ 0] l d
    by (auto simp: here_def split: prod.splits)
qed

interpretation chat: line_server "here ci" "\<lambda>s. c_input (s_clients s ! ci)" "put ci" "process_line e ci" "run_lines e ci"
  for e ci
proof unfold_locales
  show "here ci s \<Longrightarrow> here ci (put ci x s)" for s x by simp
  show "here ci s \<Longrightarrow> c_input (s_clients (put ci x s) ! ci) = x" for s x by (simp add: put_nth)
  show "put ci y (put ci x s) = put ci y s" for s x y
    by (cases "ci < length (s_clients s)") (simp_all add: put_def upd_client_def list_update_beyond)
  show "here ci s \<Longrightarrow> process_line e ci l s = (r, t) \<Longrightarrow>
      process_line e ci l (put ci x s) = (r, if here ci t then put ci x t else t)" for s l r t x
    by (simp add: put_line put_if_def)
qed (auto simp: line_keeps_input line_gone run_lines_unfold, simp_all add: run_lines_def)

end
