(* ===== verification/Chat_Props.thy ===== *)
theory Chat_Props
  imports Chat_Chunks
begin

text \<open>
  The properties of \<open>chat/server.c\<close>.
\<close>

section \<open>Witness states\<close>

definition ahmet :: user where
  "ahmet = \<lparr>u_id = 1, u_name = ''ahmet'', u_active = 1, u_is_admin = 1\<rparr>"

definition mehmet :: user where
  "mehmet = \<lparr>u_id = 2, u_name = ''mehmet'', u_active = 1, u_is_admin = 0\<rparr>"

definition idle_client :: chat_client where
  "idle_client = zero_client\<lparr>c_fd := -1\<rparr>"

text \<open>\<open>ahmet\<close> is on the admin page in slot 0, \<open>mehmet\<close> in the menu in slot 1, slot 2 at the login prompt.\<close>

definition srv_demo :: server where
  "srv_demo = \<lparr>s_users = [ahmet, mehmet],
     s_clients = [(new_client 5)\<lparr>c_logged_in := True, c_user_id := 1, c_mode := MODE_ADMIN\<rparr>,
                  (new_client 6)\<lparr>c_logged_in := True, c_user_id := 2, c_mode := MODE_MENU\<rparr>,
                  new_client 7] @ replicate 97 idle_client,
     s_users_file = None, s_msgs = None, s_out = []\<rparr>"

definition env_demo :: srv_env where
  "env_demo = \<lparr>e_time = 1000, e_save_ok = True, e_append_ok = True, e_read_ok = True, e_hhmm = (\<lambda>_. ''10:00'')\<rparr>"

lemma users_demo_ok: "users_ok [ahmet, mehmet]"
  by (simp add: users_ok_def user_ok_def name_ok_def ahmet_def mehmet_def int_range_def get_max_user_id_def MAX_USERS_def)

lemma srv_demo_clients:
  "i < 100 \<Longrightarrow> s_clients srv_demo ! i =
     (if i = 0 then (new_client 5)\<lparr>c_logged_in := True, c_user_id := 1, c_mode := MODE_ADMIN\<rparr>
      else if i = 1 then (new_client 6)\<lparr>c_logged_in := True, c_user_id := 2, c_mode := MODE_MENU\<rparr>
      else if i = 2 then new_client 7 else idle_client)"
  by (auto simp: srv_demo_def nth_Cons' nth_append numeral_2_eq_2)

lemma srv_demo_ok: "srv_ok srv_demo"
proof -
  have "client_ok [ahmet, mehmet] (s_clients srv_demo ! i)" if "i < 100" for i
    using that by (auto simp: srv_demo_clients client_ok_def new_client_def idle_client_def zero_client_def
        INPUT_BUFFER_SIZE_def is_admin_id_def find_user_index_by_id_def ahmet_def mehmet_def)
  moreover have "i = j" if "i < 100" "j < 100" "c_logged_in (s_clients srv_demo ! i)" "c_logged_in (s_clients srv_demo ! j)"
    "c_user_id (s_clients srv_demo ! i) = c_user_id (s_clients srv_demo ! j)" for i j
    using that by (auto simp: srv_demo_clients new_client_def idle_client_def zero_client_def split: if_splits)
  ultimately show ?thesis using users_demo_ok
    by (auto simp: srv_ok_def clients_ok_def MAX_CLIENTS_def) (simp_all add: srv_demo_def)
qed

section \<open>The user database\<close>

text \<open>
  Claim C25: a user table that was saved is loaded back unchanged, as long as it holds the
  administrator \<open>ahmet\<close>, active and with admin rights.
\<close>
theorem users_save_load:
  assumes "\<forall>u \<in> set (s_users s). user_ok u" "length (s_users s) \<le> MAX_USERS"
    "find_user_index_by_name (s_users s) ''ahmet'' = Some i" "u_active (s_users s ! i) = 1" "u_is_admin (s_users s ! i) = 1"
    "save_users True s = (0, t)"
  shows "\<exists>t'. load_users True True (t\<lparr>s_users := garbage\<rparr>) = (0, t') \<and> s_users t' = s_users s \<and> s_users_file t' = s_users_file t"
proof -
  have t: "s_users_file t = Some (users_text (s_users s))" using assms(6) by (auto simp: save_users_def)
  have "(s_users s ! i)\<lparr>u_active := 1, u_is_admin := 1\<rparr> = s_users s ! i" using assms(4,5) by simp
  then have "(s_users s)[i := (s_users s ! i)\<lparr>u_active := 1, u_is_admin := 1\<rparr>] = s_users s" by simp
  with users_file_roundtrip [OF assms(1,2)] assms(3) t show ?thesis
    by (simp add: load_users_def save_users_def Let_def)
qed

theorem users_save_load_witness:
  "\<exists>t t'. save_users True srv_demo = (0, t) \<and> load_users True True (t\<lparr>s_users := []\<rparr>) = (0, t') \<and> s_users t' = [ahmet, mehmet]"
proof -
  obtain t where t: "save_users True srv_demo = (0, t)" by (simp add: save_users_def)
  have u: "s_users srv_demo = [ahmet, mehmet]" by (simp add: srv_demo_def)
  have "\<forall>u \<in> set (s_users srv_demo). user_ok u" "length (s_users srv_demo) \<le> MAX_USERS"
    using users_demo_ok unfolding u by (simp_all add: users_ok_def)
  moreover have "find_user_index_by_name (s_users srv_demo) ''ahmet'' = Some 0" "u_active (s_users srv_demo ! 0) = 1"
    "u_is_admin (s_users srv_demo ! 0) = 1" unfolding u by (simp_all add: find_user_index_by_name_def ahmet_def)
  ultimately show ?thesis using users_save_load [of srv_demo 0 t "[]"] t u by auto
qed

text \<open>
  Whatever the file held, when the load succeeds the table has an account named
  \<open>ahmet\<close> that is active and an administrator, it has at most 1000 users, and the file holds
  exactly the table in the new format.
\<close>
theorem load_users_admin:
  assumes "load_users open_ok save_ok s = (0, t)"
  shows "(\<exists>u \<in> set (s_users t). u_name u = ''ahmet'' \<and> u_active u = 1 \<and> u_is_admin u = 1) \<and>
     length (s_users t) \<le> MAX_USERS \<and> s_users_file t = Some (users_text (s_users t))"
proof -
  have len: "length us0 \<le> MAX_USERS \<Longrightarrow> length (parse_users us0 ls) \<le> MAX_USERS" for us0 ls
    by (induction us0 ls rule: parse_users.induct) (auto split: option.splits)
  define us where "us = parse_users [] (fgets_lines 256 (case s_users_file s of None \<Rightarrow> [] | Some f \<Rightarrow> f))"
  have l: "length us \<le> MAX_USERS" unfolding us_def by (rule len) simp
  show ?thesis
  proof (cases "find_user_index_by_name us ''ahmet''")
    case None
    with assms l show ?thesis
      by (auto simp: load_users_def Let_def us_def [symmetric] save_users_def split: if_splits)
  next
    case (Some i)
    then have i: "i < length us" "u_name (us ! i) = ''ahmet''"
      unfolding find_user_index_by_name_def by (auto dest: first_index_holds)
    let ?u = "(us ! i)\<lparr>u_active := 1, u_is_admin := 1\<rparr>"
    have t: "s_users t = us[i := ?u]" "s_users_file t = Some (users_text (us[i := ?u]))"
      using assms Some by (auto simp: load_users_def Let_def us_def [symmetric] save_users_def split: if_splits)
    have "?u \<in> set (us[i := ?u])" using i(1) by (rule set_update_memI)
    with t l i show ?thesis by (intro conjI bexI [of _ ?u]) simp_all
  qed
qed

theorem load_users_admin_witness:
  "\<exists>t. load_users True True (srv_demo\<lparr>s_users_file := None\<rparr>) = (0, t) \<and> s_users t = [ahmet] \<and> length (s_users t) \<le> MAX_USERS"
proof -
  let ?t = "srv_demo\<lparr>s_users_file := Some (users_text [ahmet]), s_users := [ahmet]\<rparr>"
  have "load_users True True (srv_demo\<lparr>s_users_file := None\<rparr>) = (0, ?t)"
    by (simp add: load_users_def Let_def fgets_lines.simps find_user_index_by_name_def save_users_def ahmet_def
        get_max_user_id_def MAX_USERS_def to_int_def)
  with load_users_admin [OF this] show ?thesis by auto
qed

section \<open>The whole server\<close>

text \<open>States the event loop can reach, from the state the server starts with.\<close>

inductive chat_reach :: "server \<Rightarrow> server \<Rightarrow> bool" for s0 where
  start: "chat_reach s0 s0"
| event: "chat_reach s0 s \<Longrightarrow> chat_reach s0 (handle_event ev s)"

lemma chat_reach_ok: "chat_reach s0 s \<Longrightarrow> srv_ok s0 \<Longrightarrow> srv_ok s"
  by (induction rule: chat_reach.induct) (auto intro: handle_event_ok)

lemma users_ok_admin:
  assumes ok: "users_ok us" and i: "i < length us"
  shows "users_ok (us[i := (us ! i)\<lparr>u_active := 1, u_is_admin := 1\<rparr>])"
proof -
  let ?u = "(us ! i)\<lparr>u_active := 1, u_is_admin := 1\<rparr>"
  have m: "map u_id (us[i := ?u]) = map u_id us" "map u_name (us[i := ?u]) = map u_name us"
    using i by (simp_all add: map_update list_update_same_conv)
  have "user_ok ?u" using ok i by (simp add: users_ok_def user_ok_def int_range_def)
  with ok have "\<forall>u \<in> set (us[i := ?u]). user_ok u"
    using set_update_subset_insert [of us i] unfolding users_ok_def by blast
  moreover have g: "get_max_user_id (us[i := ?u]) = get_max_user_id us"
    by (rule get_max_user_id_update) simp
  ultimately show ?thesis using ok unfolding users_ok_def m g length_list_update by blast
qed

lemma clients_ok_idle: "clients_ok us (replicate MAX_CLIENTS (zero_client\<lparr>c_fd := -1\<rparr>))"
proof -
  have "client_ok us (zero_client\<lparr>c_fd := -1\<rparr>)" by (rule client_ok_zero)
  moreover have "\<not> c_logged_in (zero_client\<lparr>c_fd := -1\<rparr>)" by (simp add: zero_client_def)
  ultimately show ?thesis unfolding clients_ok_def by (metis length_replicate nth_replicate)
qed

lemma chat_setup_ok:
  assumes us: "users_ok us" and room: "find_user_index_by_name us ''ahmet'' \<noteq> None \<or> length us < MAX_USERS"
    and db: "s_users_file s = Some (users_text us)" and run: "chat_setup True True a b c d e s = (None, t)"
  shows "srv_ok t"
proof -
  let ?s = "s\<lparr>s_clients := replicate MAX_CLIENTS (zero_client\<lparr>c_fd := -1\<rparr>)\<rparr>"
  have rt: "parse_users [] (fgets_lines 256 (users_text us)) = us"
    by (rule users_file_roundtrip) (use us in \<open>auto simp: users_ok_def\<close>)
  obtain r u where l: "load_users True True ?s = (r, u)" by fastforce
  have "srv_ok u"
  proof (cases "find_user_index_by_name us ''ahmet''")
    case None
    let ?u = "\<lparr>u_id = to_int (get_max_user_id us + 1), u_name = ''ahmet'', u_active = 1, u_is_admin = 1\<rparr>"
    have lt: "length us < MAX_USERS" using room None by simp
    have "users_ok (us @ [\<lparr>u_id = to_int (get_max_user_id us + 1), u_name = ''ahmet'', u_active = 1, u_is_admin = 0\<rparr>])"
      by (rule users_ok_add [OF us lt _ None]) (simp add: name_ok_def)
    from users_ok_admin [OF this, of "length us"] have "users_ok (us @ [?u])" by simp
    moreover have "s_users u = us @ [?u]" "s_clients u = s_clients ?s"
      using l None lt db rt by (auto simp: load_users_def Let_def save_users_def)
    ultimately show ?thesis using clients_ok_idle by (simp add: srv_ok_def)
  next
    case (Some i)
    then have "i < length us" unfolding find_user_index_by_name_def by auto
    from users_ok_admin [OF us this] have "users_ok (us[i := (us ! i)\<lparr>u_active := 1, u_is_admin := 1\<rparr>])" .
    moreover have "s_users u = us[i := (us ! i)\<lparr>u_active := 1, u_is_admin := 1\<rparr>]" "s_clients u = s_clients ?s"
      using l Some db rt by (auto simp: load_users_def Let_def save_users_def)
    ultimately show ?thesis using clients_ok_idle by (simp add: srv_ok_def)
  qed
  moreover have "s_users t = s_users u" "s_clients t = s_clients u"
    using run l by (auto simp: chat_setup_def Let_def split: if_splits)
  ultimately show ?thesis by (simp add: srv_ok_def)
qed

text \<open>
  Claim C4: from a start on a well-formed user file, in every state the server can reach:
  user ids and user names are unique; every logged-in client is of an existing user that is
  not removed; no user is logged in twice; a client on the admin page is an administrator;
  a client that has not logged in is at the login prompt; and no input buffer is full.
\<close>
theorem chat_invariants:
  assumes "users_ok us" "find_user_index_by_name us ''ahmet'' \<noteq> None \<or> length us < MAX_USERS"
    "s_users_file s = Some (users_text us)" "chat_setup True True a b c d e s = (None, s0)" "chat_reach s0 t"
  shows "distinct (map u_id (s_users t)) \<and> distinct (map u_name (s_users t)) \<and> length (s_clients t) = 100 \<and>
    (\<forall>i < 100. let cl = s_clients t ! i in length (c_input cl) < 4096 \<and>
       (if c_logged_in cl
        then c_active cl \<and> c_mode cl \<noteq> MODE_LOGIN \<and>
          (\<exists>u \<in> set (s_users t). u_id u = c_user_id cl \<and> u_active u \<noteq> 0) \<and>
          (c_mode cl = MODE_ADMIN \<longrightarrow> is_admin_id (s_users t) (c_user_id cl)) \<and>
          (\<forall>j < 100. c_logged_in (s_clients t ! j) \<and> c_user_id (s_clients t ! j) = c_user_id cl \<longrightarrow> i = j)
        else c_mode cl = MODE_LOGIN))"
proof -
  from chat_reach_ok [OF assms(5) chat_setup_ok [OF assms(1-4)]] have ok: "srv_ok t" .
  then have u: "distinct (map u_id (s_users t))" "distinct (map u_name (s_users t))"
    and len: "length (s_clients t) = 100" by (simp_all add: srv_ok_def users_ok_def clients_ok_def MAX_CLIENTS_def)
  have one: "i = j" if "i < 100" "j < 100" "c_logged_in (s_clients t ! i)" "c_logged_in (s_clients t ! j)"
    "c_user_id (s_clients t ! j) = c_user_id (s_clients t ! i)" for i j
    using ok that len unfolding srv_ok_def clients_ok_def by metis
  have c: "client_ok (s_users t) (s_clients t ! i)" if "i < 100" for i
    using ok that len unfolding srv_ok_def clients_ok_def by metis
  show ?thesis using u len one c by (simp add: Let_def client_ok_def INPUT_BUFFER_SIZE_def)
qed

theorem chat_invariants_witness:
  "\<exists>s0. chat_setup True True 3 0 0 4 0 (srv_demo\<lparr>s_users_file := Some (users_text [ahmet, mehmet])\<rparr>) = (None, s0) \<and>
     distinct (map u_name (s_users (handle_event (Ev_accept 9 True) s0)))"
proof -
  let ?s = "srv_demo\<lparr>s_users_file := Some (users_text [ahmet, mehmet])\<rparr>"
  have "parse_users [] (fgets_lines 256 (users_text [ahmet, mehmet])) = [ahmet, mehmet]"
    by (rule users_file_roundtrip) (use users_demo_ok in \<open>auto simp: users_ok_def\<close>)
  then obtain s0 where s0: "chat_setup True True 3 0 0 4 0 ?s = (None, s0)"
    by (simp add: chat_setup_def load_users_def Let_def find_user_index_by_name_def ahmet_def save_users_def)
  have f: "find_user_index_by_name [ahmet, mehmet] ''ahmet'' \<noteq> None \<or> length [ahmet, mehmet] < MAX_USERS"
    by (simp add: MAX_USERS_def)
  have "chat_reach s0 (handle_event (Ev_accept 9 True) s0)" by (intro chat_reach.intros)
  from chat_invariants [OF users_demo_ok f _ s0 this] s0 show ?thesis by simp
qed

end
