(* ===== verification/Chat_Props2.thy ===== *)
theory Chat_Props2
  imports Chat_Props
begin

text \<open>
  More properties of \<open>chat/server.c\<close>: sending, framing, the message database, the login and the
  admin page.
\<close>

section \<open>Sending\<close>

primrec fatal :: "send_ans \<Rightarrow> bool" where
  "fatal (Sent n) = False"
| "fatal (Send_err e) = (e \<noteq> EINTR)"

primrec accepted_bytes :: "send_ans \<Rightarrow> nat" where
  "accepted_bytes (Sent n) = n"
| "accepted_bytes (Send_err e) = 0"

text \<open>The bytes the kernel has taken up to its first error other than an interruption.\<close>

definition bytes_taken :: "send_ans list \<Rightarrow> nat" where
  "bytes_taken ks = sum_list (map accepted_bytes (takeWhile (\<lambda>k. \<not> fatal k) ks))"

lemma taken_simps [simp]:
  "bytes_taken [] = 0" "bytes_taken (Sent n # ks) = n + bytes_taken ks"
  "bytes_taken (Send_err e # ks) = (if e = EINTR then bytes_taken ks else 0)"
  by (simp_all add: bytes_taken_def)

text \<open>
  Claim C26: what \<open>send_all\<close> does, for every list of the kernel's answers. It returns 0 exactly
  when the kernel takes all the bytes before its first error other than an interruption, in
  however many parts and with however many interruptions, and then exactly the given bytes
  were sent, in order. When such an error comes first it returns -1, and what was sent is the
  proper prefix of the bytes the kernel had taken. Otherwise the call is still waiting for
  the kernel's next answer.
\<close>
theorem send_all_exact:
  "send_all ks buf =
     (if length buf \<le> bytes_taken ks then Some (0, buf)
      else if list_ex fatal ks then Some (-1, take (bytes_taken ks) buf)
      else None)"
proof (induction ks buf rule: send_all.induct)
  case (1 ks buf)
  show ?case
  proof (cases "buf = [] \<or> ks = []")
    case True
    then show ?thesis by (subst send_all.simps) auto
  next
    case False
    then obtain k ks' where ks: "ks = k # ks'" and ne: "buf \<noteq> []" by (cases ks) auto
    show ?thesis
    proof (cases k)
      case (Sent n)
      from 1(1) [OF ne ks Sent] ne ks Sent show ?thesis
        by (subst send_all.simps) (auto simp: take_add)
    next
      case (Send_err e)
      with 1(2) [OF ne ks Send_err] ne ks show ?thesis
        by (subst send_all.simps) auto
    qed
  qed
qed

section \<open>Framing\<close>

text \<open>Which client a descriptor belongs to does not change while its lines are handled.\<close>

definition fd_kept :: "chat_client \<Rightarrow> chat_client \<Rightarrow> bool" where
  "fd_kept c d \<longleftrightarrow> c_active d \<longrightarrow> c_active c \<and> c_fd d = c_fd c"

definition fds_kept :: "server \<Rightarrow> server \<Rightarrow> bool" where
  "fds_kept s t \<longleftrightarrow> length (s_clients t) = length (s_clients s) \<and>
     (\<forall>j < length (s_clients s). fd_kept (s_clients s ! j) (s_clients t ! j))"

lemma fds_kept_trans: "fds_kept s t \<Longrightarrow> fds_kept t u \<Longrightarrow> fds_kept s u"
  by (auto simp: fds_kept_def fd_kept_def)

lemma fds_kept_inputs: "inputs_kept s t \<Longrightarrow> fds_kept s t"
  by (auto simp: fds_kept_def fd_kept_def inputs_kept_def slot_kept_def)

lemma fds_kept_upd: "(\<And>c. fd_kept c (f c)) \<Longrightarrow> fds_kept s (upd_client ci f s)"
  by (simp add: fds_kept_def upd_client_def nth_upd) (simp add: fd_kept_def)

lemma process_lines_kept: "fds_kept s (process_lines env k ci s)"
proof (induction env k ci s rule: process_lines.induct)
  case (1 env k ci s)
  show ?case
  proof (cases "ci < length (s_clients s) \<and> c_active (s_clients s ! ci) \<and> NL \<in> set (c_input (s_clients s ! ci))")
    case False
    then have "process_lines env k ci s = s" by (subst process_lines.simps) auto
    then show ?thesis by (simp add: fds_kept_def fd_kept_def)
  next
    case True
    obtain r s' where p: "process_line (env k) ci (cstr (line_start ci s)) (drop_line ci s) = (r, s')" by fastforce
    have "fds_kept s (drop_line ci s)" unfolding drop_line_def by (rule fds_kept_upd) (simp add: fd_kept_def)
    moreover have "fds_kept (drop_line ci s) s'"
      using fds_kept_inputs [OF inputs_kept_process_line] p by (metis snd_conv)
    ultimately have k: "fds_kept s s'" by (rule fds_kept_trans)
    show ?thesis
    proof (cases "r = 0")
      case True
      with k p \<open>ci < _ \<and> _\<close> show ?thesis by (subst process_lines.simps) simp
    next
      case False
      with 1 [OF _ _ p [symmetric] False] True have "fds_kept s' (process_lines env (Suc k) ci s')" by simp
      with fds_kept_trans [OF k] p False True show ?thesis by (subst process_lines.simps) simp
    qed
  qed
qed

lemma handle_data_bytes:
  assumes "find_client_by_fd (s_clients s) fd = Some ci" "ci < MAX_CLIENTS" "bs \<noteq> []"
    "length (c_input (s_clients s ! ci)) + length bs < 4096"
  shows "handle_data fd (Rd bs) (\<lambda>_. e) s = run_lines e ci (put ci (c_input (s_clients s ! ci) @ bs) s)"
proof -
  have h: "here ci s" using assms(1,2) unfolding find_client_by_fd_def here_def by (auto dest: first_index_holds)
  have "upd_client ci (\<lambda>c. c\<lparr>c_input := c_input c @ bs\<rparr>) s = put ci (c_input (s_clients s ! ci) @ bs) s"
    by (simp add: put_def upd_client_def)
  with assms h show ?thesis by (simp add: handle_data_def INPUT_BUFFER_SIZE_def run_lines_def)
qed

text \<open>After lines were handled the connection is in the slot it had, or in none.\<close>

lemma find_fd_kept:
  assumes fd: "find_client_by_fd (s_clients s) fd = Some ci" and len: "length (s_clients s) = MAX_CLIENTS" and k: "fds_kept s t"
    and one: "\<And>j. j < length (s_clients s) \<Longrightarrow> c_active (s_clients s ! j) \<Longrightarrow> c_fd (s_clients s ! j) = fd \<Longrightarrow> j = ci"
  shows "find_client_by_fd (s_clients t) fd = (if here ci t then Some ci else None)"
proof -
  have ci: "ci < length (s_clients s)" "c_fd (s_clients s ! ci) = fd"
    using fd unfolding find_client_by_fd_def by (auto dest: first_index_holds)
  have lt: "length (s_clients t) = MAX_CLIENTS" using k len by (simp add: fds_kept_def)
  have own: "j = ci" if "j < length (s_clients t)" "c_active (s_clients t ! j) \<and> c_fd (s_clients t ! j) = fd" for j
    using k that one [of j] by (auto simp: fds_kept_def fd_kept_def)
  show ?thesis
  proof (cases "here ci t")
    case True
    then have "c_active (s_clients t ! ci) \<and> c_fd (s_clients t ! ci) = fd"
      using k ci by (auto simp: here_def fds_kept_def fd_kept_def)
    then have "find_client_by_fd (s_clients t) fd = Some ci"
      unfolding find_client_by_fd_def by (intro first_index_unique) (use True own in \<open>auto simp: here_def\<close>)
    with True show ?thesis by simp
  next
    case False
    have "\<not> (c_active c \<and> c_fd c = fd)" if c: "c \<in> set (s_clients t)" for c
    proof
      assume a: "c_active c \<and> c_fd c = fd"
      from c obtain j where j: "j < length (s_clients t)" "c = s_clients t ! j" by (auto simp: in_set_conv_nth)
      with own [of j] a have "j = ci" by blast
      with False a j lt show False by (simp add: here_def)
    qed
    with False show ?thesis by (simp add: find_client_by_fd_def first_index_None_iff)
  qed
qed

text \<open>
  Claim C7: how the bytes of a client were cut into receives does not matter: receiving \<open>a\<close> and
  then \<open>b\<close> leaves the server (users, files, clients and everything sent) exactly as receiving
  both at once, also when a line in \<open>a\<close> ends the connection, as long as the input buffer does
  not overflow.
\<close>
theorem receive_chunks:
  assumes fd: "find_client_by_fd (s_clients s) fd = Some ci"
    and one: "\<And>j. j < length (s_clients s) \<Longrightarrow> c_active (s_clients s ! j) \<Longrightarrow> c_fd (s_clients s ! j) = fd \<Longrightarrow> j = ci"
    and len: "length (s_clients s) = MAX_CLIENTS"
    and ab: "a \<noteq> []" "b \<noteq> []" "length (c_input (s_clients s ! ci)) + length a + length b < 4096"
  shows "handle_data fd (Rd (a @ b)) (\<lambda>_. e) s = handle_data fd (Rd b) (\<lambda>_. e) (handle_data fd (Rd a) (\<lambda>_. e) s)"
proof -
  let ?i = "c_input (s_clients s ! ci)"
  have ci: "ci < MAX_CLIENTS" "ci < length (s_clients s)" using fd len unfolding find_client_by_fd_def by auto
  have h: "here ci s" using fd ci unfolding find_client_by_fd_def here_def by (auto dest: first_index_holds)
  define s1 where "s1 = put ci (?i @ a) s"
  define t where "t = run_lines e ci s1"
  have h1: "here ci s1" using h by (simp add: s1_def)
  have in1: "c_input (s_clients s1 ! ci) = ?i @ a" by (simp add: s1_def put_nth(1) [OF h])
  have l: "handle_data fd (Rd (a @ b)) (\<lambda>_. e) s = run_lines e ci (put ci (?i @ a @ b) s)"
    using handle_data_bytes [OF fd ci(1), of "a @ b" e] ab by simp
  have m: "handle_data fd (Rd a) (\<lambda>_. e) s = t"
    using handle_data_bytes [OF fd ci(1), of a e] ab by (simp add: t_def s1_def)
  have "chat.feed ci b s1 = put ci (?i @ a @ b) s"
    unfolding chat.feed_def in1 by (simp add: s1_def chat.set_set)
  with chat.run_feed [OF h1, of e b] have all: "run_lines e ci (put ci (?i @ a @ b) s) =
      (if here ci t then run_lines e ci (chat.feed ci b t) else t)" by (simp add: t_def)
  have "fds_kept s s1" unfolding s1_def put_def by (rule fds_kept_upd) (simp add: fd_kept_def)
  then have "fds_kept s t" using h1 process_lines_kept by (simp add: t_def run_lines_def fds_kept_trans)
  from find_fd_kept [OF fd len this one]
  have ft: "find_client_by_fd (s_clients t) fd = (if here ci t then Some ci else None)" .
  show ?thesis
  proof (cases "here ci t")
    case True
    have "length (c_input (s_clients t ! ci)) + length b < 4096"
      using chat.run_input [OF h1, of e] True ab(3) in1 by (simp add: t_def)
    with handle_data_bytes [OF _ ci(1) ab(2), of t fd e] ft True l m all show ?thesis by (simp add: chat.feed_def)
  next
    case False
    with ft l m all show ?thesis by (simp add: handle_data_def)
  qed
qed

theorem receive_chunks_witness:
  "handle_data 7 (Rd (''ali'' @ [NL] @ ''q'' @ [NL])) (\<lambda>_. env_demo) srv_demo =
   handle_data 7 (Rd (''i'' @ [NL] @ ''q'' @ [NL])) (\<lambda>_. env_demo) (handle_data 7 (Rd ''al'') (\<lambda>_. env_demo) srv_demo)"
proof -
  have fds: "c_fd (s_clients srv_demo ! j) = 7 \<Longrightarrow> j < 100 \<Longrightarrow> j = 2" for j
    by (auto simp: srv_demo_clients new_client_def idle_client_def zero_client_def split: if_splits)
  have len: "length (s_clients srv_demo) = 100" by (simp add: srv_demo_def)
  have "find_client_by_fd (s_clients srv_demo) 7 = Some 2" unfolding find_client_by_fd_def
  proof (rule first_index_unique)
    show "c_active (s_clients srv_demo ! 2) \<and> c_fd (s_clients srv_demo ! 2) = 7"
      by (simp add: srv_demo_clients new_client_def)
  qed (use fds len in auto)
  from receive_chunks [OF this, of "''al''" "''i'' @ [NL] @ ''q'' @ [NL]" env_demo] fds len
  show ?thesis by (simp add: srv_demo_clients new_client_def zero_client_def MAX_CLIENTS_def)
qed

end
