(* ===== verification/Chat_Props3.thy ===== *)
theory Chat_Props3
  imports Chat_Props2
begin

text \<open>
  The message database, the login and the administration of \<open>chat/server.c\<close>.
\<close>

section \<open>Messages\<close>

lemma fgets_append_line:
  "\<forall>l \<in> set ls. NL \<notin> set l \<and> length l + 1 < n \<Longrightarrow> NL \<notin> set x \<Longrightarrow> length x + 1 < n \<Longrightarrow>
   fgets_lines n (concat (map (\<lambda>l. l @ [NL]) ls) @ x @ [NL]) = map (\<lambda>l. l @ [NL]) (ls @ [x])"
  using fgets_lines_concat [of "ls @ [x]" n] by auto

lemma chat_messages_snoc:
  "chat_messages my p (ls @ [l]) = chat_messages my p ls @
     (case parse_message (cstr l) of None \<Rightarrow> [] | Some m \<Rightarrow> if belongs_to_chat my p m then [m] else [])"
  by (auto simp: chat_messages_def List.map_filter_def split: option.splits)

text \<open>
  Claim C27: a message that was stored is the last one both parties see when they open the
  chat, with its time, its sender and its cleaned text, after the up to nine messages that
  preceded it; the cleaned text has at most 1023 characters and no separator or line end.
\<close>
theorem message_stored:
  assumes f: "s_msgs s = Some (concat (map (\<lambda>l. l @ [NL]) ls))" "\<forall>l \<in> set ls. NL \<notin> set l \<and> length l + 1 < 1400"
    and r: "long_range (e_time env)" "int_range a" "int_range b" and ap: "append_message env a b text s = (0, t)"
    and my: "my = a \<and> p = b \<or> my = b \<and> p = a"
  shows "\<exists>file. s_msgs t = Some file \<and>
     collect_history my p [] (fgets_lines 1400 file) = last_n 10 (chat_messages my p (map (\<lambda>l. l @ [NL]) ls) @
       [\<lparr>h_time = e_time env, h_sender = a, h_receiver = b, h_text = clean_message text\<rparr>]) \<and>
     length (clean_message text) \<le> 1023 \<and> BAR \<notin> set (clean_message text) \<and> NL \<notin> set (clean_message text)"
proof -
  let ?x = "msg_line (e_time env) a b (clean_message text)"
  let ?m = "\<lparr>h_time = e_time env, h_sender = a, h_receiver = b, h_text = clean_message text\<rparr>"
  from ap f(1) have t: "s_msgs t = Some (concat (map (\<lambda>l. l @ [NL]) ls) @ ?x @ [NL])"
    by (auto simp: append_message_def split: if_splits)
  have "fgets_lines 1400 (concat (map (\<lambda>l. l @ [NL]) ls) @ ?x @ [NL]) = map (\<lambda>l. l @ [NL]) ls @ [?x @ [NL]]"
    using fgets_append_line [OF f(2)] msg_line_fits [OF r] by simp
  moreover have "parse_message (cstr (?x @ [NL])) = Some ?m"
    using clean_message_facts r by (intro parse_message_roundtrip) simp_all
  moreover have "belongs_to_chat my p ?m" using my by (auto simp: belongs_to_chat_def)
  moreover have "BAR \<notin> set (clean_message text)" unfolding clean_message_def using sanitize_clean by blast
  ultimately show ?thesis using t clean_message_facts
    by (simp add: collect_history_eq chat_messages_snoc)
qed

theorem message_stored_witness:
  "\<exists>t file. append_message env_demo 1 2 ''hi|there'' (srv_demo\<lparr>s_msgs := Some []\<rparr>) = (0, t) \<and> s_msgs t = Some file \<and>
     collect_history 2 1 [] (fgets_lines 1400 file) =
       [\<lparr>h_time = 1000, h_sender = 1, h_receiver = 2, h_text = ''hi/there''\<rparr>]"
proof -
  obtain t where t: "append_message env_demo 1 2 ''hi|there'' (srv_demo\<lparr>s_msgs := Some []\<rparr>) = (0, t)"
    by (simp add: append_message_def env_demo_def)
  have c: "clean_message ''hi|there'' = ''hi/there''" by (simp add: clean_message_def cstr_def MESSAGE_SIZE_def)
  from message_stored [OF _ _ _ _ _ t, of "[]" 2 1] t show ?thesis
    by (auto simp: env_demo_def long_range_def int_range_def c last_n_def chat_messages_def List.map_filter_def)
qed

section \<open>The conversation list\<close>

text \<open>The messages of a user as pairs of the other party and the time.\<close>

fun contact_msgs :: "int \<Rightarrow> string list \<Rightarrow> (int \<times> int) list" where
  "contact_msgs my_id [] = []"
| "contact_msgs my_id (line # ls) =
     (case sscanf [S_ld, S_lit BAR, S_d, S_lit BAR, S_d, S_lit BAR] (cstr line) of
        [A_int t, A_int a, A_int b] \<Rightarrow>
          (if other_party my_id a b = -1 then [] else [(other_party my_id a b, t)])
      | _ \<Rightarrow> []) @ contact_msgs my_id ls"

definition last_time :: "int \<Rightarrow> (int \<times> int) list \<Rightarrow> int" where
  "last_time c ms = foldl max 0 (map snd (filter (\<lambda>m. fst m = c) ms))"

lemma collect_contacts_fold:
  "collect_contacts my cs ls = foldl (\<lambda>cs m. note_contact cs (fst m) (snd m)) cs (contact_msgs my ls)"
  by (induction my cs ls rule: collect_contacts.induct) (auto simp: Let_def split: list.splits scan_arg.splits)

lemma note_contact_spec:
  assumes ok: "distinct (map fst cs)" "set (map fst cs) = set (map fst ms)" "\<forall>x \<in> set cs. snd x = last_time (fst x) ms"
    and room: "card (insert c (set (map fst ms))) \<le> MAX_USERS"
  shows "distinct (map fst (note_contact cs c t)) \<and> set (map fst (note_contact cs c t)) = set (map fst (ms @ [(c, t)])) \<and>
     (\<forall>x \<in> set (note_contact cs c t). snd x = last_time (fst x) (ms @ [(c, t)]))"
proof (cases "first_index (\<lambda>x. fst x = c) cs")
  case None
  then have new: "c \<notin> set (map fst cs)" by (auto simp: first_index_None_iff)
  have "length cs = card (set (map fst cs))" using distinct_card [OF ok(1)] by simp
  with room new ok(2) have "length cs < MAX_USERS" by (simp add: card_insert_if)
  moreover have "filter (\<lambda>m. fst m = c) ms = []" using new ok(2) by (auto simp: filter_empty_conv)
  then have "last_time c (ms @ [(c, t)]) = max 0 t" by (simp add: last_time_def)
  moreover have "\<forall>x \<in> set cs. snd x = last_time (fst x) (ms @ [(c, t)])"
  proof
    fix x assume "x \<in> set cs"
    with new have "fst x \<noteq> c" by auto
    with ok(3) \<open>x \<in> set cs\<close> show "snd x = last_time (fst x) (ms @ [(c, t)])" by (simp add: last_time_def)
  qed
  ultimately show ?thesis using None new ok(1,2) by (simp add: note_contact_def max_def)
next
  case (Some i)
  then have i: "i < length cs" "fst (cs ! i) = c" by (auto dest: first_index_holds)
  have other: "last_time d (ms @ [(c, t)]) = last_time d ms" if "d \<noteq> c" for d using that by (simp add: last_time_def)
  have me: "last_time c (ms @ [(c, t)]) = max (snd (cs ! i)) t"
    using ok(3) i by (auto simp: last_time_def)
  define ds where "ds = (if t > snd (cs ! i) then cs[i := (c, t)] else cs)"
  have n: "note_contact cs c t = ds" using Some by (simp add: note_contact_def ds_def)
  have f: "map fst ds = map fst cs" using i by (simp add: ds_def map_update list_update_same_conv)
  have "snd (ds ! j) = last_time (fst (ds ! j)) (ms @ [(c, t)])" if j: "j < length cs" for j
  proof (cases "j = i")
    case True
    with i me show ?thesis by (simp add: ds_def)
  next
    case False
    have "fst (cs ! j) \<noteq> c" using ok(1) i j False by (metis distinct_conv_nth length_map nth_map)
    with other ok(3) j False show ?thesis by (simp add: ds_def)
  qed
  then have "\<forall>x \<in> set ds. snd x = last_time (fst x) (ms @ [(c, t)])"
    by (metis ds_def in_set_conv_nth length_list_update)
  moreover have "c \<in> set (map fst ms)" using i ok(2) by (metis length_map nth_map nth_mem)
  ultimately show ?thesis unfolding n f using ok(1,2) by (simp add: insert_absorb)
qed

lemma collect_contacts_spec:
  assumes "card (set (map fst ms)) \<le> MAX_USERS" "cs = foldl (\<lambda>cs m. note_contact cs (fst m) (snd m)) [] ms"
  shows "distinct (map fst cs) \<and> set (map fst cs) = set (map fst ms) \<and> (\<forall>x \<in> set cs. snd x = last_time (fst x) ms)"
  using assms
proof (induction ms arbitrary: cs rule: rev_induct)
  case Nil
  then show ?case by simp
next
  case (snoc m ms)
  obtain c t where m: "m = (c, t)" by fastforce
  have room: "card (insert c (set (map fst ms))) \<le> MAX_USERS" using snoc.prems(1) m by simp
  then have "card (set (map fst ms)) \<le> MAX_USERS" by (meson card_insert_le finite_set le_trans)
  note IH = snoc.IH [OF this refl]
  show ?case unfolding snoc.prems(2) m foldl_append using note_contact_spec [OF IH [THEN conjunct1] IH [THEN conjunct2, THEN conjunct1]
        IH [THEN conjunct2, THEN conjunct2] room, of t] by simp
qed

text \<open>
  Claim C9: the conversation list shows exactly the people the user has exchanged messages
  with, each once, the one with the most recent message first; the menu numbers are positions
  in that list.
\<close>
theorem conversation_list_correct:
  assumes f: "s_msgs s = Some file" "e_read_ok env" and ci: "ci < length (s_clients s)"
    and me: "me = c_user_id (s_clients s ! ci)" and ms: "ms = contact_msgs me (fgets_lines 1400 file)"
    and few: "card (set (map fst ms)) \<le> MAX_USERS"
  shows "\<exists>cs. c_menu (s_clients (show_conversation_list env ci s) ! ci) = map fst cs \<and> distinct (map fst cs) \<and>
     set (map fst cs) = set (map fst ms) \<and> (\<forall>x \<in> set cs. snd x = last_time (fst x) ms) \<and>
     sorted_wrt (\<lambda>x y. snd x \<ge> snd y) cs"
proof (intro exI conjI)
  let ?c = "collect_contacts me [] (fgets_lines 1400 file)" and ?cs = "contact_list env me s"
  have cs: "?cs = exchange_sort ?c" using f by (simp add: contact_list_def)
  note sort = exchange_sort_correct [of ?c, folded cs]
  have spec: "distinct (map fst ?c)" "set (map fst ?c) = set (map fst ms)" "\<forall>x \<in> set ?c. snd x = last_time (fst x) ms"
    using collect_contacts_spec [OF few refl] by (simp_all add: collect_contacts_fold ms)
  show "c_menu (s_clients (show_conversation_list env ci s) ! ci) = map fst ?cs"
    using ci me by (simp add: show_conversation_list_state)
  show "sorted_wrt (\<lambda>x y. snd x \<ge> snd y) ?cs" by (rule sort(2))
  show "distinct (map fst ?cs)" using sort(1) spec(1) by (metis mset_eq_imp_distinct_iff mset_map)
  show "set (map fst ?cs) = set (map fst ms)" using sort(1) spec(2) by (metis mset_eq_setD mset_map)
  show "\<forall>x \<in> set ?cs. snd x = last_time (fst x) ms" using sort(1) spec(3) by (metis mset_eq_setD)
qed

theorem conversation_list_correct_witness:
  "\<exists>cs. c_menu (s_clients (show_conversation_list env_demo 0 (srv_demo\<lparr>s_msgs := Some []\<rparr>)) ! 0) = map fst cs \<and>
     set (map fst cs) = {}"
proof -
  have "card (set (map fst (contact_msgs 1 (fgets_lines 1400 [])))) \<le> MAX_USERS" by (simp add: fgets_lines.simps)
  from conversation_list_correct [OF _ _ _ _ refl this, of "srv_demo\<lparr>s_msgs := Some []\<rparr>" env_demo 0]
  show ?thesis by (auto simp: env_demo_def srv_demo_def fgets_lines.simps new_client_def)
qed

end
