(* ===== verification/Chat_Props4.thy ===== *)
theory Chat_Props4
  imports Chat_Props3
begin

text \<open>
  Who gets in and who is put out: the login, the administrator's removal and the start-up errors
  of \<open>chat/server.c\<close>.
\<close>

section \<open>Login\<close>

text \<open>The state of a connection after a login attempt.\<close>

definition logged_as :: "nat \<Rightarrow> int \<Rightarrow> server \<Rightarrow> bool" where
  "logged_as ci uid t \<longleftrightarrow> c_active (s_clients t ! ci) \<and> c_logged_in (s_clients t ! ci) \<and>
     c_user_id (s_clients t ! ci) = uid \<and> c_mode (s_clients t ! ci) = MODE_MENU"

lemma login_as_logged:
  assumes "here ci s"
  shows "logged_as ci (u_id (s_users s ! ui)) (snd (login_as env ci ui s))" "s_users (snd (login_as env ci ui s)) = s_users s"
  using assms by (simp_all add: logged_as_def here_def login_as_def Let_def show_conversation_list_state upd_client_def)

lemma disconnect_users [simp]: "s_users (disconnect_client ci s) = s_users s"
  by (simp add: disconnect_client_def Let_def)

lemma login_known:
  assumes h: "here ci s" and n: "sanitize_message line \<noteq> []" "length (sanitize_message line) < 32"
    and i: "find_user_index_by_name (s_users s) (sanitize_message line) = Some i" and res: "process_login env ci line s = (r, t)"
  shows "s_users t = s_users s \<and>
    (if u_active (s_users s ! i) = 0 \<or> find_client_by_user_id (s_clients s) (u_id (s_users s ! i)) \<noteq> None
     then r = 0 \<and> \<not> here ci t else r = 1 \<and> logged_as ci (u_id (s_users s ! i)) t)"
proof (cases "u_active (s_users s ! i) = 0 \<or> find_client_by_user_id (s_clients s) (u_id (s_users s ! i)) \<noteq> None")
  case True
  with res n i h show ?thesis
    by (auto simp: process_login_def Let_def USERNAME_SIZE_def disconnect_gone split: if_splits)
next
  case False
  with res n i have "(r, t) = login_as env ci i s" by (simp add: process_login_def Let_def USERNAME_SIZE_def)
  moreover have "fst (login_as env ci i s) = 1" by simp
  ultimately show ?thesis using False login_as_logged [OF h] by (simp add: prod_eq_iff)
qed

lemma login_new:
  assumes ok: "srv_ok s" and h: "here ci s" and n: "n = sanitize_message line" "n \<noteq> []" "length n < 32"
    and new: "find_user_index_by_name (s_users s) n = None" "length (s_users s) < 1000"
    and res: "process_login env ci line s = (r, t)"
  defines "m \<equiv> get_max_user_id (s_users s) + 1"
  shows "s_users t = s_users s @ [\<lparr>u_id = m, u_name = n, u_active = 1, u_is_admin = 0\<rparr>] \<and>
    (if e_save_ok env then r = 1 \<and> logged_as ci m t \<and> s_users_file t = Some (users_text (s_users t))
     else r = 0 \<and> \<not> here ci t \<and> s_users_file t = s_users_file s)"
proof -
  let ?s = "s\<lparr>s_users := s_users s @ [\<lparr>u_id = m, u_name = n, u_active = 1, u_is_admin = 0\<rparr>]\<rparr>"
  have m: "to_int m = m" unfolding m_def
    using ok new get_max_user_id_ge(2) [of "s_users s"]
    by (intro to_int_id) (auto simp: srv_ok_def users_ok_def int_range_def MAX_USERS_def)
  have p: "process_login env ci line s = (case save_users (e_save_ok env) ?s of (r, s') \<Rightarrow>
      if r < 0 then (0, disconnect_client ci (send_text (cfd_at s ci) (''Could not save user.'' @ [NL]) s'))
      else login_as env ci (length (s_users s)) s')"
    using new n m [unfolded m_def] by (simp add: process_login_def Let_def USERNAME_SIZE_def MAX_USERS_def m_def)
  show ?thesis
  proof (cases "e_save_ok env")
    case False
    with p res new h show ?thesis
      by (auto simp: save_users_def disconnect_gone disconnect_client_def Let_def here_def zero_client_def)
  next
    case True
    let ?s' = "?s\<lparr>s_users_file := Some (users_text (s_users ?s))\<rparr>"
    have "(r, t) = login_as env ci (length (s_users s)) ?s'" using p res True by (simp add: save_users_def)
    moreover have h': "here ci ?s'" using h by simp
    moreover have "s_users_file (snd (login_as env ci u s')) = s_users_file s'" for u s'
      by (simp add: login_as_def Let_def show_conversation_list_state upd_client_def)
    ultimately show ?thesis
      using True new login_as_logged [OF h', where ui = "length (s_users s)" and env = env] by (simp add: prod_eq_iff)
  qed
qed

text \<open>
  Claim C28: every outcome of a login line.  An empty or too long name leaves the client at the
  prompt; a removed account, an account already logged in, a full table and a failed save end
  the connection; otherwise the client is logged in, as the existing user of that name or as a
  new, active user without admin rights whose id is one above every other.  After a failed
  save the new account nevertheless stays in the table.
\<close>
theorem login_outcomes:
  assumes ok: "srv_ok s" and h: "here ci s" and n: "n = sanitize_message line"
    and res: "process_login env ci line s = (r, t)"
  shows "if n = [] \<or> length n \<ge> 32 then r = 1 \<and> s_users t = s_users s \<and> s_clients t = s_clients s
     else case find_user_index_by_name (s_users s) n of
       Some i \<Rightarrow> s_users t = s_users s \<and>
         (if u_active (s_users s ! i) = 0 \<or> find_client_by_user_id (s_clients s) (u_id (s_users s ! i)) \<noteq> None
          then r = 0 \<and> \<not> here ci t
          else r = 1 \<and> logged_as ci (u_id (s_users s ! i)) t)
     | None \<Rightarrow>
         if length (s_users s) \<ge> 1000 then r = 0 \<and> \<not> here ci t \<and> s_users t = s_users s
         else s_users t = s_users s @ [\<lparr>u_id = get_max_user_id (s_users s) + 1, u_name = n, u_active = 1, u_is_admin = 0\<rparr>] \<and>
           (if e_save_ok env then r = 1 \<and> logged_as ci (get_max_user_id (s_users s) + 1) t \<and>
                s_users_file t = Some (users_text (s_users t))
            else r = 0 \<and> \<not> here ci t \<and> s_users_file t = s_users_file s)"
proof -
  consider (bad) "n = [] \<or> length n \<ge> 32"
    | (old) i where "n \<noteq> []" "length n < 32" "find_user_index_by_name (s_users s) n = Some i"
    | (full) "n \<noteq> []" "length n < 32" "find_user_index_by_name (s_users s) n = None" "length (s_users s) \<ge> 1000"
    | (new) "n \<noteq> []" "length n < 32" "find_user_index_by_name (s_users s) n = None" "length (s_users s) < 1000"
    by fastforce
  then show ?thesis
  proof cases
    case bad
    then have "\<exists>x. process_login env ci line s = (1, send_text (cfd_at s ci) x s)"
      by (cases "n = []") (auto simp: process_login_def Let_def USERNAME_SIZE_def n)
    with bad res show ?thesis by auto
  next
    case old
    from login_known [OF h old(1-3) [unfolded n] res] old show ?thesis by simp
  next
    case full
    with res n h show ?thesis
      by (auto simp: process_login_def Let_def USERNAME_SIZE_def MAX_USERS_def disconnect_gone)
  next
    case new
    from login_new [OF ok h n new res] new show ?thesis by simp
  qed
qed

text \<open>Slot 2 logs in as \<open>ali\<close>, who is new.\<close>
theorem login_outcomes_witness:
  "\<exists>t. process_login env_demo 2 ''ali'' srv_demo = (1, t) \<and> logged_as 2 3 t \<and>
     s_users t = [ahmet, mehmet, \<lparr>u_id = 3, u_name = ''ali'', u_active = 1, u_is_admin = 0\<rparr>]"
proof -
  have u: "s_users srv_demo = [ahmet, mehmet]" by (simp add: srv_demo_def)
  have h: "here 2 srv_demo" by (simp add: here_def srv_demo_clients MAX_CLIENTS_def new_client_def) (simp add: srv_demo_def)
  have f: "find_user_index_by_name [ahmet, mehmet] ''ali'' = None" "get_max_user_id [ahmet, mehmet] = 2"
    by (simp_all add: find_user_index_by_name_def ahmet_def mehmet_def get_max_user_id_def)
  obtain r t where p: "process_login env_demo 2 ''ali'' srv_demo = (r, t)" by fastforce
  from login_outcomes [OF srv_demo_ok h refl p] p show ?thesis by (simp add: u f env_demo_def)
qed

section \<open>Removing a user\<close>

lemma find_after_disconnect:
  assumes "clients_ok us cs" "find_client_by_user_id cs uid = Some tc"
  shows "find_client_by_user_id (cs[tc := zero_client\<lparr>c_fd := -1\<rparr>]) uid = None"
proof -
  have len: "length cs = MAX_CLIENTS" using assms(1) by (simp add: clients_ok_def)
  have "\<not> (c_active c \<and> c_logged_in c \<and> c_user_id c = uid)" if c: "c \<in> set (cs[tc := zero_client\<lparr>c_fd := -1\<rparr>])" for c
  proof -
    from c obtain j where j: "j < length cs" "c = cs[tc := zero_client\<lparr>c_fd := -1\<rparr>] ! j" by (auto simp: in_set_conv_nth)
    show ?thesis
    proof (cases "j = tc")
      case True
      with j show ?thesis by (simp add: zero_client_def)
    next
      case False
      with find_client_unique [OF assms, of j] j show ?thesis by auto
    qed
  qed
  then show ?thesis by (auto simp: find_client_by_user_id_def first_index_None_iff)
qed

text \<open>The removal marks the user and empties the slot that is logged in as it.\<close>

lemma remove_user_effect:
  assumes ck: "clients_ok (s_users s) (s_clients s)" and i: "i < length (s_users s)"
  shows "s_users (remove_user env ci i s) = (s_users s)[i := (s_users s ! i)\<lparr>u_active := 0\<rparr>]"
    "s_clients (remove_user env ci i s) = (case find_client_by_user_id (s_clients s) (u_id (s_users s ! i)) of
       None \<Rightarrow> s_clients s | Some tc \<Rightarrow> (s_clients s)[tc := zero_client\<lparr>c_fd := -1\<rparr>])"
proof -
  let ?u = "s_users s ! i" and ?s1 = "snd (save_users (e_save_ok env) (set_user_active i 0 s))"
  have s1: "s_users ?s1 = (s_users s)[i := ?u\<lparr>u_active := 0\<rparr>]" "s_clients ?s1 = s_clients s"
    by (simp_all add: set_user_active_def)
  have uid: "u_id (s_users ?s1 ! i) = u_id ?u" unfolding s1 using i by simp
  have act: "c_active (s_clients s ! tc)" "tc < MAX_CLIENTS"
    if "find_client_by_user_id (s_clients s) (u_id ?u) = Some tc" for tc
    using that ck unfolding find_client_by_user_id_def clients_ok_def by (auto dest: first_index_SomeD)
  show "s_users (remove_user env ci i s) = (s_users s)[i := ?u\<lparr>u_active := 0\<rparr>]"
    unfolding remove_user_def Let_def uid by (simp add: same_dbD set_user_active_def split: option.splits)
  show "s_clients (remove_user env ci i s) = (case find_client_by_user_id (s_clients s) (u_id ?u) of
      None \<Rightarrow> s_clients s | Some tc \<Rightarrow> (s_clients s)[tc := zero_client\<lparr>c_fd := -1\<rparr>])"
    unfolding remove_user_def Let_def uid s1(2)
    by (auto simp: same_dbD disconnect_client_def Let_def set_user_active_def dest: act split: option.splits)
qed

lemma remove_user_logs_out:
  assumes ck: "clients_ok (s_users s) (s_clients s)" and i: "i < length (s_users s)"
    and u: "uid = u_id (s_users s ! i)" and t: "t = remove_user env ci i s"
  shows "find_client_by_user_id (s_clients t) uid = None \<and>
    (\<forall>j < length (s_clients s). c_user_id (s_clients s ! j) \<noteq> uid \<longrightarrow> s_clients t ! j = s_clients s ! j)"
proof (cases "find_client_by_user_id (s_clients s) uid")
  case None
  then show ?thesis using remove_user_effect(2) [OF ck i] by (simp add: t u)
next
  case (Some tc)
  then have "c_user_id (s_clients s ! tc) = uid"
    unfolding find_client_by_user_id_def by (auto dest: first_index_holds)
  then have "\<forall>j. c_user_id (s_clients s ! j) \<noteq> uid \<longrightarrow> (s_clients s)[tc := zero_client\<lparr>c_fd := -1\<rparr>] ! j = s_clients s ! j"
    by (metis nth_list_update_neq)
  with Some find_after_disconnect [OF ck Some] show ?thesis
    using remove_user_effect(2) [OF ck i] by (simp add: t u)
qed

text \<open>
  Claim C29: the administrator's \<open>d <number>\<close> never removes an administrator; it marks exactly
  the numbered user as removed, and afterwards nobody is logged in as that user while every
  other user's connection is as it was.
\<close>
theorem admin_remove:
  assumes ok: "srv_ok s" and cmd: "sscanf [S_c, S_space, S_d] line = [A_str ''d'', A_int k]"
    and k: "1 \<le> k" "k \<le> int (length (s_users s))" and u: "u = s_users s ! nat (k - 1)" and q: "line \<noteq> ''q''"
    and res: "process_admin env ci line s = (r, t)"
  shows "r = 1 \<and>
    (if u_is_admin u \<noteq> 0 \<or> u_active u = 0 then s_users t = s_users s \<and> s_clients t = s_clients s
     else s_users t = (s_users s)[nat (k - 1) := u\<lparr>u_active := 0\<rparr>] \<and>
       find_client_by_user_id (s_clients t) (u_id u) = None \<and>
       (\<forall>j < length (s_clients s). c_user_id (s_clients s ! j) \<noteq> u_id u \<longrightarrow> s_clients t ! j = s_clients s ! j))"
proof -
  have "\<exists>x y. process_admin env ci line s = (if u_is_admin u \<noteq> 0 then (1, send_text (cfd_at s ci) x s)
      else if u_active u = 0 then (1, send_text (cfd_at s ci) y s) else (1, remove_user env ci (nat (k - 1)) s))"
    unfolding process_admin_def Let_def cmd using k u q by auto
  then obtain x y where e: "(r, t) = (if u_is_admin u \<noteq> 0 then (1, send_text (cfd_at s ci) x s)
      else if u_active u = 0 then (1, send_text (cfd_at s ci) y s) else (1, remove_user env ci (nat (k - 1)) s))"
    using res by auto
  show ?thesis
  proof (cases "u_is_admin u \<noteq> 0 \<or> u_active u = 0")
    case True
    with e show ?thesis by (auto split: if_splits)
  next
    case False
    have i: "nat (k - 1) < length (s_users s)" and ck: "clients_ok (s_users s) (s_clients s)"
      using k ok by (linarith, simp add: srv_ok_def)
    have rt: "r = 1" "t = remove_user env ci (nat (k - 1)) s" using False e by simp_all
    with False remove_user_effect(1) [OF ck i] remove_user_logs_out [OF ck i] show ?thesis by (simp add: u)
  qed
qed

theorem admin_remove_witness:
  "\<exists>t. process_admin env_demo 0 ''d 2'' srv_demo = (1, t) \<and> s_users t = [ahmet, mehmet\<lparr>u_active := 0\<rparr>] \<and>
     find_client_by_user_id (s_clients t) 2 = None"
proof -
  have s: "sscanf [S_c, S_space, S_d] ''d 2'' = [A_str ''d'', A_int 2]"
    by (simp add: sscanf_convs scan_long_def is_space_def is_digit_def num_val_def digit_val_def clamp_long_def to_int_def
        less_eq_char_def Let_def)
  have u: "s_users srv_demo = [ahmet, mehmet]" by (simp add: srv_demo_def)
  obtain r t where p: "process_admin env_demo 0 ''d 2'' srv_demo = (r, t)" by fastforce
  have "1 \<le> (2::int)" "2 \<le> int (length (s_users srv_demo))" by (simp_all add: u)
  from admin_remove [OF srv_demo_ok s this refl _ p] p show ?thesis by (simp add: u mehmet_def)
qed

section \<open>Start-up\<close>

text \<open>
  When the server cannot start it returns 1 and has closed exactly the descriptors
  it had opened; when it starts, none is closed and the listening socket is watched.
\<close>
theorem setup_closes:
  assumes "chat_setup open_ok save_ok sock bindr listenr ep addr (s\<lparr>s_out := []\<rparr>) = (res, t)"
  shows "case res of None \<Rightarrow> s_out t = [S_epoll_add sock] \<and> 0 \<le> sock \<and> 0 \<le> ep
     | Some code \<Rightarrow> code = 1 \<and> s_out t =
         (if fst (load_users open_ok save_ok (s\<lparr>s_out := [], s_clients := []\<rparr>)) < 0 \<or> sock < 0 then []
          else if bindr < 0 \<or> listenr < 0 \<or> ep < 0 then [S_close sock] else [S_close ep, S_close sock])"
proof -
  have l: "fst (load_users open_ok save_ok (u\<lparr>s_clients := x\<rparr>)) = fst (load_users open_ok save_ok (u\<lparr>s_clients := y\<rparr>))" for u x y
    by (simp add: load_users_def Let_def save_users_def split: option.splits)
  have o: "s_out (snd (load_users open_ok save_ok u)) = s_out u" for u
    by (simp add: load_users_def Let_def save_users_def split: option.splits)
  let ?u = "s\<lparr>s_out := [], s_clients := replicate MAX_CLIENTS (zero_client\<lparr>c_fd := -1\<rparr>)\<rparr>"
  obtain r v where r: "load_users open_ok save_ok ?u = (r, v)" by fastforce
  have v: "s_out v = []" using o [of ?u] r by simp
  have "r = fst (load_users open_ok save_ok (s\<lparr>s_out := [], s_clients := []\<rparr>))"
    using l [where u = "s\<lparr>s_out := []\<rparr>" and x = "[]" and y = "replicate MAX_CLIENTS (zero_client\<lparr>c_fd := -1\<rparr>)"] r by simp
  with assms r v show ?thesis by (auto simp: chat_setup_def Let_def split: if_splits)
qed

theorem setup_closes_witness:
  "s_out (snd (chat_setup True True 3 0 0 4 (-1) (srv_demo\<lparr>s_out := []\<rparr>))) = [S_close 4, S_close 3]"
proof -
  let ?x = "chat_setup True True 3 0 0 4 (-1) (srv_demo\<lparr>s_out := []\<rparr>)"
  have n: "fst ?x \<noteq> None" by (simp add: chat_setup_def Let_def split: prod.splits)
  have l: "\<not> fst (load_users True True (srv_demo\<lparr>s_out := [], s_clients := []\<rparr>)) < 0"
    by (simp add: load_users_def srv_demo_def Let_def fgets_lines.simps find_user_index_by_name_def save_users_def MAX_USERS_def)
  from setup_closes [OF prod.collapse [of ?x, symmetric]] n l show ?thesis by (auto split: option.splits)
qed

end
