(* ===== verification/Edunic_Base.thy ===== *)
theory Edunic_Base
  imports Netdev_Base "HOL-Library.Signed_Division"
begin

text \<open>
  The constants and the data of \<open>linux_nic_lab/driver/nic.h\<close>, and the register accessors of
  \<open>nic_hw.c\<close> over the register file that header documents: the interrupt cause register is
  cleared by reading it, \<open>ICS\<close> sets causes, \<open>IMS\<close> and \<open>IMC\<close> set and clear irq_mask bits, the reset
  bit of \<open>CTRL\<close> clears itself, and every other register keeps what was written last.
\<close>

section \<open>Constants\<close>

definition EDUNIC_REG_CTRL :: nat where "EDUNIC_REG_CTRL = 0x0000"
definition EDUNIC_CTRL_RST :: u32 where "EDUNIC_CTRL_RST = push_bit 0 1"
definition EDUNIC_CTRL_TXEN :: u32 where "EDUNIC_CTRL_TXEN = push_bit 1 1"
definition EDUNIC_CTRL_RXEN :: u32 where "EDUNIC_CTRL_RXEN = push_bit 2 1"
definition EDUNIC_REG_STATUS :: nat where "EDUNIC_REG_STATUS = 0x0004"
definition EDUNIC_STATUS_LINKUP :: u32 where "EDUNIC_STATUS_LINKUP = push_bit 0 1"
definition EDUNIC_REG_MAC_LOW :: nat where "EDUNIC_REG_MAC_LOW = 0x0010"
definition EDUNIC_REG_MAC_HIGH :: nat where "EDUNIC_REG_MAC_HIGH = 0x0014"
definition EDUNIC_REG_TDBAL :: nat where "EDUNIC_REG_TDBAL = 0x0100"
definition EDUNIC_REG_TDBAH :: nat where "EDUNIC_REG_TDBAH = 0x0104"
definition EDUNIC_REG_TDLEN :: nat where "EDUNIC_REG_TDLEN = 0x0108"
definition EDUNIC_REG_TDH :: nat where "EDUNIC_REG_TDH = 0x010C"
definition EDUNIC_REG_TDT :: nat where "EDUNIC_REG_TDT = 0x0110"
definition EDUNIC_REG_RDBAL :: nat where "EDUNIC_REG_RDBAL = 0x0200"
definition EDUNIC_REG_RDBAH :: nat where "EDUNIC_REG_RDBAH = 0x0204"
definition EDUNIC_REG_RDLEN :: nat where "EDUNIC_REG_RDLEN = 0x0208"
definition EDUNIC_REG_RDH :: nat where "EDUNIC_REG_RDH = 0x020C"
definition EDUNIC_REG_RDT :: nat where "EDUNIC_REG_RDT = 0x0210"
definition EDUNIC_REG_ICR :: nat where "EDUNIC_REG_ICR = 0x0300"
definition EDUNIC_REG_ICS :: nat where "EDUNIC_REG_ICS = 0x0304"
definition EDUNIC_REG_IMS :: nat where "EDUNIC_REG_IMS = 0x0308"
definition EDUNIC_REG_IMC :: nat where "EDUNIC_REG_IMC = 0x030C"
definition EDUNIC_INT_TX :: u32 where "EDUNIC_INT_TX = push_bit 0 1"
definition EDUNIC_INT_RX :: u32 where "EDUNIC_INT_RX = push_bit 1 1"
definition EDUNIC_INT_LSC :: u32 where "EDUNIC_INT_LSC = push_bit 2 1"
definition EDUNIC_INT_ALL :: u32 where "EDUNIC_INT_ALL = EDUNIC_INT_TX OR EDUNIC_INT_RX OR EDUNIC_INT_LSC"

lemmas edunic_regs =
  EDUNIC_REG_CTRL_def EDUNIC_REG_STATUS_def EDUNIC_REG_MAC_LOW_def EDUNIC_REG_MAC_HIGH_def
  EDUNIC_REG_TDBAL_def EDUNIC_REG_TDBAH_def EDUNIC_REG_TDLEN_def EDUNIC_REG_TDH_def EDUNIC_REG_TDT_def
  EDUNIC_REG_RDBAL_def EDUNIC_REG_RDBAH_def EDUNIC_REG_RDLEN_def EDUNIC_REG_RDH_def EDUNIC_REG_RDT_def
  EDUNIC_REG_ICR_def EDUNIC_REG_ICS_def EDUNIC_REG_IMS_def EDUNIC_REG_IMC_def

lemmas edunic_bits = EDUNIC_CTRL_RST_def EDUNIC_CTRL_TXEN_def EDUNIC_CTRL_RXEN_def EDUNIC_STATUS_LINKUP_def
  EDUNIC_INT_TX_def EDUNIC_INT_RX_def EDUNIC_INT_LSC_def EDUNIC_INT_ALL_def

definition EDUNIC_TXD_CMD_EOP :: u8 where "EDUNIC_TXD_CMD_EOP = push_bit 0 1"
definition EDUNIC_TXD_CMD_RS :: u8 where "EDUNIC_TXD_CMD_RS = push_bit 1 1"
definition EDUNIC_TXD_STAT_DD :: u8 where "EDUNIC_TXD_STAT_DD = push_bit 0 1"
definition EDUNIC_RXD_STAT_DD :: u8 where "EDUNIC_RXD_STAT_DD = push_bit 0 1"
definition EDUNIC_RXD_STAT_EOP :: u8 where "EDUNIC_RXD_STAT_EOP = push_bit 1 1"
definition EDUNIC_RXD_STAT_CSUM_VALID :: u8 where "EDUNIC_RXD_STAT_CSUM_VALID = push_bit 2 1"
definition EDUNIC_RXD_ERR_RXE :: u8 where "EDUNIC_RXD_ERR_RXE = push_bit 0 1"

definition EDUNIC_RING_SIZE :: nat where "EDUNIC_RING_SIZE = 256"
definition EDUNIC_RING_MASK :: nat where "EDUNIC_RING_MASK = EDUNIC_RING_SIZE - 1"
definition EDUNIC_RX_BUF_SIZE :: nat where "EDUNIC_RX_BUF_SIZE = 2048"
definition EDUNIC_TX_DESC_PER_PKT :: nat where "EDUNIC_TX_DESC_PER_PKT = 1"

section \<open>Data\<close>

record edunic_tx_desc =
  td_buffer_addr :: u64
  td_length :: u16
  td_cso :: u8
  td_cmd :: u8
  td_status :: u8
  td_css :: u8
  td_special :: u16

record edunic_rx_desc =
  rd_buffer_addr :: u64
  rd_length :: u16
  rd_checksum :: u16
  rd_status :: u8
  rd_errors :: u8
  rd_special :: u16

record edunic_tx_buf =
  tb_skb :: "sk_buff option"
  tb_dma :: u64
  tb_len :: nat                         \<comment> \<open>\<open>size_t\<close>, never above what \<open>u32\<close> holds\<close>

text \<open>A receive buffer is its identity and the bytes of its data area.\<close>

record edunic_rx_buf =
  rb_skb :: "(nat \<times> u8 list) option"
  rb_dma :: u64
  rb_len :: nat

text \<open>
  The array pointers are \<open>None\<close> for \<open>NULL\<close>; \<open>buf\<close> keeps the address \<open>kfree\<close> is given.  The
  indices are \<open>u16\<close>; the mask keeps them below 256, so they are naturals.
\<close>

record edunic_tx_ring =
  t_desc :: "edunic_tx_desc list option"
  t_dma :: u64
  t_buf :: "(u64 \<times> edunic_tx_buf list) option"
  t_count :: nat
  t_next_to_use :: nat
  t_next_to_clean :: nat

record edunic_rx_ring =
  r_desc :: "edunic_rx_desc list option"
  r_dma :: u64
  r_buf :: "(u64 \<times> edunic_rx_buf list) option"
  r_count :: nat
  r_next_to_use :: nat
  r_next_to_clean :: nat

record edunic_stats =
  tx_packets :: u64
  tx_bytes :: u64
  tx_errors :: u64
  rx_packets :: u64
  rx_bytes :: u64
  rx_errors :: u64
  rx_dropped :: u64

record chip =
  ch_reg :: "nat \<Rightarrow> u32"
  ch_icr :: u32
  ch_mask :: u32                        \<comment> \<open>the causes that are unmasked\<close>

text \<open>The adapter, with the fields of its \<open>net_device\<close> that the driver sets.\<close>

record edunic_adapter =
  ad_chip :: chip
  ad_tx :: edunic_tx_ring
  ad_rx :: edunic_rx_ring
  ad_irq :: nat
  ad_msi :: bool
  ad_stats :: edunic_stats
  ad_wq :: bool                         \<comment> \<open>\<open>hw_wq\<close> is not \<open>NULL\<close>\<close>
  ad_link_up :: bool
  ad_stopped :: bool                    \<comment> \<open>the transmit queue is stopped\<close>
  ad_carrier :: bool
  ad_mtu :: int
  ad_addr :: "u8 list"

section \<open>Register accessors\<close>

definition edunic_reg_read :: "nat \<Rightarrow> edunic_adapter \<Rightarrow> u32 \<times> edunic_adapter" where
  "edunic_reg_read r a = (let c = ad_chip a in
     if r = EDUNIC_REG_ICR then (ch_icr c, a\<lparr>ad_chip := c\<lparr>ch_icr := 0\<rparr>\<rparr>)
     else (ch_reg c r, a))"

definition chip_write :: "nat \<Rightarrow> u32 \<Rightarrow> chip \<Rightarrow> chip" where
  "chip_write r v c =
     (if r = EDUNIC_REG_ICS then c\<lparr>ch_icr := ch_icr c OR v\<rparr>
      else if r = EDUNIC_REG_IMS then c\<lparr>ch_mask := ch_mask c OR v\<rparr>
      else if r = EDUNIC_REG_IMC then c\<lparr>ch_mask := ch_mask c AND NOT v\<rparr>
      else if r = EDUNIC_REG_CTRL then c\<lparr>ch_reg := (ch_reg c)(r := v AND NOT EDUNIC_CTRL_RST)\<rparr>
      else c\<lparr>ch_reg := (ch_reg c)(r := v)\<rparr>)"

definition edunic_reg_write :: "nat \<Rightarrow> u32 \<Rightarrow> edunic_adapter \<Rightarrow> edunic_adapter" where
  "edunic_reg_write r v a = a\<lparr>ad_chip := chip_write r v (ad_chip a)\<rparr>"

definition reg :: "nat \<Rightarrow> edunic_adapter \<Rightarrow> u32" where
  "reg r a = ch_reg (ad_chip a) r"

lemma reg_read_plain: "r \<noteq> EDUNIC_REG_ICR \<Longrightarrow> edunic_reg_read r a = (reg r a, a)"
  by (simp add: edunic_reg_read_def reg_def)

lemma reg_upds [simp]:
  "reg r (a\<lparr>ad_tx := t\<rparr>) = reg r a" "reg r (a\<lparr>ad_rx := x\<rparr>) = reg r a" "reg r (a\<lparr>ad_stats := s\<rparr>) = reg r a"
  "reg r (a\<lparr>ad_stopped := b\<rparr>) = reg r a" "reg r (a\<lparr>ad_carrier := b\<rparr>) = reg r a" "reg r (a\<lparr>ad_link_up := b\<rparr>) = reg r a"
  "reg r (a\<lparr>ad_irq := n\<rparr>) = reg r a" "reg r (a\<lparr>ad_msi := b\<rparr>) = reg r a" "reg r (a\<lparr>ad_wq := b\<rparr>) = reg r a"
  "reg r (a\<lparr>ad_mtu := m\<rparr>) = reg r a" "reg r (a\<lparr>ad_addr := l\<rparr>) = reg r a"
  by (simp_all add: reg_def)

lemma reg_write_fields [simp]:
  "ad_tx (edunic_reg_write r v a) = ad_tx a" "ad_rx (edunic_reg_write r v a) = ad_rx a"
  "ad_stats (edunic_reg_write r v a) = ad_stats a" "ad_stopped (edunic_reg_write r v a) = ad_stopped a"
  "ad_carrier (edunic_reg_write r v a) = ad_carrier a" "ad_link_up (edunic_reg_write r v a) = ad_link_up a"
  "ad_irq (edunic_reg_write r v a) = ad_irq a" "ad_wq (edunic_reg_write r v a) = ad_wq a"
  "ad_msi (edunic_reg_write r v a) = ad_msi a" "ad_mtu (edunic_reg_write r v a) = ad_mtu a"
  "ad_addr (edunic_reg_write r v a) = ad_addr a"
  by (simp_all add: edunic_reg_write_def)

lemma reg_write_other:
  "r \<noteq> r' \<Longrightarrow> reg r (edunic_reg_write r' v a) = reg r a"
  by (simp add: edunic_reg_write_def chip_write_def reg_def)

lemma reg_write_same:
  "r \<notin> {EDUNIC_REG_ICS, EDUNIC_REG_IMS, EDUNIC_REG_IMC, EDUNIC_REG_CTRL} \<Longrightarrow> reg r (edunic_reg_write r v a) = v"
  by (simp add: edunic_reg_write_def chip_write_def reg_def)

definition irq_mask :: "edunic_adapter \<Rightarrow> u32" where "irq_mask a = ch_mask (ad_chip a)"

lemma irq_mask_simps [simp]:
  "irq_mask (a\<lparr>ad_tx := t\<rparr>) = irq_mask a" "irq_mask (a\<lparr>ad_rx := x\<rparr>) = irq_mask a" "irq_mask (a\<lparr>ad_stats := s\<rparr>) = irq_mask a"
  "irq_mask (a\<lparr>ad_stopped := b\<rparr>) = irq_mask a" "irq_mask (a\<lparr>ad_carrier := b\<rparr>) = irq_mask a" "irq_mask (a\<lparr>ad_link_up := b\<rparr>) = irq_mask a"
  "r \<notin> {EDUNIC_REG_IMS, EDUNIC_REG_IMC} \<Longrightarrow> irq_mask (edunic_reg_write r v a) = irq_mask a"
  "irq_mask (edunic_reg_write EDUNIC_REG_IMS v a) = irq_mask a OR v"
  by (simp_all add: irq_mask_def edunic_reg_write_def chip_write_def EDUNIC_REG_ICS_def EDUNIC_REG_IMS_def)

section \<open>Indices\<close>

definition edunic_next :: "nat \<Rightarrow> nat" where
  "edunic_next i = (i + 1) AND EDUNIC_RING_MASK"

lemma edunic_next_mod: "edunic_next i = Suc i mod 256"
proof -
  have "(i + 1) AND 255 = take_bit 8 (i + 1)" by (simp add: take_bit_eq_mask mask_eq_exp_minus_1)
  also have "\<dots> = (i + 1) mod 256" by (simp add: take_bit_eq_mod)
  finally show ?thesis by (simp add: edunic_next_def EDUNIC_RING_MASK_def EDUNIC_RING_SIZE_def)
qed

text \<open>The mask step satisfies the contract of ring indices.\<close>

interpretation ed_ix: ring_index 256 edunic_next
  by unfold_locales (simp_all add: edunic_next_mod)

end
