(* ===== verification/Edunic_Tx.thy ===== *)
theory Edunic_Tx
  imports Edunic_Base
begin

text \<open>
  \<open>linux_nic_lab/driver/nic_tx.c\<close>: free slots, the stop of the queue with its recheck, the
  transmit ring's set-up and release, \<open>edunic_start_xmit\<close> and \<open>edunic_clean_tx_irq\<close>.
\<close>

section \<open>Free slots and the queue\<close>

text \<open>The subtraction is done on \<open>int\<close>, with C's remainder, and the result kept in a \<open>u16\<close>.\<close>

definition edunic_tx_unused :: "edunic_tx_ring \<Rightarrow> nat" where
  "edunic_tx_unused t =
     nat (((int (t_next_to_clean t) - int (t_next_to_use t) - 1 + int (t_count t)) smod int (t_count t)) mod 2 ^ 16)"

definition EBUSY :: int where "EBUSY = 16"

definition stop_recheck :: "nat \<Rightarrow> edunic_adapter \<Rightarrow> int \<times> edunic_adapter \<times> drv_act list" where
  "stop_recheck needed a =
     (if edunic_tx_unused (ad_tx a) < needed then (- EBUSY, a, [])
      else (0, a\<lparr>ad_stopped := False\<rparr>, [D_wake_queue]))"

definition edunic_maybe_stop_tx :: "nat \<Rightarrow> edunic_adapter \<Rightarrow> int \<times> edunic_adapter \<times> drv_act list" where
  "edunic_maybe_stop_tx needed a =
     (if edunic_tx_unused (ad_tx a) \<ge> needed then (0, a, [])
      else case stop_recheck needed (a\<lparr>ad_stopped := True\<rparr>) of (r, a', as) \<Rightarrow> (r, a', D_stop_queue # as))"

section \<open>Set-up and release of the ring\<close>

definition ENOMEM :: int where "ENOMEM = 12"

definition zero_tx_desc :: edunic_tx_desc where
  "zero_tx_desc = \<lparr>td_buffer_addr = 0, td_length = 0, td_cso = 0, td_cmd = 0, td_status = 0, td_css = 0, td_special = 0\<rparr>"

definition zero_tx_buf :: edunic_tx_buf where
  "zero_tx_buf = \<lparr>tb_skb = None, tb_dma = 0, tb_len = 0\<rparr>"

text \<open>
  The environment gives the bus address of the coherent ring and the address of the metadata
  array, \<open>None\<close> where the allocation fails; both memories come zeroed.
\<close>

definition edunic_setup_tx_resources ::
    "u64 option \<Rightarrow> u64 option \<Rightarrow> edunic_adapter \<Rightarrow> int \<times> edunic_adapter \<times> drv_act list" where
  "edunic_setup_tx_resources coherent mem a =
     (let t = (ad_tx a)\<lparr>t_count := EDUNIC_RING_SIZE, t_next_to_use := 0, t_next_to_clean := 0\<rparr>
      in case coherent of
           None \<Rightarrow> (- ENOMEM, a\<lparr>ad_tx := t\<lparr>t_desc := None\<rparr>\<rparr>, [])
         | Some dma \<Rightarrow>
             let t = t\<lparr>t_desc := Some (replicate EDUNIC_RING_SIZE zero_tx_desc), t_dma := dma\<rparr>
             in case mem of
                  None \<Rightarrow> (- ENOMEM, a\<lparr>ad_tx := t\<lparr>t_buf := None, t_desc := None\<rparr>\<rparr>,
                           [D_coherent_alloc dma, D_coherent_free dma])
                | Some q \<Rightarrow> (0, a\<lparr>ad_tx := t\<lparr>t_buf := Some (q, replicate (t_count t) zero_tx_buf)\<rparr>\<rparr>,
                             [D_coherent_alloc dma, D_kmalloc q]))"

fun free_tx_bufs :: "edunic_tx_buf list \<Rightarrow> drv_act list" where
  "free_tx_bufs [] = []"
| "free_tx_bufs (b # bs) =
     (case tb_skb b of None \<Rightarrow> []
      | Some s \<Rightarrow> [D_dma_unmap DMA_TO_DEVICE (tb_dma b) (of_nat (tb_len b)), D_kfree_skb s]) @ free_tx_bufs bs"

definition edunic_free_tx_resources :: "edunic_adapter \<Rightarrow> edunic_adapter \<times> drv_act list" where
  "edunic_free_tx_resources a =
     (let t = ad_tx a;
          bs = (case t_buf t of None \<Rightarrow> [] | Some (q, buf) \<Rightarrow> free_tx_bufs (take (t_count t) buf) @ [D_kfree q]);
          ds = (case t_desc t of None \<Rightarrow> [] | Some _ \<Rightarrow> [D_coherent_free (t_dma t)])
      in (a\<lparr>ad_tx := t\<lparr>t_buf := None, t_desc := None\<rparr>\<rparr>, bs @ ds))"

section \<open>Transmission\<close>

text \<open>
  The environment is what \<open>dma_map_single\<close> returns and what \<open>dma_mapping_error\<close> says of it.
  The last component of the log is the doorbell and the queueing of the emulated engine.
\<close>

definition edunic_hw_kick_tx :: "drv_act list" where
  "edunic_hw_kick_tx = [D_aux A_queue_work]"

definition edunic_start_xmit :: "u64 \<times> bool \<Rightarrow> sk_buff \<Rightarrow> edunic_adapter \<Rightarrow>
    (netdev_tx \<times> edunic_adapter \<times> drv_act list) option" where
  "edunic_start_xmit dma skb a =
     (case edunic_maybe_stop_tx EDUNIC_TX_DESC_PER_PKT a of (r, a, stop) \<Rightarrow>
      if r \<noteq> 0 then Some (NETDEV_TX_BUSY, a, stop)
      else case dma of (addr, err) \<Rightarrow>
      if err then
        Some (NETDEV_TX_OK, a\<lparr>ad_stats := (ad_stats a)\<lparr>tx_errors := tx_errors (ad_stats a) + 1\<rparr>\<rparr>,
              stop @ [D_kfree_skb skb])
      else let t = ad_tx a; i = t_next_to_use t in
        case (t_desc t, t_buf t) of
          (Some desc, Some (q, buf)) \<Rightarrow>
            if length desc \<le> i \<or> length buf \<le> i then None
            else
              let buf = buf[i := \<lparr>tb_skb = Some skb, tb_dma = addr, tb_len = unat (skb_len skb)\<rparr>];
                  desc = desc[i := (desc ! i)\<lparr>td_buffer_addr := addr, td_length := ucast (skb_len skb),
                     td_cmd := EDUNIC_TXD_CMD_EOP OR EDUNIC_TXD_CMD_RS, td_status := 0\<rparr>];
                  t = t\<lparr>t_buf := Some (q, buf), t_desc := Some desc, t_next_to_use := edunic_next i\<rparr>;
                  a = edunic_reg_write EDUNIC_REG_TDT (of_nat (t_next_to_use t)) (a\<lparr>ad_tx := t\<rparr>)
              in case edunic_maybe_stop_tx EDUNIC_TX_DESC_PER_PKT a of (r', a, stop') \<Rightarrow>
                 Some (NETDEV_TX_OK, a,
                   stop @ [D_dma_map DMA_TO_DEVICE addr (skb_len skb),
                           D_writel EDUNIC_REG_TDT (of_nat (edunic_next i))] @ edunic_hw_kick_tx @ stop')
        | _ \<Rightarrow> None)"

section \<open>Completion\<close>

text \<open>The loop stops at the producer or at the first descriptor the device still owns.\<close>

function edunic_clean_tx_loop :: "nat \<Rightarrow> edunic_tx_desc list \<Rightarrow> edunic_tx_buf list \<Rightarrow> nat \<Rightarrow> nat \<Rightarrow> u32 \<Rightarrow>
    (edunic_tx_desc list \<times> edunic_tx_buf list \<times> nat \<times> nat \<times> u32 \<times> drv_act list) option" where
  "edunic_clean_tx_loop use desc buf i packets bytes =
     (if i = use then Some (desc, buf, i, packets, bytes, [])
      else if length desc \<le> i \<or> length buf \<le> i then None
      else let d = desc ! i; b = buf ! i in
        if td_status d AND EDUNIC_TXD_STAT_DD = 0 then Some (desc, buf, i, packets, bytes, [])
        else map_option (\<lambda>(desc', buf', i', packets', bytes', as).
               (desc', buf', i', packets', bytes',
                D_dma_unmap DMA_TO_DEVICE (tb_dma b) (of_nat (tb_len b))
                  # (case tb_skb b of None \<Rightarrow> [] | Some s \<Rightarrow> [D_kfree_skb s]) @ as))
             (edunic_clean_tx_loop use (desc[i := d\<lparr>td_status := 0\<rparr>]) (buf[i := zero_tx_buf])
                (edunic_next i) (packets + 1) (bytes + of_nat (tb_len b))))"
  by pat_completeness auto

termination
  by (relation "measure (\<lambda>(u, desc, buf, i, p, b). length (filter (\<lambda>d. td_status d AND EDUNIC_TXD_STAT_DD \<noteq> 0) desc))")
     (auto intro!: length_filter_update)

declare edunic_clean_tx_loop.simps [simp del]

definition edunic_clean_tx_irq :: "edunic_adapter \<Rightarrow> (nat \<times> edunic_adapter \<times> drv_act list) option" where
  "edunic_clean_tx_irq a =
     (let t = ad_tx a in
      case (t_desc t, t_buf t) of
        (Some desc, Some (q, buf)) \<Rightarrow>
          (case edunic_clean_tx_loop (t_next_to_use t) desc buf (t_next_to_clean t) 0 0 of
             None \<Rightarrow> None
           | Some (desc, buf, i, packets, bytes, as) \<Rightarrow>
               let a = a\<lparr>ad_tx := t\<lparr>t_desc := Some desc, t_buf := Some (q, buf), t_next_to_clean := i\<rparr>\<rparr>
               in if packets = 0 then Some (0, a, as)
                  else
                    let s = ad_stats a;
                        a = a\<lparr>ad_stats := s\<lparr>tx_packets := tx_packets s + of_nat packets,
                                             tx_bytes := tx_bytes s + ucast bytes\<rparr>\<rparr>
                    in if ad_stopped a \<and> edunic_tx_unused (ad_tx a) \<ge> EDUNIC_TX_DESC_PER_PKT
                       then Some (packets, a\<lparr>ad_stopped := False\<rparr>, as @ [D_wake_queue])
                       else Some (packets, a, as))
      | _ \<Rightarrow> if t_next_to_clean t = t_next_to_use t then Some (0, a, []) else None)"

end
