(* ===== verification/Edunic_Rx.thy ===== *)
theory Edunic_Rx
  imports Edunic_Tx
begin

text \<open>
  \<open>linux_nic_lab/driver/nic_rx.c\<close>: the receive ring's set-up and release, the refill, the
  harvest of received frames and the emulated device's delivery of a frame.
\<close>

section \<open>Set-up and release of the ring\<close>

definition zero_rx_desc :: edunic_rx_desc where
  "zero_rx_desc = \<lparr>rd_buffer_addr = 0, rd_length = 0, rd_checksum = 0, rd_status = 0, rd_errors = 0, rd_special = 0\<rparr>"

definition zero_rx_buf :: edunic_rx_buf where
  "zero_rx_buf = \<lparr>rb_skb = None, rb_dma = 0, rb_len = 0\<rparr>"

definition edunic_setup_rx_resources ::
    "u64 option \<Rightarrow> u64 option \<Rightarrow> edunic_adapter \<Rightarrow> int \<times> edunic_adapter \<times> drv_act list" where
  "edunic_setup_rx_resources coherent mem a =
     (let r = (ad_rx a)\<lparr>r_count := EDUNIC_RING_SIZE, r_next_to_use := 0, r_next_to_clean := 0\<rparr>
      in case coherent of
           None \<Rightarrow> (- ENOMEM, a\<lparr>ad_rx := r\<lparr>r_desc := None\<rparr>\<rparr>, [])
         | Some dma \<Rightarrow>
             let r = r\<lparr>r_desc := Some (replicate EDUNIC_RING_SIZE zero_rx_desc), r_dma := dma\<rparr>
             in case mem of
                  None \<Rightarrow> (- ENOMEM, a\<lparr>ad_rx := r\<lparr>r_buf := None, r_desc := None\<rparr>\<rparr>,
                           [D_coherent_alloc dma, D_coherent_free dma])
                | Some q \<Rightarrow> (0, a\<lparr>ad_rx := r\<lparr>r_buf := Some (q, replicate (r_count r) zero_rx_buf)\<rparr>\<rparr>,
                             [D_coherent_alloc dma, D_kmalloc q]))"

fun free_rx_bufs :: "edunic_rx_buf list \<Rightarrow> drv_act list" where
  "free_rx_bufs [] = []"
| "free_rx_bufs (b # bs) =
     (case rb_skb b of None \<Rightarrow> []
      | Some (skb, _) \<Rightarrow> [D_dma_unmap DMA_FROM_DEVICE (rb_dma b) (of_nat (rb_len b)), D_free_skb skb]) @ free_rx_bufs bs"

definition edunic_free_rx_resources :: "edunic_adapter \<Rightarrow> edunic_adapter \<times> drv_act list" where
  "edunic_free_rx_resources a =
     (let r = ad_rx a;
          bs = (case r_buf r of None \<Rightarrow> [] | Some (q, buf) \<Rightarrow> free_rx_bufs (take (r_count r) buf) @ [D_kfree q]);
          ds = (case r_desc r of None \<Rightarrow> [] | Some _ \<Rightarrow> [D_coherent_free (r_dma r)])
      in (a\<lparr>ad_rx := r\<lparr>r_buf := None, r_desc := None\<rparr>\<rparr>, bs @ ds))"

section \<open>Refill\<close>

text \<open>
  The answers of the allocator and of the mapping to one turn of the loop: no memory; a buffer
  whose mapping fails; or a buffer with its identity, what its data area holds, and its address.
\<close>

datatype rx_alloc = No_skb | Map_error nat | Posted nat "nat \<Rightarrow> u8" u64

fun edunic_alloc_rx_loop :: "(nat \<Rightarrow> rx_alloc) \<Rightarrow> nat \<Rightarrow> nat \<Rightarrow> edunic_rx_desc list \<Rightarrow> edunic_rx_buf list \<Rightarrow> nat \<Rightarrow>
    (edunic_rx_desc list \<times> edunic_rx_buf list \<times> nat \<times> nat \<times> drv_act list) option" where
  "edunic_alloc_rx_loop env 0 posted desc buf i = Some (desc, buf, i, posted, [])"
| "edunic_alloc_rx_loop env (Suc left) posted desc buf i =
     (case env posted of
        No_skb \<Rightarrow> Some (desc, buf, i, posted, [])
      | Map_error skb \<Rightarrow> Some (desc, buf, i, posted, [D_alloc_skb skb, D_free_skb skb])
      | Posted skb content dma \<Rightarrow>
          if length desc \<le> i \<or> length buf \<le> i then None
          else map_option (\<lambda>(desc', buf', i', posted', as).
                 (desc', buf', i', posted',
                  D_alloc_skb skb # D_dma_map DMA_FROM_DEVICE dma (of_nat EDUNIC_RX_BUF_SIZE) # as))
               (edunic_alloc_rx_loop env left (Suc posted)
                  (desc[i := (desc ! i)\<lparr>rd_buffer_addr := dma, rd_length := 0, rd_status := 0, rd_errors := 0\<rparr>])
                  (buf[i := \<lparr>rb_skb = Some (skb, map content [0..<EDUNIC_RX_BUF_SIZE]), rb_dma = dma,
                             rb_len = EDUNIC_RX_BUF_SIZE\<rparr>])
                  (edunic_next i)))"

definition edunic_alloc_rx_buffers :: "(nat \<Rightarrow> rx_alloc) \<Rightarrow> nat \<Rightarrow> edunic_adapter \<Rightarrow>
    (nat \<times> edunic_adapter \<times> drv_act list) option" where
  "edunic_alloc_rx_buffers env cleaned_count a =
     (let r = ad_rx a in
      case (r_desc r, r_buf r) of
        (Some desc, Some (q, buf)) \<Rightarrow>
          (case edunic_alloc_rx_loop env cleaned_count 0 desc buf (r_next_to_use r) of
             None \<Rightarrow> None
           | Some (desc, buf, i, posted, as) \<Rightarrow>
               let r = r\<lparr>r_desc := Some desc, r_buf := Some (q, buf)\<rparr>
               in if posted = 0 then Some (0, a\<lparr>ad_rx := r\<rparr>, as)
                  else Some (posted, edunic_reg_write EDUNIC_REG_RDT (of_nat i) (a\<lparr>ad_rx := r\<lparr>r_next_to_use := i\<rparr>\<rparr>),
                             as @ [D_writel EDUNIC_REG_RDT (of_nat i)]))
      | _ \<Rightarrow> None)"

section \<open>Harvest\<close>

text \<open>
  The loop of \<open>edunic_clean_rx_irq\<close>.  \<open>skb_put\<close> beyond the data area is a kernel panic, and a
  missing buffer a null dereference: both are \<open>None\<close>.
\<close>

fun edunic_clean_rx_loop :: "nat \<Rightarrow> edunic_rx_desc list \<Rightarrow> edunic_rx_buf list \<Rightarrow> nat \<Rightarrow> nat \<Rightarrow> edunic_stats \<Rightarrow>
    (edunic_rx_desc list \<times> edunic_rx_buf list \<times> nat \<times> nat \<times> edunic_stats \<times> drv_act list) option" where
  "edunic_clean_rx_loop 0 desc buf i w s = Some (desc, buf, i, w, s, [])"
| "edunic_clean_rx_loop (Suc left) desc buf i w s =
     (if length desc \<le> i \<or> length buf \<le> i then None
      else let d = desc ! i; b = buf ! i in
        if rd_status d AND EDUNIC_RXD_STAT_DD = 0 then Some (desc, buf, i, w, s, [])
        else
          let len = unat (rd_length d);
              unmap = D_dma_unmap DMA_FROM_DEVICE (rb_dma b) (of_nat (rb_len b));
              next = edunic_clean_rx_loop left (desc[i := d\<lparr>rd_status := 0, rd_errors := 0\<rparr>])
                       (buf[i := b\<lparr>rb_skb := None, rb_dma := 0\<rparr>]) (edunic_next i) (Suc w)
          in if rd_errors d AND EDUNIC_RXD_ERR_RXE \<noteq> 0
             then map_option (\<lambda>(desc', buf', i', w', s', as). (desc', buf', i', w', s',
                    unmap # (case rb_skb b of None \<Rightarrow> [] | Some (skb, _) \<Rightarrow> [D_free_skb skb]) @ as))
                    (next (s\<lparr>rx_errors := rx_errors s + 1\<rparr>))
             else case rb_skb b of None \<Rightarrow> None
             | Some (skb, data) \<Rightarrow>
               if length data < len then None
               else map_option (\<lambda>(desc', buf', i', w', s', as). (desc', buf', i', w', s',
                    unmap # D_gro_receive skb (take len data) (rd_status d AND EDUNIC_RXD_STAT_CSUM_VALID \<noteq> 0) # as))
                    (next (s\<lparr>rx_packets := rx_packets s + 1, rx_bytes := rx_bytes s + of_nat len\<rparr>)))"

text \<open>\<open>cleaned_count\<close> is a \<open>u16\<close>.\<close>

definition edunic_clean_rx_irq :: "(nat \<Rightarrow> rx_alloc) \<Rightarrow> int \<Rightarrow> edunic_adapter \<Rightarrow>
    (int \<times> edunic_adapter \<times> drv_act list) option" where
  "edunic_clean_rx_irq env budget a =
     (let r = ad_rx a in
      if budget \<le> 0 then Some (0, a, [])
      else case (r_desc r, r_buf r) of
        (Some desc, Some (q, buf)) \<Rightarrow>
          (case edunic_clean_rx_loop (nat budget) desc buf (r_next_to_clean r) 0 (ad_stats a) of
             None \<Rightarrow> None
           | Some (desc, buf, i, w, s, as) \<Rightarrow>
               let a = a\<lparr>ad_rx := r\<lparr>r_desc := Some desc, r_buf := Some (q, buf), r_next_to_clean := i\<rparr>, ad_stats := s\<rparr>;
                   cleaned_count = w mod 2 ^ 16
               in if cleaned_count = 0 then Some (int w, a, as)
                  else map_option (\<lambda>(posted, a, as'). (int w, a, as @ as')) (edunic_alloc_rx_buffers env cleaned_count a))
      | _ \<Rightarrow> None)"

section \<open>The device delivers a frame\<close>

definition edunic_hw_deliver_rx_frame :: "u8 list \<Rightarrow> edunic_adapter \<Rightarrow> (edunic_adapter \<times> drv_act list) option" where
  "edunic_hw_deliver_rx_frame frame a =
     (case edunic_reg_read EDUNIC_REG_RDH a of (head, a) \<Rightarrow>
      case edunic_reg_read EDUNIC_REG_RDT a of (tail, a) \<Rightarrow>
      if head = tail
      then Some (a\<lparr>ad_stats := (ad_stats a)\<lparr>rx_dropped := rx_dropped (ad_stats a) + 1\<rparr>\<rparr>, [D_readl EDUNIC_REG_RDH, D_readl EDUNIC_REG_RDT])
      else let r = ad_rx a; h = unat head in
      case (r_desc r, r_buf r) of
        (Some desc, Some (q, buf)) \<Rightarrow>
          if length desc \<le> h \<or> length buf \<le> h then None
          else let b = buf ! h; len = (if length frame > rb_len b then rb_len b else length frame) in
          (case rb_skb b of None \<Rightarrow> None
           | Some (skb, data) \<Rightarrow>
             if length data < len then None
             else
               let buf = buf[h := b\<lparr>rb_skb := Some (skb, take len frame @ drop len data)\<rparr>];
                   desc = desc[h := (desc ! h)\<lparr>rd_length := of_nat len, rd_errors := 0,
                      rd_status := EDUNIC_RXD_STAT_DD OR EDUNIC_RXD_STAT_EOP OR EDUNIC_RXD_STAT_CSUM_VALID\<rparr>];
                   a = a\<lparr>ad_rx := r\<lparr>r_desc := Some desc, r_buf := Some (q, buf)\<rparr>\<rparr>;
                   head' = of_nat (edunic_next h);
                   a = edunic_reg_write EDUNIC_REG_RDH head' a;
                   a = edunic_reg_write EDUNIC_REG_ICS EDUNIC_INT_RX a
               in Some (a, [D_readl EDUNIC_REG_RDH, D_readl EDUNIC_REG_RDT, D_writel EDUNIC_REG_RDH head',
                   D_writel EDUNIC_REG_ICS EDUNIC_INT_RX]))
      | _ \<Rightarrow> None)"

end
