(* ===== verification/Edunic_Hw.thy ===== *)
theory Edunic_Hw
  imports Edunic_Rx
begin

text \<open>
  \<open>linux_nic_lab/driver/nic_hw.c\<close> and \<open>nic_irq.c\<close>: reset and set-up of the device's registers,
  the station address, the interrupt handler, the poll, and the emulated DMA engine with its
  link timer.
\<close>

section \<open>Registers of the device\<close>

text \<open>The reset writes the control register and polls the status; a timeout is only a warning.\<close>

definition edunic_hw_reset :: "edunic_adapter \<Rightarrow> edunic_adapter \<times> drv_act list" where
  "edunic_hw_reset a =
     (edunic_reg_write EDUNIC_REG_CTRL EDUNIC_CTRL_RST (a\<lparr>ad_link_up := False\<rparr>),
      [D_writel EDUNIC_REG_CTRL EDUNIC_CTRL_RST, D_readl EDUNIC_REG_STATUS])"

definition lower_32_bits :: "u64 \<Rightarrow> u32" where "lower_32_bits x = ucast x"
definition upper_32_bits :: "u64 \<Rightarrow> u32" where "upper_32_bits x = ucast (drop_bit 32 x)"

definition ring_writes :: "edunic_adapter \<Rightarrow> (nat \<times> u32) list" where
  "ring_writes a =
     [(EDUNIC_REG_TDBAL, lower_32_bits (t_dma (ad_tx a))), (EDUNIC_REG_TDBAH, upper_32_bits (t_dma (ad_tx a))),
      (EDUNIC_REG_TDLEN, of_nat (t_count (ad_tx a))), (EDUNIC_REG_TDH, 0), (EDUNIC_REG_TDT, 0),
      (EDUNIC_REG_RDBAL, lower_32_bits (r_dma (ad_rx a))), (EDUNIC_REG_RDBAH, upper_32_bits (r_dma (ad_rx a))),
      (EDUNIC_REG_RDLEN, of_nat (r_count (ad_rx a))), (EDUNIC_REG_RDH, 0), (EDUNIC_REG_RDT, 0)]"

definition edunic_hw_init_rings :: "edunic_adapter \<Rightarrow> edunic_adapter \<times> drv_act list" where
  "edunic_hw_init_rings a =
     (fold (\<lambda>(r, v). edunic_reg_write r v) (ring_writes a) a, map (\<lambda>(r, v). D_writel r v) (ring_writes a))"

definition edunic_hw_start :: "edunic_adapter \<Rightarrow> edunic_adapter \<times> drv_act list" where
  "edunic_hw_start a =
     (let a = edunic_reg_write EDUNIC_REG_IMS EDUNIC_INT_ALL a in
      case edunic_reg_read EDUNIC_REG_CTRL a of (ctrl, a) \<Rightarrow>
      let ctrl = ctrl OR (EDUNIC_CTRL_TXEN OR EDUNIC_CTRL_RXEN);
          a = edunic_reg_write EDUNIC_REG_CTRL ctrl a;
          a = snd (edunic_reg_read EDUNIC_REG_STATUS a)
      in (a, [D_writel EDUNIC_REG_IMS EDUNIC_INT_ALL, D_readl EDUNIC_REG_CTRL, D_writel EDUNIC_REG_CTRL ctrl,
              D_readl EDUNIC_REG_STATUS, D_aux A_timer_start]))"

definition edunic_hw_stop :: "edunic_adapter \<Rightarrow> edunic_adapter \<times> drv_act list" where
  "edunic_hw_stop a =
     (let a = edunic_reg_write EDUNIC_REG_IMC EDUNIC_INT_ALL a in
      case edunic_reg_read EDUNIC_REG_CTRL a of (ctrl, a) \<Rightarrow>
      let ctrl = ctrl AND NOT (EDUNIC_CTRL_TXEN OR EDUNIC_CTRL_RXEN);
          a = edunic_reg_write EDUNIC_REG_CTRL ctrl a;
          a = snd (edunic_reg_read EDUNIC_REG_STATUS a)
      in (a, [D_writel EDUNIC_REG_IMC EDUNIC_INT_ALL, D_readl EDUNIC_REG_CTRL, D_writel EDUNIC_REG_CTRL ctrl,
              D_readl EDUNIC_REG_STATUS]))"

section \<open>The station address\<close>

definition edunic_hw_get_mac :: "edunic_adapter \<Rightarrow> u8 list" where
  "edunic_hw_get_mac a =
     (let low = fst (edunic_reg_read EDUNIC_REG_MAC_LOW a); high = fst (edunic_reg_read EDUNIC_REG_MAC_HIGH a) in
      [ucast (low AND 0xff), ucast (drop_bit 8 low AND 0xff), ucast (drop_bit 16 low AND 0xff),
       ucast (drop_bit 24 low AND 0xff), ucast (high AND 0xff), ucast (drop_bit 8 high AND 0xff)])"

definition edunic_hw_set_mac :: "u8 list \<Rightarrow> edunic_adapter \<Rightarrow> edunic_adapter \<times> drv_act list" where
  "edunic_hw_set_mac mac a =
     (let low = ucast (mac ! 0) OR push_bit 8 (ucast (mac ! 1)) OR push_bit 16 (ucast (mac ! 2))
                  OR push_bit 24 (ucast (mac ! 3));
          high = ucast (mac ! 4) OR push_bit 8 (ucast (mac ! 5))
      in (edunic_reg_write EDUNIC_REG_MAC_HIGH high (edunic_reg_write EDUNIC_REG_MAC_LOW low a),
          [D_writel EDUNIC_REG_MAC_LOW low, D_writel EDUNIC_REG_MAC_HIGH high]))"

section \<open>The interrupt handler and the poll\<close>

text \<open>\<open>prep\<close> is the answer of \<open>napi_schedule_prep\<close>.\<close>

definition edunic_intr :: "bool \<Rightarrow> edunic_adapter \<Rightarrow> irqreturn \<times> edunic_adapter \<times> drv_act list" where
  "edunic_intr prep a =
     (case edunic_reg_read EDUNIC_REG_ICR a of (icr, a) \<Rightarrow>
      if icr = 0 then (IRQ_NONE, a, [D_readl EDUNIC_REG_ICR])
      else
        let (a, link) = (if icr AND EDUNIC_INT_LSC \<noteq> 0
                         then (a\<lparr>ad_carrier := ad_link_up a\<rparr>, [D_aux (A_carrier (ad_link_up a))]) else (a, []));
            (a, poll) = (if icr AND (EDUNIC_INT_RX OR EDUNIC_INT_TX) \<noteq> 0 \<and> prep
                         then (edunic_reg_write EDUNIC_REG_IMC (EDUNIC_INT_RX OR EDUNIC_INT_TX) a,
                               [D_writel EDUNIC_REG_IMC (EDUNIC_INT_RX OR EDUNIC_INT_TX), D_napi_schedule])
                         else (a, []))
        in (IRQ_HANDLED, a, [D_readl EDUNIC_REG_ICR] @ link @ poll))"

text \<open>\<open>complete\<close> is the answer of \<open>napi_complete_done\<close>.\<close>

definition edunic_poll :: "(nat \<Rightarrow> rx_alloc) \<Rightarrow> bool \<Rightarrow> int \<Rightarrow> edunic_adapter \<Rightarrow>
    (int \<times> edunic_adapter \<times> drv_act list) option" where
  "edunic_poll env complete budget a =
     (case edunic_clean_tx_irq a of None \<Rightarrow> None
      | Some (_, a, tx) \<Rightarrow>
        (case edunic_clean_rx_irq env budget a of None \<Rightarrow> None
         | Some (work_done, a, rx) \<Rightarrow>
           if work_done \<ge> budget then Some (budget, a, tx @ rx)
           else if complete
           then Some (work_done, edunic_reg_write EDUNIC_REG_IMS (EDUNIC_INT_RX OR EDUNIC_INT_TX) a,
                  tx @ rx @ [D_napi_complete work_done, D_writel EDUNIC_REG_IMS (EDUNIC_INT_RX OR EDUNIC_INT_TX)])
           else Some (work_done, a, tx @ rx @ [D_napi_complete work_done])))"

section \<open>Interrupt vectors\<close>

text \<open>
  The environment: the results of \<open>pci_alloc_irq_vectors\<close> and \<open>request_irq\<close>, the vector and
  whether it is MSI.
\<close>

record irq_env =
  ie_vectors :: int
  ie_msi :: bool
  ie_irq :: nat
  ie_request :: int

definition edunic_setup_interrupts :: "irq_env \<Rightarrow> edunic_adapter \<Rightarrow> int \<times> edunic_adapter \<times> drv_act list" where
  "edunic_setup_interrupts e a =
     (if ie_vectors e < 0 then (ie_vectors e, a, [])
      else let a = a\<lparr>ad_msi := ie_msi e, ad_irq := ie_irq e\<rparr> in
        if ie_request e \<noteq> 0 then (ie_request e, a, [D_aux A_irq_vectors, D_aux A_free_irq_vectors])
        else (0, a, [D_aux A_irq_vectors, D_request_irq (ad_irq a)]))"

definition edunic_free_interrupts :: "edunic_adapter \<Rightarrow> drv_act list" where
  "edunic_free_interrupts a = [D_free_irq (ad_irq a), D_aux A_free_irq_vectors]"

section \<open>The emulated DMA engine\<close>

text \<open>
  One turn handles the descriptor at \<open>head\<close>.  \<open>mem n\<close> is the address \<open>kmalloc\<close> gives the \<open>n\<close>-th
  copy, \<open>None\<close> when it fails.  The loop ends when \<open>head\<close> meets the tail that was read before;
  a ring has 256 slots, so 256 turns are enough when both registers are indices of the ring.
\<close>

definition edunic_tx_work_one :: "u64 option \<Rightarrow> nat \<Rightarrow> edunic_adapter \<Rightarrow> (edunic_adapter \<times> drv_act list) option" where
  "edunic_tx_work_one mem head a =
     (case (t_desc (ad_tx a), t_buf (ad_tx a)) of
        (Some desc, Some (q, buf)) \<Rightarrow>
          if length desc \<le> head \<or> length buf \<le> head then None
          else
            let d = desc ! head; b = buf ! head; len = unat (td_length d);
                fin_at = \<lambda>a. let t = ad_tx a in
                  a\<lparr>ad_tx := t\<lparr>t_desc := map_option (\<lambda>ds. ds[head := (ds ! head)\<lparr>td_status := EDUNIC_TXD_STAT_DD\<rparr>]) (t_desc t)\<rparr>\<rparr>
            in if tb_dma b \<noteq> 0 \<and> len \<noteq> 0 then
                 let cpu = D_sync_for_cpu (tb_dma b) (of_nat len); dev = D_sync_for_device (tb_dma b) (of_nat len)
                 in (case mem of
                       None \<Rightarrow> Some (fin_at a, [cpu, dev])
                     | Some m \<Rightarrow>
                         (case tb_skb b of None \<Rightarrow> None
                          | Some s \<Rightarrow>
                            if length (sk_data s) < len then None
                            else map_option (\<lambda>(a, as). (fin_at a, [cpu, D_kmalloc m, dev] @ as @ [D_kfree m]))
                                   (edunic_hw_deliver_rx_frame (take len (sk_data s)) a)))
               else Some (fin_at a, [])
      | _ \<Rightarrow> None)"

fun edunic_tx_work_loop :: "(nat \<Rightarrow> u64 option) \<Rightarrow> nat \<Rightarrow> nat \<Rightarrow> u32 \<Rightarrow> u32 \<Rightarrow> edunic_adapter \<Rightarrow>
    (u32 \<times> bool \<times> edunic_adapter \<times> drv_act list) option" where
  "edunic_tx_work_loop mem 0 n head tail a = (if head = tail then Some (head, n > 0, a, []) else None)"
| "edunic_tx_work_loop mem (Suc fuel) n head tail a =
     (if head = tail then Some (head, n > 0, a, [])
      else case edunic_tx_work_one (mem n) (unat head) a of None \<Rightarrow> None
      | Some (a, as) \<Rightarrow>
          map_option (\<lambda>(h, sent, a', as'). (h, sent, a', as @ as'))
            (edunic_tx_work_loop mem fuel (Suc n) (of_nat (edunic_next (unat head))) tail a))"

definition edunic_hw_tx_worker :: "(nat \<Rightarrow> u64 option) \<Rightarrow> bool \<Rightarrow> edunic_adapter \<Rightarrow>
    (edunic_adapter \<times> drv_act list) option" where
  "edunic_hw_tx_worker mem prep a =
     (case edunic_reg_read EDUNIC_REG_TDH a of (head, a) \<Rightarrow>
      case edunic_reg_read EDUNIC_REG_TDT a of (tail, a) \<Rightarrow>
      (case edunic_tx_work_loop mem EDUNIC_RING_SIZE 0 head tail a of None \<Rightarrow> None
       | Some (head, sent_any, a, as) \<Rightarrow>
         if sent_any then
           let a = edunic_reg_write EDUNIC_REG_TDH head a;
               a = edunic_reg_write EDUNIC_REG_ICS EDUNIC_INT_TX a
           in (case edunic_intr prep a of (_, a, as') \<Rightarrow>
               Some (a, [D_readl EDUNIC_REG_TDH, D_readl EDUNIC_REG_TDT] @ as @
                 [D_writel EDUNIC_REG_TDH head, D_writel EDUNIC_REG_ICS EDUNIC_INT_TX] @ as'))
         else Some (a, [D_readl EDUNIC_REG_TDH, D_readl EDUNIC_REG_TDT] @ as)))"

definition edunic_link_timer_fn :: "bool \<Rightarrow> edunic_adapter \<Rightarrow> edunic_adapter \<times> drv_act list" where
  "edunic_link_timer_fn prep a =
     (let a = a\<lparr>ad_link_up := True\<rparr> in
      case edunic_reg_read EDUNIC_REG_STATUS a of (status, a) \<Rightarrow>
      let a = edunic_reg_write EDUNIC_REG_STATUS (status OR EDUNIC_STATUS_LINKUP) a;
          a = edunic_reg_write EDUNIC_REG_ICS EDUNIC_INT_LSC a
      in case edunic_intr prep a of (_, a, as) \<Rightarrow>
         (a, [D_readl EDUNIC_REG_STATUS, D_writel EDUNIC_REG_STATUS (status OR EDUNIC_STATUS_LINKUP),
              D_writel EDUNIC_REG_ICS EDUNIC_INT_LSC] @ as))"

definition edunic_hw_emulation_init :: "bool \<Rightarrow> edunic_adapter \<Rightarrow> int \<times> edunic_adapter \<times> drv_act list" where
  "edunic_hw_emulation_init wq_ok a =
     (if \<not> wq_ok then (- ENOMEM, a\<lparr>ad_wq := False\<rparr>, [])
      else (0, a\<lparr>ad_wq := True\<rparr>, [D_aux A_workqueue]))"

definition edunic_hw_emulation_uninit :: "edunic_adapter \<Rightarrow> edunic_adapter \<times> drv_act list" where
  "edunic_hw_emulation_uninit a =
     (if ad_wq a then (a\<lparr>ad_wq := False\<rparr>, [D_aux A_timer_cancel, D_aux A_cancel_work, D_aux A_destroy_workqueue])
      else (a, [D_aux A_timer_cancel]))"

end
