(* ===== verification/Edunic_Main.thy ===== *)
theory Edunic_Main
  imports Edunic_Hw
begin

text \<open>
  \<open>linux_nic_lab/driver/nic_main.c\<close> and \<open>nic_pci.c\<close>: the interface going up and down, its MTU
  and address, and the probe and removal of the device with the staircase of error labels.
\<close>

section \<open>The interface\<close>

definition edunic_open :: "irq_env \<Rightarrow> edunic_adapter \<Rightarrow> int \<times> edunic_adapter \<times> drv_act list" where
  "edunic_open e a =
     (case edunic_setup_interrupts e a of (ret, a, as) \<Rightarrow>
      if ret \<noteq> 0 then (ret, a, [D_napi_enable] @ as @ [D_napi_disable])
      else case edunic_hw_start a of (a, start) \<Rightarrow>
        (0, a\<lparr>ad_stopped := False\<rparr>, [D_napi_enable] @ as @ start @ [D_start_queue]))"

definition edunic_stop :: "edunic_adapter \<Rightarrow> int \<times> edunic_adapter \<times> drv_act list" where
  "edunic_stop a =
     (case edunic_hw_stop (a\<lparr>ad_stopped := True\<rparr>) of (a, stop) \<Rightarrow>
      (0, a\<lparr>ad_carrier := False\<rparr>,
       [D_stop_queue] @ stop @ edunic_free_interrupts a @ [D_napi_disable, D_aux (A_carrier False)]))"

definition edunic_change_mtu :: "int \<Rightarrow> edunic_adapter \<Rightarrow> int \<times> edunic_adapter" where
  "edunic_change_mtu new_mtu a = (0, a\<lparr>ad_mtu := new_mtu\<rparr>)"

text \<open>\<open>check\<close> is what \<open>eth_mac_addr\<close> answers to the new address, which it copies when it answers 0.\<close>

definition edunic_set_mac_address :: "(u8 list \<Rightarrow> int) \<Rightarrow> u8 list \<Rightarrow> edunic_adapter \<Rightarrow>
    int \<times> edunic_adapter \<times> drv_act list" where
  "edunic_set_mac_address check addr a =
     (if check addr \<noteq> 0 then (check addr, a, [])
      else case edunic_hw_set_mac addr (a\<lparr>ad_addr := addr\<rparr>) of (a, as) \<Rightarrow> (0, a, as))"

section \<open>Probe\<close>

text \<open>The answers of the kernel to the calls of the probe, and the registers at power-up.\<close>

record edunic_env =
  pe_enable :: int
  pe_regions :: int
  pe_iomap :: bool
  pe_mask64 :: int
  pe_mask32 :: int
  pe_netdev :: bool
  pe_addr :: "u8 list"
  pe_tx_ring :: "u64 option"
  pe_tx_buf :: "u64 option"
  pe_rx_ring :: "u64 option"
  pe_rx_buf :: "u64 option"
  pe_rx_alloc :: "nat \<Rightarrow> rx_alloc"
  pe_wq :: bool
  pe_register :: int
  pe_chip :: chip

definition fresh_adapter :: "chip \<Rightarrow> edunic_adapter" where
  "fresh_adapter c =
     \<lparr>ad_chip = c,
      ad_tx = \<lparr>t_desc = None, t_dma = 0, t_buf = None, t_count = 0, t_next_to_use = 0, t_next_to_clean = 0\<rparr>,
      ad_rx = \<lparr>r_desc = None, r_dma = 0, r_buf = None, r_count = 0, r_next_to_use = 0, r_next_to_clean = 0\<rparr>,
      ad_irq = 0, ad_msi = False,
      ad_stats = \<lparr>tx_packets = 0, tx_bytes = 0, tx_errors = 0, rx_packets = 0, rx_bytes = 0, rx_errors = 0, rx_dropped = 0\<rparr>,
      ad_wq = False, ad_link_up = False, ad_stopped = False, ad_carrier = False, ad_mtu = 1500, ad_addr = []\<rparr>"

definition ed_err_disable_device :: "drv_act list" where
  "ed_err_disable_device = [D_pci_disable]"

definition ed_err_release_regions :: "drv_act list" where
  "ed_err_release_regions = D_release_regions # ed_err_disable_device"

definition ed_err_iounmap :: "drv_act list" where
  "ed_err_iounmap = D_iounmap # ed_err_release_regions"

definition ed_err_free_netdev :: "drv_act list" where
  "ed_err_free_netdev = D_free_netdev # ed_err_iounmap"

definition ed_err_free_tx :: "edunic_adapter \<Rightarrow> drv_act list" where
  "ed_err_free_tx a = snd (edunic_free_tx_resources a) @ ed_err_free_netdev"

definition ed_err_free_rx :: "edunic_adapter \<Rightarrow> drv_act list" where
  "ed_err_free_rx a = (case edunic_free_rx_resources a of (a, as) \<Rightarrow> as @ ed_err_free_tx a)"

definition ed_err_napi_del :: "edunic_adapter \<Rightarrow> drv_act list" where
  "ed_err_napi_del a = (case edunic_hw_emulation_uninit a of (a, as) \<Rightarrow> D_napi_del # as @ ed_err_free_rx a)"

definition EIO :: int where "EIO = 5"

text \<open>The second half of the probe, once the rings exist.\<close>

definition edunic_probe_start :: "edunic_env \<Rightarrow> edunic_adapter \<Rightarrow> (int \<times> edunic_adapter option \<times> drv_act list) option" where
  "edunic_probe_start e a =
     (case edunic_hw_init_rings a of (a, ini) \<Rightarrow>
      (case edunic_alloc_rx_buffers (pe_rx_alloc e) (r_count (ad_rx a) - 1) a of None \<Rightarrow> None
       | Some (posted, a, al) \<Rightarrow>
         if posted = 0 then Some (- ENOMEM, None, ini @ al @ ed_err_free_rx a)
         else case edunic_hw_emulation_init (pe_wq e) a of (ret, a, wq) \<Rightarrow>
           if ret \<noteq> 0 then Some (ret, None, ini @ al @ wq @ ed_err_free_rx a)
           else if pe_register e \<noteq> 0
           then Some (pe_register e, None, ini @ al @ wq @ [D_napi_add] @ ed_err_napi_del a)
           else Some (0, Some a, ini @ al @ wq @ [D_napi_add, D_register_netdev])))"

definition edunic_probe_rings :: "edunic_env \<Rightarrow> edunic_adapter \<Rightarrow> (int \<times> edunic_adapter option \<times> drv_act list) option" where
  "edunic_probe_rings e a =
     (case edunic_setup_tx_resources (pe_tx_ring e) (pe_tx_buf e) a of (ret, a, tx) \<Rightarrow>
      if ret \<noteq> 0 then Some (ret, None, tx @ ed_err_free_netdev)
      else case edunic_setup_rx_resources (pe_rx_ring e) (pe_rx_buf e) a of (ret, a, rx) \<Rightarrow>
      if ret \<noteq> 0 then Some (ret, None, tx @ rx @ ed_err_free_tx a)
      else map_option (\<lambda>(ret, a, st). (ret, a, (tx @ rx) @ st)) (edunic_probe_start e a))"

definition edunic_probe :: "edunic_env \<Rightarrow> (int \<times> edunic_adapter option \<times> drv_act list) option" where
  "edunic_probe e =
     (if pe_enable e \<noteq> 0 then Some (pe_enable e, None, [])
      else let as = [D_pci_enable, D_set_master] in
      if pe_regions e \<noteq> 0 then Some (pe_regions e, None, as @ ed_err_disable_device)
      else let as = as @ [D_request_regions] in
      if \<not> pe_iomap e then Some (- EIO, None, as @ ed_err_release_regions)
      else let as = as @ [D_iomap] in
      if pe_mask64 e \<noteq> 0 \<and> pe_mask32 e \<noteq> 0 then Some (pe_mask32 e, None, as @ ed_err_iounmap)
      else if \<not> pe_netdev e then Some (- ENOMEM, None, as @ ed_err_iounmap)
      else let as = as @ [D_alloc_netdev, D_aux (A_carrier False)]; a = fresh_adapter (pe_chip e) in
      case edunic_hw_reset a of (a, rs) \<Rightarrow>
      case edunic_hw_set_mac (pe_addr e) (a\<lparr>ad_addr := pe_addr e\<rparr>) of (a, mac) \<Rightarrow>
      map_option (\<lambda>(ret, a, st). (ret, a, (as @ rs @ mac) @ st)) (edunic_probe_rings e a))"

section \<open>Removal\<close>

text \<open>\<open>unregister_netdev\<close> calls \<open>edunic_stop\<close> when the interface is up.\<close>

definition edunic_remove :: "bool \<Rightarrow> edunic_adapter \<Rightarrow> drv_act list" where
  "edunic_remove up a =
     (let (a, stop) = (if up then snd (edunic_stop a) else (a, []));
          (a, em) = edunic_hw_emulation_uninit a;
          (a, rx) = edunic_free_rx_resources a;
          (a, tx) = edunic_free_tx_resources a
      in D_unregister_netdev # stop @ [D_napi_del] @ em @ rx @ tx @
         [D_iounmap, D_release_regions, D_free_netdev, D_pci_disable])"

end
