(* ===== verification/Edunic_Tx_Inv.thy ===== *)
theory Edunic_Tx_Inv
  imports Edunic_Main
begin

text \<open>
  The invariant of edunic's transmit ring.  Between \<open>next_to_clean\<close> and the device's head the
  descriptors are done, between the head and \<open>next_to_use\<close> they are the device's; both ranges
  hold a packet each and every other slot is empty.
\<close>

definition tx_slot_ok :: "edunic_tx_desc \<Rightarrow> edunic_tx_buf \<Rightarrow> bool" where
  "tx_slot_ok d b \<longleftrightarrow> (\<exists>s. tb_skb b = Some s \<and> td_length d = ucast (skb_len s) \<and> tb_len b = unat (skb_len s))"

definition tx_dd :: "edunic_tx_desc \<Rightarrow> bool" where
  "tx_dd d \<longleftrightarrow> td_status d AND EDUNIC_TXD_STAT_DD \<noteq> 0"

definition ed_tx_inv :: "edunic_tx_desc list \<Rightarrow> edunic_tx_buf list \<Rightarrow> nat \<Rightarrow> nat \<Rightarrow> nat \<Rightarrow> bool" where
  "ed_tx_inv desc buf c m h \<longleftrightarrow> length desc = 256 \<and> length buf = 256 \<and> ring_in_order 256 c m h \<and>
     (\<forall>i < 256. if i \<in> set (ring_slots 256 c h) then tx_slot_ok (desc ! i) (buf ! i) else tb_skb (buf ! i) = None) \<and>
     (\<forall>i \<in> set (ring_slots 256 c m). tx_dd (desc ! i)) \<and> (\<forall>i \<in> set (ring_slots 256 m h). \<not> tx_dd (desc ! i))"

definition tx_bufs :: "edunic_adapter \<Rightarrow> edunic_tx_buf list" where
  "tx_bufs a = (case t_buf (ad_tx a) of None \<Rightarrow> [] | Some (q, buf) \<Rightarrow> buf)"

definition tdh :: "edunic_adapter \<Rightarrow> nat" where "tdh a = unat (reg EDUNIC_REG_TDH a)"

definition ed_tx_ok :: "edunic_adapter \<Rightarrow> bool" where
  "ed_tx_ok a \<longleftrightarrow> (\<exists>desc q buf. t_desc (ad_tx a) = Some desc \<and> t_buf (ad_tx a) = Some (q, buf) \<and>
     t_count (ad_tx a) = 256 \<and>
     ed_tx_inv desc buf (t_next_to_clean (ad_tx a)) (tdh a) (t_next_to_use (ad_tx a)) \<and>
     reg EDUNIC_REG_TDT a = of_nat (t_next_to_use (ad_tx a)))"

definition ring_skb :: "edunic_tx_buf list \<Rightarrow> nat list \<Rightarrow> sk_buff list" where
  "ring_skb buf js = map (\<lambda>i. the (tb_skb (buf ! i))) js"

definition ring_dma :: "edunic_tx_buf list \<Rightarrow> nat list \<Rightarrow> (dma_dir \<times> u64 \<times> u32) list" where
  "ring_dma buf js = map (\<lambda>i. (DMA_TO_DEVICE, tb_dma (buf ! i), of_nat (tb_len (buf ! i)))) js"

definition tx_all :: "edunic_adapter \<Rightarrow> nat list" where
  "tx_all a = ring_slots 256 (t_next_to_clean (ad_tx a)) (t_next_to_use (ad_tx a))"

definition tx_done_slots :: "edunic_adapter \<Rightarrow> nat list" where
  "tx_done_slots a = ring_slots 256 (t_next_to_clean (ad_tx a)) (tdh a)"

definition tx_posted_slots :: "edunic_adapter \<Rightarrow> nat list" where
  "tx_posted_slots a = ring_slots 256 (tdh a) (t_next_to_use (ad_tx a))"

definition ed_inflight :: "edunic_adapter \<Rightarrow> sk_buff list" where
  "ed_inflight a = ring_skb (tx_bufs a) (tx_all a)"

definition ed_live :: "edunic_adapter \<Rightarrow> (dma_dir \<times> u64 \<times> u32) list" where
  "ed_live a = ring_dma (tx_bufs a) (tx_all a)"

text \<open>The packets the device has not fetched yet.\<close>

definition ed_posted :: "edunic_adapter \<Rightarrow> sk_buff list" where
  "ed_posted a = ring_skb (tx_bufs a) (tx_posted_slots a)"

lemma ring_views_append [simp]:
  "ring_skb buf (is @ js) = ring_skb buf is @ ring_skb buf js" "ring_dma buf (is @ js) = ring_dma buf is @ ring_dma buf js"
  "ring_skb buf [] = []" "ring_dma buf [] = []"
  "ring_skb buf (i # is) = the (tb_skb (buf ! i)) # ring_skb buf is"
  "ring_dma buf (i # is) = (DMA_TO_DEVICE, tb_dma (buf ! i), of_nat (tb_len (buf ! i))) # ring_dma buf is"
  by (simp_all add: ring_skb_def ring_dma_def)

lemma ring_views_update:
  "i \<notin> set js \<Longrightarrow> ring_skb (buf[i := b]) js = ring_skb buf js"
  "i \<notin> set js \<Longrightarrow> ring_dma (buf[i := b]) js = ring_dma buf js"
  unfolding ring_skb_def ring_dma_def
  by (rule map_ring_update, assumption)
     (rule map_ring_update [where f = "\<lambda>b. (DMA_TO_DEVICE, tb_dma b, of_nat (tb_len b))"], assumption)

lemma unat_idx: "i < 256 \<Longrightarrow> unat (of_nat i :: u32) = i"
  by (simp add: unsigned_of_nat take_bit_nat_eq_self)

lemma ring_in_orderD:
  "ring_in_order n c m h \<Longrightarrow> c < n \<and> m < n \<and> h < n \<and> ring_slots n c h = ring_slots n c m @ ring_slots n m h"
  by (simp add: ring_in_order_def)

section \<open>Free slots\<close>

lemma tx_unused_eq:
  assumes "t_count t = 256" "t_next_to_clean t < 256" "t_next_to_use t < 256"
  shows "edunic_tx_unused t = 255 - ring_used 256 (t_next_to_clean t) (t_next_to_use t)"
proof -
  define c h where "c = t_next_to_clean t" and "h = t_next_to_use t"
  have l: "c < 256" "h < 256" using assms by (simp_all add: c_def h_def)
  let ?x = "int c - int h - 1 + 256"
  have "?x smod 256 = ?x mod 256" using l by (cases "?x = 0") (simp_all add: smod_int_alt_def)
  also have "\<dots> = int (255 - ring_used 256 c h)"
  proof (cases "c \<le> h")
    case True
    then have "?x mod 256 = ?x" using l by (intro mod_pos_pos_trivial) simp_all
    with True l show ?thesis by (simp add: ring_used_def of_nat_diff)
  next
    case False
    then have "(?x - 256) mod 256 = ?x - 256" using l by (intro mod_pos_pos_trivial) simp_all
    then have "?x mod 256 = ?x - 256" by (metis minus_mod_self2)
    with False l show ?thesis by (simp add: ring_used_def of_nat_diff)
  qed
  finally have x: "?x smod 256 = int (255 - ring_used 256 c h)" .
  have "edunic_tx_unused t = nat ((?x smod 256) mod 65536)"
    using assms(1) by (simp add: edunic_tx_unused_def c_def h_def)
  also have "\<dots> = 255 - ring_used 256 c h"
    unfolding x by (simp add: mod_pos_pos_trivial)
  finally show ?thesis by (simp add: c_def h_def)
qed

lemma tx_unused_full:
  assumes "t_count t = 256" "t_next_to_clean t < 256" "t_next_to_use t < 256"
  shows "1 \<le> edunic_tx_unused t \<longleftrightarrow> edunic_next (t_next_to_use t) \<noteq> t_next_to_clean t"
  using tx_unused_eq [OF assms] ed_ix.full_iff [OF assms(2,3)] ed_ix.used_le [OF assms(2,3)] by auto

text \<open>Without another CPU in between, the recheck finds what the check found.\<close>

lemma maybe_stop_eq:
  "edunic_maybe_stop_tx n a = (if n \<le> edunic_tx_unused (ad_tx a) then (0, a, [])
     else (- EBUSY, a\<lparr>ad_stopped := True\<rparr>, [D_stop_queue]))"
  by (simp add: edunic_maybe_stop_tx_def stop_recheck_def)

section \<open>Completion\<close>

lemma inv_slot:
  "ed_tx_inv desc buf c m h \<Longrightarrow> i \<in> set (ring_slots 256 c h) \<Longrightarrow> i < 256 \<and> tx_slot_ok (desc ! i) (buf ! i)"
  unfolding ed_tx_inv_def ring_in_order_def by (meson ring_slots_less)

lemma ed_tx_inv_deq:
  assumes inv: "ed_tx_inv desc buf c m h" and ne: "c \<noteq> m"
  shows "ed_tx_inv (desc[c := (desc ! c)\<lparr>td_status := 0\<rparr>]) (buf[c := zero_tx_buf]) (edunic_next c) m h"
proof -
  let ?c = "edunic_next c"
  from inv have o: "ring_in_order 256 c m h" by (simp add: ed_tx_inv_def)
  note d = ed_ix.in_order_deq [OF o ne]
  have n: "c \<notin> set (ring_slots 256 ?c h)" "c \<notin> set (ring_slots 256 ?c m)"
    using d(2,3) distinct_ring_slots [of 256 c h] distinct_ring_slots [of 256 c m] by simp_all
  moreover from ring_in_orderD [OF d(1)] n(1) have "c \<notin> set (ring_slots 256 m h)" by simp
  ultimately have ndd: "\<forall>i \<in> set (ring_slots 256 ?c m). tx_dd (desc[c := (desc ! c)\<lparr>td_status := 0\<rparr>] ! i)"
    "\<forall>i \<in> set (ring_slots 256 m h). \<not> tx_dd (desc[c := (desc ! c)\<lparr>td_status := 0\<rparr>] ! i)"
    using inv d(3) by (simp_all add: ed_tx_inv_def ball_update [where P = tx_dd] ball_update [where P = "\<lambda>d. \<not> tx_dd d"])
  have slot: "if i \<in> set (ring_slots 256 ?c h)
      then tx_slot_ok (desc[c := (desc ! c)\<lparr>td_status := 0\<rparr>] ! i) (buf[c := zero_tx_buf] ! i)
      else tb_skb (buf[c := zero_tx_buf] ! i) = None" if "i < 256" for i
  proof (cases "i = c")
    case True
    then show ?thesis using n(1) inv that by (simp add: ed_tx_inv_def zero_tx_buf_def)
  next
    case False
    then show ?thesis using inv that d(2) by (simp add: ed_tx_inv_def)
  qed
  from ndd slot d(1) inv show ?thesis by (simp add: ed_tx_inv_def)
qed

text \<open>The loop reclaims exactly the descriptors the device has finished, in ring order.\<close>

lemma clean_tx_loop_ok:
  "ed_tx_inv desc buf c m h \<Longrightarrow> \<exists>desc' buf' by' as.
     edunic_clean_tx_loop h desc buf c p b = Some (desc', buf', m, p + ring_used 256 c m, by', as) \<and>
     ed_tx_inv desc' buf' m m h \<and> freed as = ring_skb buf (ring_slots 256 c m) \<and>
     unmapped as = ring_dma buf (ring_slots 256 c m) \<and> mapped as = [] \<and> delivered as = [] \<and>
     (\<forall>js. set js \<inter> set (ring_slots 256 c m) = {} \<longrightarrow>
        ring_skb buf' js = ring_skb buf js \<and> ring_dma buf' js = ring_dma buf js)"
proof (induction h desc buf c p b rule: edunic_clean_tx_loop.induct)
  case (1 h desc buf c p b)
  from 1(2) have o: "ring_in_order 256 c m h" and len: "length desc = 256" "length buf = 256"
    by (simp_all add: ed_tx_inv_def)
  note l = ring_in_orderD [OF o]
  show ?case
  proof (cases "c = m")
    case True
    have stop: "edunic_clean_tx_loop h desc buf c p b = Some (desc, buf, c, p, b, [])"
    proof (cases "c = h")
      case False
      then have "m \<in> set (ring_slots 256 m h)" using ed_ix.in_order_hw(2) [OF o] True by simp
      with 1(2) have "td_status (desc ! c) AND EDUNIC_TXD_STAT_DD = 0" using True by (simp add: ed_tx_inv_def tx_dd_def)
      with False l len show ?thesis by (subst edunic_clean_tx_loop.simps) (simp add: Let_def)
    qed (subst edunic_clean_tx_loop.simps, simp)
    with 1(2) True show ?thesis by simp
  next
    case False
    note d = ed_ix.in_order_deq [OF o False]
    let ?d = "desc[c := (desc ! c)\<lparr>td_status := 0\<rparr>]" and ?b = "buf[c := zero_tx_buf]" and ?c = "edunic_next c"
    have n: "c \<notin> set (ring_slots 256 ?c m)" using d(3) distinct_ring_slots [of 256 c m] by simp
    have ch: "c \<noteq> h" using d(2) by auto
    have dd: "td_status (desc ! c) AND EDUNIC_TXD_STAT_DD \<noteq> 0" using 1(2) d(3) by (simp add: ed_tx_inv_def tx_dd_def)
    obtain s where s: "tb_skb (buf ! c) = Some s" using inv_slot [OF 1(2), of c] d(2) by (auto simp: tx_slot_ok_def)
    have u: "ring_used 256 c m = Suc (ring_used 256 ?c m)" using ed_ix.used_deq l False by simp
    from 1(1) [OF ch _ refl refl dd ed_tx_inv_deq [OF 1(2) False]] len l obtain desc' buf' by' as where
      r: "edunic_clean_tx_loop h ?d ?b ?c (p + 1) (b + of_nat (tb_len (buf ! c))) =
            Some (desc', buf', m, p + 1 + ring_used 256 ?c m, by', as)" "ed_tx_inv desc' buf' m m h"
      "freed as = ring_skb ?b (ring_slots 256 ?c m)" "unmapped as = ring_dma ?b (ring_slots 256 ?c m)"
      "mapped as = []" "delivered as = []"
      and keep: "\<forall>js. set js \<inter> set (ring_slots 256 ?c m) = {} \<longrightarrow>
        ring_skb buf' js = ring_skb ?b js \<and> ring_dma buf' js = ring_dma ?b js" by auto
    have step: "edunic_clean_tx_loop h desc buf c p b = Some (desc', buf', m, p + ring_used 256 c m, by',
        D_dma_unmap DMA_TO_DEVICE (tb_dma (buf ! c)) (of_nat (tb_len (buf ! c))) # D_kfree_skb s # as)"
      using ch dd len l s r(1) u by (subst edunic_clean_tx_loop.simps) (simp add: Let_def)
    have "ring_skb buf' js = ring_skb buf js \<and> ring_dma buf' js = ring_dma buf js"
      if "set js \<inter> set (ring_slots 256 c m) = {}" for js
    proof -
      from that d(3) have "c \<notin> set js" "set js \<inter> set (ring_slots 256 ?c m) = {}" by auto
      with keep show ?thesis by (simp add: ring_views_update)
    qed
    with r step s d(3) n show ?thesis by (simp add: ring_views_update)
  qed
qed

lemma ed_tx_okD:
  assumes "ed_tx_ok a"
  obtains desc q buf where "t_desc (ad_tx a) = Some desc" "t_buf (ad_tx a) = Some (q, buf)" "t_count (ad_tx a) = 256"
    "ed_tx_inv desc buf (t_next_to_clean (ad_tx a)) (tdh a) (t_next_to_use (ad_tx a))"
    "reg EDUNIC_REG_TDT a = of_nat (t_next_to_use (ad_tx a))"
  using assms unfolding ed_tx_ok_def by blast

lemma ed_tx_ok_less:
  assumes "ed_tx_ok a"
  shows "t_next_to_clean (ad_tx a) < 256" "tdh a < 256" "t_next_to_use (ad_tx a) < 256" "t_count (ad_tx a) = 256"
    "ring_in_order 256 (t_next_to_clean (ad_tx a)) (tdh a) (t_next_to_use (ad_tx a))"
  using assms by (auto simp: ed_tx_ok_def ed_tx_inv_def ring_in_order_def)

lemma tdh_upds [simp]:
  "tdh (a\<lparr>ad_tx := t\<rparr>) = tdh a" "tdh (a\<lparr>ad_rx := x\<rparr>) = tdh a" "tdh (a\<lparr>ad_stats := s\<rparr>) = tdh a"
  "tdh (a\<lparr>ad_stopped := b\<rparr>) = tdh a" "tdh (a\<lparr>ad_carrier := b\<rparr>) = tdh a"
  by (simp_all add: tdh_def)

lemma tx_views_upds [simp]:
  "ed_tx_ok (a\<lparr>ad_rx := x\<rparr>) = ed_tx_ok a" "ed_tx_ok (a\<lparr>ad_stats := s\<rparr>) = ed_tx_ok a"
  "ed_tx_ok (a\<lparr>ad_stopped := b\<rparr>) = ed_tx_ok a" "ed_tx_ok (a\<lparr>ad_carrier := b\<rparr>) = ed_tx_ok a"
  "ed_inflight (a\<lparr>ad_rx := x\<rparr>) = ed_inflight a" "ed_inflight (a\<lparr>ad_stats := s\<rparr>) = ed_inflight a"
  "ed_inflight (a\<lparr>ad_stopped := b\<rparr>) = ed_inflight a" "ed_inflight (a\<lparr>ad_carrier := b\<rparr>) = ed_inflight a"
  "ed_live (a\<lparr>ad_rx := x\<rparr>) = ed_live a" "ed_live (a\<lparr>ad_stats := s\<rparr>) = ed_live a"
  "ed_live (a\<lparr>ad_stopped := b\<rparr>) = ed_live a" "ed_live (a\<lparr>ad_carrier := b\<rparr>) = ed_live a"
  "ed_posted (a\<lparr>ad_rx := x\<rparr>) = ed_posted a" "ed_posted (a\<lparr>ad_stats := s\<rparr>) = ed_posted a"
  "ed_posted (a\<lparr>ad_stopped := b\<rparr>) = ed_posted a" "ed_posted (a\<lparr>ad_carrier := b\<rparr>) = ed_posted a"
  by (simp_all add: ed_tx_ok_def ed_inflight_def ed_live_def ed_posted_def tx_bufs_def tx_all_def tx_posted_slots_def)

lemma tx_inflight_split:
  "ed_tx_ok a \<Longrightarrow> ed_inflight a = ring_skb (tx_bufs a) (tx_done_slots a) @ ed_posted a"
  using ring_in_orderD [OF ed_tx_ok_less(5)]
  by (simp add: ed_inflight_def ed_posted_def tx_all_def tx_done_slots_def tx_posted_slots_def)

text \<open>
  \<open>edunic_clean_tx_irq\<close> reclaims every finished packet; when it reclaimed one, the queue runs.
\<close>

lemma clean_tx_ok:
  assumes ok: "ed_tx_ok a"
  obtains a' as t s where "edunic_clean_tx_irq a = Some (length (tx_done_slots a), a', as)"
    "a' = a\<lparr>ad_tx := t, ad_stats := s, ad_stopped := (ad_stopped a \<and> tx_done_slots a = [])\<rparr>"
    "ed_tx_ok a'" "freed as = ring_skb (tx_bufs a) (tx_done_slots a)"
    "unmapped as = ring_dma (tx_bufs a) (tx_done_slots a)" "mapped as = []" "delivered as = []"
    "ed_inflight a' = ed_posted a" "ed_posted a' = ed_posted a" "ed_live a = unmapped as @ ed_live a'"
    "rx_dropped s = rx_dropped (ad_stats a)" "t_next_to_clean t = tdh a" "t_next_to_use t = t_next_to_use (ad_tx a)"
proof -
  from ok obtain desc q buf where t: "t_desc (ad_tx a) = Some desc" "t_buf (ad_tx a) = Some (q, buf)"
    "t_count (ad_tx a) = 256" and inv: "ed_tx_inv desc buf (t_next_to_clean (ad_tx a)) (tdh a) (t_next_to_use (ad_tx a))"
    and reg: "reg EDUNIC_REG_TDT a = of_nat (t_next_to_use (ad_tx a))" by (rule ed_tx_okD)
  let ?c = "t_next_to_clean (ad_tx a)" and ?m = "tdh a" and ?h = "t_next_to_use (ad_tx a)"
  note l = ed_tx_ok_less [OF ok]
  note o = ring_in_orderD [OF l(5)]
  from clean_tx_loop_ok [OF inv, of 0 0] obtain desc' buf' by' as where
    loop: "edunic_clean_tx_loop ?h desc buf ?c 0 0 = Some (desc', buf', ?m, ring_used 256 ?c ?m, by', as)"
    and inv': "ed_tx_inv desc' buf' ?m ?m ?h" and as: "freed as = ring_skb buf (ring_slots 256 ?c ?m)"
      "unmapped as = ring_dma buf (ring_slots 256 ?c ?m)" "mapped as = []" "delivered as = []"
    and keep: "\<forall>js. set js \<inter> set (ring_slots 256 ?c ?m) = {} \<longrightarrow>
        ring_skb buf' js = ring_skb buf js \<and> ring_dma buf' js = ring_dma buf js" by auto
  have dis: "set (ring_slots 256 ?m ?h) \<inter> set (ring_slots 256 ?c ?m) = {}"
    using distinct_ring_slots [of 256 ?c ?h] o by auto
  define t' where "t' = (ad_tx a)\<lparr>t_desc := Some desc', t_buf := Some (q, buf'), t_next_to_clean := ?m\<rparr>"
  define s' where "s' = (if ?c = ?m then ad_stats a
    else (ad_stats a)\<lparr>tx_packets := tx_packets (ad_stats a) + of_nat (ring_used 256 ?c ?m),
                      tx_bytes := tx_bytes (ad_stats a) + ucast by'\<rparr>)"
  define wake where "wake = (if ad_stopped a \<and> ?c \<noteq> ?m then [D_wake_queue] else [])"
  define a' where "a' = a\<lparr>ad_tx := t', ad_stats := s', ad_stopped := (ad_stopped a \<and> tx_done_slots a = [])\<rparr>"
  have nil: "tx_done_slots a = [] \<longleftrightarrow> ?c = ?m" "ring_used 256 ?c ?m = 0 \<longleftrightarrow> ?c = ?m"
    using ed_ix.slots_deq [of ?c ?m] ring_used_0_iff [of ?c 256 ?m] o by (auto simp: tx_done_slots_def)
  have room: "1 \<le> edunic_tx_unused t'" if "?c \<noteq> ?m"
  proof -
    have "ring_used 256 ?c ?h = ring_used 256 ?c ?m + ring_used 256 ?m ?h" by (rule ring_in_order_used [OF l(5)])
    moreover have "ring_used 256 ?c ?m \<noteq> 0" using nil that by simp
    moreover have "ring_used 256 ?c ?h \<le> 255" using ed_ix.used_le o by simp
    ultimately show ?thesis using tx_unused_eq [of t'] t(3) o by (simp add: t'_def)
  qed
  have "edunic_clean_tx_irq a = Some (ring_used 256 ?c ?m, a', as @ wake)"
  proof (cases "?c = ?m")
    case True
    with loop t nil show ?thesis
      by (simp add: edunic_clean_tx_irq_def Let_def a'_def t'_def s'_def wake_def)
  next
    case False
    with loop t nil room show ?thesis
      by (simp add: edunic_clean_tx_irq_def Let_def a'_def t'_def [symmetric] s'_def wake_def EDUNIC_TX_DESC_PER_PKT_def)
  qed
  moreover have "length (tx_done_slots a) = ring_used 256 ?c ?m" using o by (simp add: tx_done_slots_def)
  moreover have "ed_tx_ok a'" using inv' reg t by (simp add: ed_tx_ok_def a'_def t'_def)
  moreover have "ed_inflight a' = ed_posted a" "ed_posted a' = ed_posted a"
    using keep dis t by (simp_all add: ed_inflight_def ed_posted_def a'_def t'_def tx_bufs_def tx_all_def tx_posted_slots_def)
  moreover have "ed_live a = unmapped (as @ wake) @ ed_live a'"
    using keep dis t o as by (simp add: ed_live_def a'_def t'_def tx_bufs_def tx_all_def wake_def)
  ultimately show ?thesis using as t
    by (intro that [where t = t' and s = s' and a' = a' and as = "as @ wake"])
       (simp_all add: a'_def [symmetric] tx_done_slots_def tx_bufs_def wake_def s'_def t'_def, simp_all add: a'_def t'_def tx_done_slots_def s'_def)
qed

end
