(* ===== verification/Edunic_Xmit.thy ===== *)
theory Edunic_Xmit
  imports Edunic_Tx_Inv
begin

text \<open>
  What \<open>edunic_start_xmit\<close> and the emulated engine do to a good transmit ring, and the
  interpretation of the transmit contract for edunic.
\<close>

definition tx_full :: "edunic_adapter \<Rightarrow> bool" where
  "tx_full a \<longleftrightarrow> edunic_next (t_next_to_use (ad_tx a)) = t_next_to_clean (ad_tx a)"

lemma tx_full_upds [simp]:
  "tx_full (a\<lparr>ad_stopped := b\<rparr>) = tx_full a" "tx_full (a\<lparr>ad_rx := x\<rparr>) = tx_full a"
  "tx_full (a\<lparr>ad_stats := s\<rparr>) = tx_full a" "tx_full (a\<lparr>ad_carrier := b\<rparr>) = tx_full a"
  "tx_full (edunic_reg_write r v a) = tx_full a"
  by (simp_all add: tx_full_def)

lemma tx_full_unused: "ed_tx_ok a \<Longrightarrow> Suc 0 \<le> edunic_tx_unused (ad_tx a) \<longleftrightarrow> \<not> tx_full a"
  using tx_unused_full [of "ad_tx a"] ed_tx_ok_less [of a] by (simp add: tx_full_def)

lemma maybe_stop_full:
  "ed_tx_ok a \<Longrightarrow> edunic_maybe_stop_tx EDUNIC_TX_DESC_PER_PKT a =
     (if tx_full a then (- EBUSY, a\<lparr>ad_stopped := True\<rparr>, [D_stop_queue]) else (0, a, []))"
  using tx_full_unused [of a] by (simp add: maybe_stop_eq EDUNIC_TX_DESC_PER_PKT_def)

lemma tx_full_inflight: "ed_tx_ok a \<Longrightarrow> tx_full a \<longleftrightarrow> length (ed_inflight a) = 255"
  using ed_ix.full_iff [of "t_next_to_clean (ad_tx a)" "t_next_to_use (ad_tx a)"] ed_tx_ok_less [of a]
  by (simp add: tx_full_def ed_inflight_def ring_skb_def tx_all_def)

lemma ed_tx_inv_put:
  assumes inv: "ed_tx_inv desc buf c m h" and nf: "edunic_next h \<noteq> c" and s: "tx_slot_ok d b" and nd: "\<not> tx_dd d"
  shows "ed_tx_inv (desc[h := d]) (buf[h := b]) c m (edunic_next h)"
proof -
  from inv have o: "ring_in_order 256 c m h" and len: "length desc = 256" "length buf = 256" by (simp_all add: ed_tx_inv_def)
  note e = ed_ix.in_order_enq [OF o nf]
  note l = ring_in_orderD [OF o]
  have n: "h \<notin> set (ring_slots 256 c h)" "h \<notin> set (ring_slots 256 m h)" by (simp_all add: head_notin_slots)
  with l have n': "h \<notin> set (ring_slots 256 c m)" by simp
  have slot: "if i \<in> set (ring_slots 256 c (edunic_next h)) then tx_slot_ok (desc[h := d] ! i) (buf[h := b] ! i)
      else tb_skb (buf[h := b] ! i) = None" if "i < 256" for i
    using inv that s len l unfolding e(2) by (cases "i = h") (simp_all add: ed_tx_inv_def)
  have "\<forall>i \<in> set (ring_slots 256 c m). tx_dd (desc[h := d] ! i)"
    using inv n' by (simp add: ed_tx_inv_def ball_update [where P = tx_dd])
  moreover have "\<forall>i \<in> set (ring_slots 256 m (edunic_next h)). \<not> tx_dd (desc[h := d] ! i)"
    using inv n(2) nd len l by (simp add: ed_tx_inv_def e(3) ball_Un ball_update [where P = "\<lambda>d. \<not> tx_dd d"])
  ultimately show ?thesis using slot e(1) len by (simp add: ed_tx_inv_def)
qed

definition put_desc :: "u64 \<Rightarrow> sk_buff \<Rightarrow> edunic_tx_desc \<Rightarrow> edunic_tx_desc" where
  "put_desc addr b d = d\<lparr>td_buffer_addr := addr, td_length := ucast (skb_len b),
     td_cmd := EDUNIC_TXD_CMD_EOP OR EDUNIC_TXD_CMD_RS, td_status := 0\<rparr>"

definition put_buf :: "u64 \<Rightarrow> sk_buff \<Rightarrow> edunic_tx_buf" where
  "put_buf addr b = \<lparr>tb_skb = Some b, tb_dma = addr, tb_len = unat (skb_len b)\<rparr>"

lemma put_slot: "tx_slot_ok (put_desc addr b d) (put_buf addr b)" "\<not> tx_dd (put_desc addr b d)"
  by (simp_all add: tx_slot_ok_def put_desc_def put_buf_def tx_dd_def)

lemma xmit_full: "ed_tx_ok a \<Longrightarrow> tx_full a \<Longrightarrow>
   edunic_start_xmit e b a = Some (NETDEV_TX_BUSY, a\<lparr>ad_stopped := True\<rparr>, [D_stop_queue])"
  by (simp add: edunic_start_xmit_def maybe_stop_full EBUSY_def)

lemma xmit_error: "ed_tx_ok a \<Longrightarrow> \<not> tx_full a \<Longrightarrow> edunic_start_xmit (addr, True) b a =
   Some (NETDEV_TX_OK, a\<lparr>ad_stats := (ad_stats a)\<lparr>tx_errors := tx_errors (ad_stats a) + 1\<rparr>\<rparr>, [D_kfree_skb b])"
  by (simp add: edunic_start_xmit_def maybe_stop_full)

lemma xmit_put:
  assumes ok: "ed_tx_ok a" and nf: "\<not> tx_full a"
  obtains a' t as where "edunic_start_xmit (addr, False) b a = Some (NETDEV_TX_OK, a', as)"
    "a' = (edunic_reg_write EDUNIC_REG_TDT (of_nat (t_next_to_use t)) (a\<lparr>ad_tx := t\<rparr>))\<lparr>ad_stopped := (ad_stopped a \<or> tx_full a')\<rparr>"
    "ed_tx_ok a'" "ed_inflight a' = ed_inflight a @ [b]" "ed_posted a' = ed_posted a @ [b]"
    "ed_live a' = ed_live a @ mapped as" "unmapped as = []" "freed as = []" "delivered as = []"
    "mapped as = [(DMA_TO_DEVICE, addr, skb_len b)]"
proof -
  from ok obtain desc q buf where t: "t_desc (ad_tx a) = Some desc" "t_buf (ad_tx a) = Some (q, buf)"
    "t_count (ad_tx a) = 256" and inv: "ed_tx_inv desc buf (t_next_to_clean (ad_tx a)) (tdh a) (t_next_to_use (ad_tx a))"
    and reg: "reg EDUNIC_REG_TDT a = of_nat (t_next_to_use (ad_tx a))" by (rule ed_tx_okD)
  let ?c = "t_next_to_clean (ad_tx a)" and ?m = "tdh a" and ?h = "t_next_to_use (ad_tx a)"
  note l = ed_tx_ok_less [OF ok]
  have len: "length desc = 256" "length buf = 256" using inv by (simp_all add: ed_tx_inv_def)
  have nx: "edunic_next ?h \<noteq> ?c" using nf by (simp add: tx_full_def)
  note e = ed_ix.in_order_enq [OF l(5) nx]
  let ?desc = "desc[?h := put_desc addr b (desc ! ?h)]" and ?buf = "buf[?h := put_buf addr b]"
  define t' where "t' = (ad_tx a)\<lparr>t_buf := Some (q, ?buf), t_desc := Some ?desc, t_next_to_use := edunic_next ?h\<rparr>"
  define a1 where "a1 = edunic_reg_write EDUNIC_REG_TDT (of_nat (edunic_next ?h)) (a\<lparr>ad_tx := t'\<rparr>)"
  have m1: "tdh a1 = ?m" by (simp add: a1_def tdh_def reg_write_other edunic_regs)
  have inv': "ed_tx_inv ?desc ?buf ?c ?m (edunic_next ?h)" by (rule ed_tx_inv_put [OF inv nx put_slot])
  have ok1: "ed_tx_ok a1"
    unfolding ed_tx_ok_def m1 using inv' t by (simp add: a1_def t'_def reg_write_same edunic_regs)
  define a' where "a' = a1\<lparr>ad_stopped := (ad_stopped a \<or> tx_full a1)\<rparr>"
  define as where "as = [D_dma_map DMA_TO_DEVICE addr (skb_len b), D_writel EDUNIC_REG_TDT (of_nat (edunic_next ?h))]
     @ edunic_hw_kick_tx @ (if tx_full a1 then [D_stop_queue] else [])"
  have x: "edunic_start_xmit (addr, False) b a = Some (NETDEV_TX_OK, a', as)"
  proof (cases "tx_full a1")
    case True
    with ok nf t l len maybe_stop_full [OF ok1] show ?thesis
      by (simp add: edunic_start_xmit_def maybe_stop_full [OF ok] Let_def a'_def as_def put_desc_def [symmetric]
          put_buf_def [symmetric] t'_def [symmetric] a1_def [symmetric])
  next
    case False
    with ok nf t l len maybe_stop_full [OF ok1] show ?thesis
      by (simp add: edunic_start_xmit_def maybe_stop_full [OF ok] Let_def a'_def as_def put_desc_def [symmetric]
          put_buf_def [symmetric] t'_def [symmetric] a1_def [symmetric]) (simp add: a1_def t'_def)
  qed
  have n: "?h \<notin> set (ring_slots 256 ?c ?h)" "?h \<notin> set (ring_slots 256 ?m ?h)" by (simp_all add: head_notin_slots)
  have f: "ad_tx a' = t'" "tdh a' = ?m" using m1 by (simp_all add: a'_def a1_def)
  have views: "tx_bufs a' = ?buf" "tx_bufs a = buf" "tx_all a' = tx_all a @ [?h]" "tx_posted_slots a' = tx_posted_slots a @ [?h]"
    using t e(2,3) f by (simp_all add: t'_def tx_bufs_def tx_all_def tx_posted_slots_def)
  have v: "ed_inflight a' = ed_inflight a @ [b]" "ed_posted a' = ed_posted a @ [b]" "ed_live a' = ed_live a @ mapped as"
    using n len l(3) unfolding ed_inflight_def ed_posted_def ed_live_def views
    by (simp_all add: ring_views_update tx_all_def tx_posted_slots_def put_buf_def as_def edunic_hw_kick_tx_def)
  have e: "a' = (edunic_reg_write EDUNIC_REG_TDT (of_nat (t_next_to_use t')) (a\<lparr>ad_tx := t'\<rparr>))\<lparr>ad_stopped := (ad_stopped a \<or> tx_full a')\<rparr>"
    by (simp add: a'_def a1_def t'_def)
  have "ed_tx_ok a'" using ok1 by (simp add: a'_def)
  from that [OF x e this v] show ?thesis by (simp add: as_def edunic_hw_kick_tx_def)
qed

end
