(* ===== verification/Edunic_Rx_Inv.thy ===== *)
theory Edunic_Rx_Inv
  imports Edunic_Tx_Inv
begin

text \<open>
  The invariant of edunic's receive ring: between \<open>next_to_clean\<close> and the device's head are
  received frames, between the head and \<open>next_to_use\<close> empty buffers the device may fill, and
  the remaining slots have no buffer.  Harvest, refill and delivery are described over it.
\<close>

definition rx_slot_ok :: "edunic_rx_buf \<Rightarrow> bool" where
  "rx_slot_ok b \<longleftrightarrow> (\<exists>n data. rb_skb b = Some (n, data) \<and> length data = 2048 \<and> rb_len b = 2048)"

definition rx_dd :: "edunic_rx_desc \<Rightarrow> bool" where
  "rx_dd d \<longleftrightarrow> rd_status d AND EDUNIC_RXD_STAT_DD \<noteq> 0"

definition rx_bad :: "edunic_rx_desc \<Rightarrow> bool" where
  "rx_bad d \<longleftrightarrow> rd_errors d AND EDUNIC_RXD_ERR_RXE \<noteq> 0"

definition ed_rx_inv :: "edunic_rx_desc list \<Rightarrow> edunic_rx_buf list \<Rightarrow> nat \<Rightarrow> nat \<Rightarrow> nat \<Rightarrow> bool" where
  "ed_rx_inv desc buf c m h \<longleftrightarrow> length desc = 256 \<and> length buf = 256 \<and> ring_in_order 256 c m h \<and>
     (\<forall>i < 256. if i \<in> set (ring_slots 256 c h) then rx_slot_ok (buf ! i) else rb_skb (buf ! i) = None) \<and>
     (\<forall>i < 256. if i \<in> set (ring_slots 256 c m) then rx_dd (desc ! i) \<and> unat (rd_length (desc ! i)) \<le> 2048
                else \<not> rx_dd (desc ! i))"

definition rx_frame_of :: "edunic_rx_desc \<Rightarrow> edunic_rx_buf \<Rightarrow> u8 list list" where
  "rx_frame_of d b = (if rx_bad d then [] else [take (unat (rd_length d)) (snd (the (rb_skb b)))])"

definition rx_frames :: "edunic_rx_desc list \<Rightarrow> edunic_rx_buf list \<Rightarrow> nat list \<Rightarrow> u8 list list" where
  "rx_frames desc buf js = concat (map (\<lambda>i. rx_frame_of (desc ! i) (buf ! i)) js)"

lemma rx_frames_simps [simp]:
  "rx_frames desc buf [] = []" "rx_frames desc buf (i # js) = rx_frame_of (desc ! i) (buf ! i) @ rx_frames desc buf js"
  "rx_frames desc buf (is @ js) = rx_frames desc buf is @ rx_frames desc buf js"
  by (simp_all add: rx_frames_def)

lemma rx_frames_update: "i \<notin> set js \<Longrightarrow> rx_frames (desc[i := d]) (buf[i := b]) js = rx_frames desc buf js"
  by (induction js) auto

lemma ed_rx_inv_orderD: "ed_rx_inv desc buf c m h \<Longrightarrow> ring_in_order 256 c m h \<and> length desc = 256 \<and> length buf = 256"
  by (simp add: ed_rx_inv_def)

lemma ed_rx_inv_slot: "ed_rx_inv desc buf c m h \<Longrightarrow> i \<in> set (ring_slots 256 c h) \<Longrightarrow> rx_slot_ok (buf ! i)"
  unfolding ed_rx_inv_def ring_in_order_def by (meson ring_slots_less)

lemma ed_rx_inv_dd:
  "ed_rx_inv desc buf c m h \<Longrightarrow> i \<in> set (ring_slots 256 c m) \<Longrightarrow> rx_dd (desc ! i) \<and> unat (rd_length (desc ! i)) \<le> 2048"
  unfolding ed_rx_inv_def ring_in_order_def by (meson ring_slots_less)

lemma ed_rx_inv_at: "ed_rx_inv desc buf c m h \<Longrightarrow> rx_dd (desc ! c) \<longleftrightarrow> c \<noteq> m"
  using ed_ix.slots_deq [of c m] unfolding ed_rx_inv_def ring_in_order_def
  by (metis list.set_intros(1) list.distinct(1) list.set(1) empty_iff ring_slots_self)

section \<open>Harvest\<close>

lemma ed_rx_inv_deq:
  assumes inv: "ed_rx_inv desc buf c m h" and ne: "c \<noteq> m" and d: "\<not> rx_dd d" and b: "rb_skb b = None"
  shows "ed_rx_inv (desc[c := d]) (buf[c := b]) (edunic_next c) m h"
proof -
  let ?c = "edunic_next c"
  from inv have o: "ring_in_order 256 c m h" and len: "length desc = 256" "length buf = 256" by (auto simp: ed_rx_inv_def)
  note q = ed_ix.in_order_deq [OF o ne]
  have n: "c \<notin> set (ring_slots 256 ?c h)" "c \<notin> set (ring_slots 256 ?c m)"
    using q(2,3) distinct_ring_slots [of 256 c h] distinct_ring_slots [of 256 c m] by simp_all
  have "if i \<in> set (ring_slots 256 ?c h) then rx_slot_ok (buf[c := b] ! i) else rb_skb (buf[c := b] ! i) = None" if "i < 256" for i
    using n(1) inv that b len q(2) by (cases "i = c") (simp_all add: ed_rx_inv_def)
  moreover have "if i \<in> set (ring_slots 256 ?c m) then rx_dd (desc[c := d] ! i) \<and> unat (rd_length (desc[c := d] ! i)) \<le> 2048
      else \<not> rx_dd (desc[c := d] ! i)" if "i < 256" for i
    using n(2) inv that d len q(3) by (cases "i = c") (simp_all add: ed_rx_inv_def)
  ultimately show ?thesis using q(1) len by (simp add: ed_rx_inv_def)
qed

lemma clean_rx_loop_ok:
  "ed_rx_inv desc buf c m h \<Longrightarrow> k = min n (ring_used 256 c m) \<Longrightarrow> \<exists>desc' buf' c' s' as.
     edunic_clean_rx_loop n desc buf c w s = Some (desc', buf', c', w + k, s', as) \<and>
     ed_rx_inv desc' buf' c' m h \<and> ring_used 256 c m = k + ring_used 256 c' m \<and>
     ring_used 256 c h = k + ring_used 256 c' h \<and>
     rx_frames desc buf (ring_slots 256 c m) = delivered as @ rx_frames desc' buf' (ring_slots 256 c' m) \<and>
     rx_packets s' = rx_packets s + of_nat (length (delivered as)) \<and> rx_dropped s' = rx_dropped s \<and>
     freed as = [] \<and> mapped as = []"
proof (induction n arbitrary: desc buf c w s k)
  case 0
  then show ?case by simp
next
  case (Suc n)
  note f = ed_rx_inv_orderD [OF Suc.prems(1)]
  note l = ring_in_orderD [OF conjunct1 [OF f]]
  show ?case
  proof (cases "c = m")
    case True
    then have "edunic_clean_rx_loop (Suc n) desc buf c w s = Some (desc, buf, c, w, s, [])"
      using f l ed_rx_inv_at [OF Suc.prems(1)] by (simp add: Let_def rx_dd_def)
    with Suc.prems True show ?thesis by simp
  next
    case False
    let ?d = "(desc ! c)\<lparr>rd_status := 0, rd_errors := 0\<rparr>" and ?b = "(buf ! c)\<lparr>rb_skb := None, rb_dma := 0\<rparr>"
    let ?desc = "desc[c := ?d]" and ?buf = "buf[c := ?b]" and ?c = "edunic_next c"
    note q = ed_ix.in_order_deq [OF conjunct1 [OF f] False]
    have ch: "c \<noteq> h" using q(2) by auto
    have u: "ring_used 256 c m = Suc (ring_used 256 ?c m)" "ring_used 256 c h = Suc (ring_used 256 ?c h)"
      using ed_ix.used_deq [of c m] ed_ix.used_deq [of c h] l False ch by simp_all
    obtain k' where k: "k = Suc k'" "k' = min n (ring_used 256 ?c m)" using Suc.prems(2) u(1) by simp
    have nq: "c \<notin> set (ring_slots 256 ?c m)" using q(3) distinct_ring_slots [of 256 c m] by simp
    obtain i data where b: "rb_skb (buf ! c) = Some (i, data)" "length data = 2048"
      using ed_rx_inv_slot [OF Suc.prems(1), of c] q(2) by (auto simp: rx_slot_ok_def)
    have dd: "rd_status (desc ! c) AND EDUNIC_RXD_STAT_DD \<noteq> 0" "unat (rd_length (desc ! c)) \<le> 2048"
      using ed_rx_inv_dd [OF Suc.prems(1), of c] q(3) by (simp_all add: rx_dd_def)
    have inv: "ed_rx_inv ?desc ?buf ?c m h" by (rule ed_rx_inv_deq [OF Suc.prems(1) False]) (simp_all add: rx_dd_def)
    define s1 where "s1 = (if rx_bad (desc ! c) then s\<lparr>rx_errors := rx_errors s + 1\<rparr>
      else s\<lparr>rx_packets := rx_packets s + 1, rx_bytes := rx_bytes s + of_nat (unat (rd_length (desc ! c)))\<rparr>)"
    from Suc.IH [OF inv k(2), of "Suc w" s1] obtain desc' buf' c' s' as where
      r: "edunic_clean_rx_loop n ?desc ?buf ?c (Suc w) s1 = Some (desc', buf', c', Suc w + k', s', as)"
      "ed_rx_inv desc' buf' c' m h" "ring_used 256 ?c m = k' + ring_used 256 c' m" "ring_used 256 ?c h = k' + ring_used 256 c' h"
      and fr: "rx_frames ?desc ?buf (ring_slots 256 ?c m) = delivered as @ rx_frames desc' buf' (ring_slots 256 c' m)"
      and st: "rx_packets s' = rx_packets s1 + of_nat (length (delivered as))" "rx_dropped s' = rx_dropped s1"
      "freed as = []" "mapped as = []" by auto
    define e where "e = D_dma_unmap DMA_FROM_DEVICE (rb_dma (buf ! c)) (of_nat (rb_len (buf ! c)))
      # (if rx_bad (desc ! c) then [D_free_skb i]
         else [D_gro_receive i (take (unat (rd_length (desc ! c))) data) (rd_status (desc ! c) AND EDUNIC_RXD_STAT_CSUM_VALID \<noteq> 0)])"
    have step: "edunic_clean_rx_loop (Suc n) desc buf c w s = Some (desc', buf', c', w + k, s', e @ as)"
      using f l dd b r(1) k by (cases "rx_bad (desc ! c)") (simp_all add: Let_def rx_bad_def e_def s1_def)
    have e: "delivered e = rx_frame_of (desc ! c) (buf ! c)" "freed e = []" "mapped e = []"
      "rx_packets s1 = rx_packets s + of_nat (length (delivered e))" "rx_dropped s1 = rx_dropped s"
      using b by (simp_all add: e_def rx_frame_of_def s1_def)
    have "rx_frames desc buf (ring_slots 256 c m) = delivered (e @ as) @ rx_frames desc' buf' (ring_slots 256 c' m)"
      unfolding q(3) using trans [OF rx_frames_update [OF nq, symmetric] fr] e(1) by simp
    moreover have "rx_packets s' = rx_packets s + of_nat (length (delivered (e @ as)))"
      unfolding st(1) e(4) by simp
    moreover have "rx_dropped s' = rx_dropped s" "freed (e @ as) = []" "mapped (e @ as) = []"
      using st e by simp_all
    moreover have "ring_used 256 c m = k + ring_used 256 c' m" "ring_used 256 c h = k + ring_used 256 c' h"
      unfolding u k(1) r(3,4) by simp_all
    ultimately show ?thesis using step r(2) by blast
  qed
qed

section \<open>Refill\<close>

lemma ed_rx_inv_put:
  assumes inv: "ed_rx_inv desc buf c m h" and nf: "edunic_next h \<noteq> c" and d: "\<not> rx_dd d" and b: "rx_slot_ok b"
  shows "ed_rx_inv (desc[h := d]) (buf[h := b]) c m (edunic_next h)"
proof -
  from inv have o: "ring_in_order 256 c m h" and len: "length desc = 256" "length buf = 256" by (auto simp: ed_rx_inv_def)
  note e = ed_ix.in_order_enq [OF o nf]
  note l = ring_in_orderD [OF o]
  have n: "h \<notin> set (ring_slots 256 c h)" by (simp add: head_notin_slots)
  with l have n': "h \<notin> set (ring_slots 256 c m)" by simp
  have "if i \<in> set (ring_slots 256 c (edunic_next h)) then rx_slot_ok (buf[h := b] ! i) else rb_skb (buf[h := b] ! i) = None"
    if "i < 256" for i
    using inv that b len l unfolding e(2) by (cases "i = h") (simp_all add: ed_rx_inv_def)
  moreover have "if i \<in> set (ring_slots 256 c m) then rx_dd (desc[h := d] ! i) \<and> unat (rd_length (desc[h := d] ! i)) \<le> 2048
      else \<not> rx_dd (desc[h := d] ! i)" if "i < 256" for i
    using n' inv that d len by (cases "i = h") (simp_all add: ed_rx_inv_def)
  ultimately show ?thesis using e(1) len by (simp add: ed_rx_inv_def)
qed

fun posted_ans :: "rx_alloc \<Rightarrow> bool" where
  "posted_ans (Posted n f d) = True"
| "posted_ans _ = False"

text \<open>The refill posts buffers up to its count or the first failure, and only where there is room.\<close>

lemma alloc_rx_loop_ok:
  "ed_rx_inv desc buf c m h \<Longrightarrow> ring_used 256 c h + n \<le> 255 \<Longrightarrow> \<exists>desc' buf' h' j as.
     edunic_alloc_rx_loop env n p desc buf h = Some (desc', buf', h', p + j, as) \<and> j \<le> n \<and>
     (\<forall>i < j. posted_ans (env (p + i))) \<and> (j < n \<longrightarrow> \<not> posted_ans (env (p + j))) \<and>
     ed_rx_inv desc' buf' c m h' \<and> ring_used 256 c h' = ring_used 256 c h + j \<and> (j = 0 \<longrightarrow> h' = h) \<and>
     rx_frames desc' buf' (ring_slots 256 c m) = rx_frames desc buf (ring_slots 256 c m) \<and>
     delivered as = [] \<and> freed as = [] \<and> unmapped as = []"
proof (induction n arbitrary: p desc buf h)
  case 0
  then show ?case by simp
next
  case (Suc n)
  note f = ed_rx_inv_orderD [OF Suc.prems(1)]
  note l = ring_in_orderD [OF conjunct1 [OF f]]
  show ?case
  proof (cases "env p")
    case No_skb
    with Suc.prems show ?thesis by (intro exI [of _ desc] exI [of _ buf] exI [of _ h] exI [of _ 0]) simp
  next
    case (Map_error i)
    with Suc.prems show ?thesis by (intro exI [of _ desc] exI [of _ buf] exI [of _ h] exI [of _ 0]) simp
  next
    case (Posted i content dma)
    let ?d = "(desc ! h)\<lparr>rd_buffer_addr := dma, rd_length := 0, rd_status := 0, rd_errors := 0\<rparr>"
    let ?b = "\<lparr>rb_skb = Some (i, map content [0..<EDUNIC_RX_BUF_SIZE]), rb_dma = dma, rb_len = EDUNIC_RX_BUF_SIZE\<rparr>"
    let ?h = "edunic_next h"
    have nf: "?h \<noteq> c" using Suc.prems(2) ed_ix.full_iff l by auto
    have inv: "ed_rx_inv (desc[h := ?d]) (buf[h := ?b]) c m ?h"
      by (rule ed_rx_inv_put [OF Suc.prems(1) nf]) (simp_all add: rx_dd_def rx_slot_ok_def EDUNIC_RX_BUF_SIZE_def)
    have u: "ring_used 256 c ?h = Suc (ring_used 256 c h)" using ed_ix.used_enq l nf by simp
    with Suc.prems(2) have "ring_used 256 c ?h + n \<le> 255" by simp
    from Suc.IH [OF inv this, of "Suc p"] obtain desc' buf' h' j as where
      r: "edunic_alloc_rx_loop env n (Suc p) (desc[h := ?d]) (buf[h := ?b]) ?h = Some (desc', buf', h', Suc p + j, as)"
      "j \<le> n" "\<forall>i < j. posted_ans (env (Suc p + i))" "j < n \<longrightarrow> \<not> posted_ans (env (Suc p + j))"
      "ed_rx_inv desc' buf' c m h'" "ring_used 256 c h' = ring_used 256 c ?h + j"
      "rx_frames desc' buf' (ring_slots 256 c m) = rx_frames (desc[h := ?d]) (buf[h := ?b]) (ring_slots 256 c m)"
      "delivered as = []" "freed as = []" "unmapped as = []" by blast
    have "h \<notin> set (ring_slots 256 c m)" using l head_notin_slots [of h 256 c] by simp
    then have fr: "rx_frames desc' buf' (ring_slots 256 c m) = rx_frames desc buf (ring_slots 256 c m)"
      by (rule trans [OF r(7) rx_frames_update])
    have "\<forall>i < Suc j. posted_ans (env (p + i))"
      using r(3) Posted by (auto simp: less_Suc_eq_0_disj)
    then show ?thesis using Posted f l r(1,2,4-6,8-10) fr u
      by (intro exI [of _ desc'] exI [of _ buf'] exI [of _ h'] exI [of _ "Suc j"]) (simp add: EDUNIC_RX_BUF_SIZE_def)
  qed
qed

end
