(* ===== verification/Edunic_Rx_Ok.thy ===== *)
theory Edunic_Rx_Ok
  imports Edunic_Rx_Inv
begin

text \<open>
  Refill, harvest and delivery on the adapter: what each does to the received frames, to the
  number of buffers in the ring, and that none touches the transmit side.
\<close>

definition rdh :: "edunic_adapter \<Rightarrow> nat" where "rdh a = unat (reg EDUNIC_REG_RDH a)"

definition ed_rx_ok :: "edunic_adapter \<Rightarrow> bool" where
  "ed_rx_ok a \<longleftrightarrow> (\<exists>desc q buf. r_desc (ad_rx a) = Some desc \<and> r_buf (ad_rx a) = Some (q, buf) \<and>
     r_count (ad_rx a) = 256 \<and>
     ed_rx_inv desc buf (r_next_to_clean (ad_rx a)) (rdh a) (r_next_to_use (ad_rx a)) \<and>
     reg EDUNIC_REG_RDT a = of_nat (r_next_to_use (ad_rx a)))"

text \<open>Frames received and not yet harvested; buffers the device can fill; buffers in the ring.\<close>

definition rx_pending :: "edunic_adapter \<Rightarrow> u8 list list" where
  "rx_pending a = (case (r_desc (ad_rx a), r_buf (ad_rx a)) of
      (Some desc, Some (q, buf)) \<Rightarrow> rx_frames desc buf (ring_slots 256 (r_next_to_clean (ad_rx a)) (rdh a))
    | _ \<Rightarrow> [])"

definition rx_free :: "edunic_adapter \<Rightarrow> nat" where
  "rx_free a = ring_used 256 (rdh a) (r_next_to_use (ad_rx a))"

definition rx_done_count :: "edunic_adapter \<Rightarrow> nat" where
  "rx_done_count a = ring_used 256 (r_next_to_clean (ad_rx a)) (rdh a)"

definition rx_total :: "edunic_adapter \<Rightarrow> nat" where
  "rx_total a = ring_used 256 (r_next_to_clean (ad_rx a)) (r_next_to_use (ad_rx a))"

text \<open>Each side of the adapter depends on its ring and its two registers only.\<close>

definition tx_same :: "edunic_adapter \<Rightarrow> edunic_adapter \<Rightarrow> bool" where
  "tx_same a a' \<longleftrightarrow> ad_tx a' = ad_tx a \<and> reg EDUNIC_REG_TDH a' = reg EDUNIC_REG_TDH a \<and>
     reg EDUNIC_REG_TDT a' = reg EDUNIC_REG_TDT a"

definition rx_same :: "edunic_adapter \<Rightarrow> edunic_adapter \<Rightarrow> bool" where
  "rx_same a a' \<longleftrightarrow> ad_rx a' = ad_rx a \<and> reg EDUNIC_REG_RDH a' = reg EDUNIC_REG_RDH a \<and>
     reg EDUNIC_REG_RDT a' = reg EDUNIC_REG_RDT a"

lemma tx_same_views:
  assumes "tx_same a a'"
  shows "ed_tx_ok a' = ed_tx_ok a" "ed_inflight a' = ed_inflight a" "ed_live a' = ed_live a" "ed_posted a' = ed_posted a"
    "tdh a' = tdh a" "tx_bufs a' = tx_bufs a" "tx_done_slots a' = tx_done_slots a" "tx_posted_slots a' = tx_posted_slots a"
  using assms
  by (simp_all add: tx_same_def ed_tx_ok_def ed_inflight_def ed_live_def ed_posted_def tdh_def tx_bufs_def
      tx_all_def tx_posted_slots_def tx_done_slots_def)

lemma rx_same_views:
  assumes "rx_same a a'"
  shows "ed_rx_ok a' = ed_rx_ok a" "rx_pending a' = rx_pending a" "rx_free a' = rx_free a"
    "rx_total a' = rx_total a" "rx_done_count a' = rx_done_count a" "rdh a' = rdh a"
  using assms
  by (simp_all add: rx_same_def ed_rx_ok_def rx_pending_def rx_free_def rx_total_def rx_done_count_def rdh_def
      split: option.splits)

lemma same_refl [simp]: "tx_same a a" "rx_same a a"
  by (simp_all add: tx_same_def rx_same_def)

lemma same_trans: "tx_same a b \<Longrightarrow> tx_same b c \<Longrightarrow> tx_same a c" "rx_same a b \<Longrightarrow> rx_same b c \<Longrightarrow> rx_same a c"
  by (simp_all add: tx_same_def rx_same_def)

lemma same_upds [simp]:
  "tx_same a (a'\<lparr>ad_rx := x\<rparr>) = tx_same a a'" "tx_same a (a'\<lparr>ad_stats := s\<rparr>) = tx_same a a'"
  "tx_same a (a'\<lparr>ad_stopped := b\<rparr>) = tx_same a a'" "tx_same a (a'\<lparr>ad_carrier := b\<rparr>) = tx_same a a'"
  "tx_same a (a'\<lparr>ad_link_up := b\<rparr>) = tx_same a a'"
  "rx_same a (a'\<lparr>ad_tx := t\<rparr>) = rx_same a a'" "rx_same a (a'\<lparr>ad_stats := s\<rparr>) = rx_same a a'"
  "rx_same a (a'\<lparr>ad_stopped := b\<rparr>) = rx_same a a'" "rx_same a (a'\<lparr>ad_carrier := b\<rparr>) = rx_same a a'"
  "rx_same a (a'\<lparr>ad_link_up := b\<rparr>) = rx_same a a'"
  by (simp_all add: tx_same_def rx_same_def)

lemma same_write [simp]:
  "r \<notin> {EDUNIC_REG_TDH, EDUNIC_REG_TDT} \<Longrightarrow> tx_same a (edunic_reg_write r v a') = tx_same a a'"
  "r \<notin> {EDUNIC_REG_RDH, EDUNIC_REG_RDT} \<Longrightarrow> rx_same a (edunic_reg_write r v a') = rx_same a a'"
  by (simp_all add: tx_same_def rx_same_def reg_write_other)

lemma ed_rx_okD:
  assumes "ed_rx_ok a"
  obtains desc q buf where "r_desc (ad_rx a) = Some desc" "r_buf (ad_rx a) = Some (q, buf)" "r_count (ad_rx a) = 256"
    "ed_rx_inv desc buf (r_next_to_clean (ad_rx a)) (rdh a) (r_next_to_use (ad_rx a))"
    "reg EDUNIC_REG_RDT a = of_nat (r_next_to_use (ad_rx a))"
  using assms unfolding ed_rx_ok_def by blast

lemma ed_rx_order:
  "ed_rx_ok a \<Longrightarrow> ring_in_order 256 (r_next_to_clean (ad_rx a)) (rdh a) (r_next_to_use (ad_rx a))"
  by (auto simp: ed_rx_ok_def ed_rx_inv_def)

lemma rx_total_split: "ed_rx_ok a \<Longrightarrow> rx_total a = rx_done_count a + rx_free a"
  using ring_in_order_used [OF ed_rx_order] by (simp add: rx_total_def rx_done_count_def rx_free_def)

lemma rx_total_le: "ed_rx_ok a \<Longrightarrow> rx_total a \<le> 255"
  using ed_rx_order [of a] ed_ix.used_le by (auto simp: rx_total_def ring_in_order_def)

lemma rdh_upds [simp]:
  "rdh (a\<lparr>ad_rx := x\<rparr>) = rdh a" "rdh (a\<lparr>ad_stats := s\<rparr>) = rdh a"
  by (simp_all add: rdh_def)

section \<open>Refill\<close>

lemma alloc_rx_buffers_ok:
  assumes ok: "ed_rx_ok a" and room: "rx_total a + n \<le> 255"
  obtains j a' as where "edunic_alloc_rx_buffers env n a = Some (j, a', as)" "j \<le> n"
    "\<forall>i < j. posted_ans (env i)" "j < n \<longrightarrow> \<not> posted_ans (env j)"
    "ed_rx_ok a'" "rx_total a' = rx_total a + j" "rx_pending a' = rx_pending a" "rx_done_count a' = rx_done_count a"
    "tx_same a a'" "ad_stats a' = ad_stats a" "ad_stopped a' = ad_stopped a" "ad_wq a' = ad_wq a" "ad_irq a' = ad_irq a" "irq_mask a' = irq_mask a"
    "delivered as = []" "freed as = []"
proof -
  from ok obtain desc q buf where t: "r_desc (ad_rx a) = Some desc" "r_buf (ad_rx a) = Some (q, buf)"
    "r_count (ad_rx a) = 256" and inv: "ed_rx_inv desc buf (r_next_to_clean (ad_rx a)) (rdh a) (r_next_to_use (ad_rx a))"
    and reg: "reg EDUNIC_REG_RDT a = of_nat (r_next_to_use (ad_rx a))" by (rule ed_rx_okD)
  let ?c = "r_next_to_clean (ad_rx a)" and ?m = "rdh a" and ?h = "r_next_to_use (ad_rx a)"
  have room': "ring_used 256 ?c ?h + n \<le> 255" using room by (simp add: rx_total_def)
  from alloc_rx_loop_ok [OF inv room', of env 0, unfolded add_0] obtain desc' buf' h' j as where
    loop: "edunic_alloc_rx_loop env n 0 desc buf ?h = Some (desc', buf', h', j, as)" and j: "j \<le> n"
      "\<forall>i < j. posted_ans (env i)" "j < n \<longrightarrow> \<not> posted_ans (env j)"
    and inv': "ed_rx_inv desc' buf' ?c ?m h'" and u: "ring_used 256 ?c h' = ring_used 256 ?c ?h + j" and z: "j = 0 \<longrightarrow> h' = ?h"
    and fr: "rx_frames desc' buf' (ring_slots 256 ?c ?m) = rx_frames desc buf (ring_slots 256 ?c ?m)"
    and as: "delivered as = []" "freed as = []" by blast
  define r where "r = (ad_rx a)\<lparr>r_desc := Some desc', r_buf := Some (q, buf'), r_next_to_use := h'\<rparr>"
  define a' where "a' = (if j = 0 then a\<lparr>ad_rx := r\<rparr> else edunic_reg_write EDUNIC_REG_RDT (of_nat h') (a\<lparr>ad_rx := r\<rparr>))"
  define as' where "as' = as @ (if j = 0 then [] else [D_writel EDUNIC_REG_RDT (of_nat h')])"
  have "(ad_rx a)\<lparr>r_desc := Some desc', r_buf := Some (q, buf')\<rparr> = r" if "j = 0"
    using z that by (simp add: r_def)
  then have x: "edunic_alloc_rx_buffers env n a = Some (j, a', as')"
    using t loop by (simp add: edunic_alloc_rx_buffers_def Let_def a'_def as'_def r_def)
  have m: "rdh a' = ?m" "reg EDUNIC_REG_RDT a' = of_nat h'" "ad_rx a' = r"
    using z reg by (simp_all add: a'_def rdh_def reg_write_other reg_write_same edunic_regs)
  have okA: "ed_rx_ok a'" unfolding ed_rx_ok_def m using inv' t by (simp add: r_def)
  have v: "rx_total a' = rx_total a + j" "rx_pending a' = rx_pending a" "rx_done_count a' = rx_done_count a"
    using u fr t m by (simp_all add: rx_total_def rx_pending_def rx_done_count_def r_def)
  have k: "tx_same a a'" "ad_stats a' = ad_stats a" "ad_stopped a' = ad_stopped a" "ad_wq a' = ad_wq a" "ad_irq a' = ad_irq a" "irq_mask a' = irq_mask a"
    by (simp_all add: a'_def edunic_regs)
  have "delivered as' = []" "freed as' = []" using as by (simp_all add: as'_def)
  from that [OF x j okA v k this] show ?thesis .
qed

section \<open>Harvest\<close>

lemma clean_rx_irq_ok:
  assumes ok: "ed_rx_ok a" and w: "w = min (nat budget) (rx_done_count a)"
  obtains j a' as where "edunic_clean_rx_irq env budget a = Some (int w, a', as)" "j \<le> w"
    "\<forall>i < j. posted_ans (env i)" "j < w \<longrightarrow> \<not> posted_ans (env j)"
    "ed_rx_ok a'" "rx_total a' + w = rx_total a + j" "rx_done_count a' + w = rx_done_count a"
    "rx_pending a = delivered as @ rx_pending a'"
    "tx_same a a'" "ad_stopped a' = ad_stopped a" "ad_wq a' = ad_wq a" "ad_irq a' = ad_irq a" "irq_mask a' = irq_mask a"
    "rx_dropped (ad_stats a') = rx_dropped (ad_stats a)" "freed as = []"
    "rx_packets (ad_stats a') = rx_packets (ad_stats a) + of_nat (length (delivered as))"
proof (cases "budget \<le> 0")
  case True
  with ok w show ?thesis by (intro that [of a "[]" 0]) (simp_all add: edunic_clean_rx_irq_def Let_def)
next
  case False
  from ok obtain desc q buf where t: "r_desc (ad_rx a) = Some desc" "r_buf (ad_rx a) = Some (q, buf)"
    "r_count (ad_rx a) = 256" and inv: "ed_rx_inv desc buf (r_next_to_clean (ad_rx a)) (rdh a) (r_next_to_use (ad_rx a))"
    and reg: "reg EDUNIC_REG_RDT a = of_nat (r_next_to_use (ad_rx a))" by (rule ed_rx_okD)
  let ?c = "r_next_to_clean (ad_rx a)" and ?m = "rdh a" and ?h = "r_next_to_use (ad_rx a)"
  from clean_rx_loop_ok [OF inv w [unfolded rx_done_count_def], of 0 "ad_stats a", unfolded add_0] obtain desc' buf' c' s' as where
    loop: "edunic_clean_rx_loop (nat budget) desc buf ?c 0 (ad_stats a) = Some (desc', buf', c', w, s', as)"
    and inv': "ed_rx_inv desc' buf' c' ?m ?h" and u: "ring_used 256 ?c ?m = w + ring_used 256 c' ?m"
      "ring_used 256 ?c ?h = w + ring_used 256 c' ?h"
    and fr: "rx_frames desc buf (ring_slots 256 ?c ?m) = delivered as @ rx_frames desc' buf' (ring_slots 256 c' ?m)"
    and st: "rx_packets s' = rx_packets (ad_stats a) + of_nat (length (delivered as))" "rx_dropped s' = rx_dropped (ad_stats a)"
      "freed as = []" by blast
  define r where "r = (ad_rx a)\<lparr>r_desc := Some desc', r_buf := Some (q, buf'), r_next_to_clean := c'\<rparr>"
  define b where "b = a\<lparr>ad_rx := r, ad_stats := s'\<rparr>"
  have okb: "ed_rx_ok b" using inv' t reg by (simp add: ed_rx_ok_def b_def r_def)
  have b: "rx_total b + w = rx_total a" "rx_done_count b + w = rx_done_count a"
    "rx_pending a = delivered as @ rx_pending b" "tx_same a b"
    using u fr t by (simp_all add: rx_total_def rx_done_count_def rx_pending_def b_def r_def)
  have le: "rx_total a \<le> 255" by (rule rx_total_le [OF ok])
  then have w16: "w mod 65536 = w" using b(1) by simp
  show ?thesis
  proof (cases "w = 0")
    case True
    have "edunic_clean_rx_irq env budget a = Some (int w, b, as)"
      using False t loop w16 True by (simp add: edunic_clean_rx_irq_def Let_def b_def r_def)
    moreover have "ad_stopped b = ad_stopped a" "ad_wq b = ad_wq a" "ad_irq b = ad_irq a" "irq_mask b = irq_mask a" "ad_stats b = s'"
      by (simp_all add: b_def)
    ultimately show ?thesis using that [of b as 0] okb b st True by simp
  next
    case wpos: False
    have "rx_total b + w \<le> 255" using b(1) le by simp
    from alloc_rx_buffers_ok [OF okb this, of env] obtain j a' as' where
      al: "edunic_alloc_rx_buffers env w b = Some (j, a', as')" "j \<le> w"
      "\<forall>i < j. posted_ans (env i)" "j < w \<longrightarrow> \<not> posted_ans (env j)"
      "ed_rx_ok a'" "rx_total a' = rx_total b + j" "rx_pending a' = rx_pending b" "rx_done_count a' = rx_done_count b"
      "tx_same b a'" "ad_stats a' = ad_stats b" "ad_stopped a' = ad_stopped b" "ad_wq a' = ad_wq b" "ad_irq a' = ad_irq b" "irq_mask a' = irq_mask b"
      "delivered as' = []" "freed as' = []" by blast
    have "edunic_clean_rx_irq env budget a = Some (int w, a', as @ as')"
      using False t loop w16 wpos al(1) by (simp add: edunic_clean_rx_irq_def Let_def b_def r_def)
    moreover have "tx_same a a'" using same_trans(1) [OF b(4) al(9)] .
    moreover have "rx_total a' + w = rx_total a + j" "rx_done_count a' + w = rx_done_count a"
      using al(6,8) b(1,2) by simp_all
    moreover have "rx_pending a = delivered (as @ as') @ rx_pending a'" "freed (as @ as') = []"
      using al(7,15,16) b(3) st(3) by simp_all
    moreover have "ad_stopped a' = ad_stopped a" "ad_wq a' = ad_wq a" "ad_irq a' = ad_irq a" "irq_mask a' = irq_mask a"
      "rx_dropped (ad_stats a') = rx_dropped (ad_stats a)"
      "rx_packets (ad_stats a') = rx_packets (ad_stats a) + of_nat (length (delivered (as @ as')))"
      using al(10-16) st by (simp_all add: b_def)
    ultimately show ?thesis using that [of a' "as @ as'" j] al(2-5) by blast
  qed
qed

section \<open>Delivery\<close>

lemma ed_rx_inv_hw:
  assumes inv: "ed_rx_inv desc buf c m h" and ne: "m \<noteq> h" and d: "rx_dd d" "unat (rd_length d) \<le> 2048" and b: "rx_slot_ok b"
  shows "ed_rx_inv (desc[m := d]) (buf[m := b]) c (edunic_next m) h"
proof -
  from inv have o: "ring_in_order 256 c m h" and len: "length desc = 256" "length buf = 256" by (auto simp: ed_rx_inv_def)
  note e = ed_ix.in_order_hw [OF o ne]
  note l = ring_in_orderD [OF o]
  have "m \<in> set (ring_slots 256 c h)" using l e(2) by simp
  then have "if i \<in> set (ring_slots 256 c h) then rx_slot_ok (buf[m := b] ! i) else rb_skb (buf[m := b] ! i) = None"
    if "i < 256" for i
    using inv that b len by (cases "i = m") (simp_all add: ed_rx_inv_def)
  moreover have "if i \<in> set (ring_slots 256 c (edunic_next m))
      then rx_dd (desc[m := d] ! i) \<and> unat (rd_length (desc[m := d] ! i)) \<le> 2048
      else \<not> rx_dd (desc[m := d] ! i)" if "i < 256" for i
    unfolding e(3) using inv that d len by (cases "i = m") (simp_all add: ed_rx_inv_def)
  ultimately show ?thesis using e(1) len by (simp add: ed_rx_inv_def)
qed

text \<open>
  A frame, cut to the buffer size, is appended to those received, or counted as dropped when no
  buffer is free.
\<close>

lemma deliver_rx_ok:
  assumes ok: "ed_rx_ok a"
  obtains a' as where "edunic_hw_deliver_rx_frame f a = Some (a', as)" "ed_rx_ok a'" "tx_same a a'"
    "rx_free a = 0 \<Longrightarrow> rx_pending a' = rx_pending a \<and> rx_free a' = 0 \<and>
       rx_dropped (ad_stats a') = rx_dropped (ad_stats a) + 1"
    "rx_free a \<noteq> 0 \<Longrightarrow> rx_pending a' = rx_pending a @ [take 2048 f] \<and> rx_free a = Suc (rx_free a') \<and>
       rx_dropped (ad_stats a') = rx_dropped (ad_stats a)"
    "rx_total a' = rx_total a" "ad_stopped a' = ad_stopped a" "ad_wq a' = ad_wq a" "ad_irq a' = ad_irq a"
    "delivered as = []" "freed as = []" "mapped as = []" "unmapped as = []"
proof -
  from ok obtain desc q buf where t: "r_desc (ad_rx a) = Some desc" "r_buf (ad_rx a) = Some (q, buf)"
    "r_count (ad_rx a) = 256" and inv: "ed_rx_inv desc buf (r_next_to_clean (ad_rx a)) (rdh a) (r_next_to_use (ad_rx a))"
    and reg: "reg EDUNIC_REG_RDT a = of_nat (r_next_to_use (ad_rx a))" by (rule ed_rx_okD)
  let ?c = "r_next_to_clean (ad_rx a)" and ?m = "rdh a" and ?h = "r_next_to_use (ad_rx a)"
  note l = ring_in_orderD [OF ed_rx_order [OF ok]]
  have rd: "edunic_reg_read EDUNIC_REG_RDH a = (reg EDUNIC_REG_RDH a, a)" "edunic_reg_read EDUNIC_REG_RDT a = (reg EDUNIC_REG_RDT a, a)"
    by (simp_all add: reg_read_plain edunic_regs)
  have same: "reg EDUNIC_REG_RDH a = reg EDUNIC_REG_RDT a \<longleftrightarrow> ?m = ?h"
    using unat_idx [of ?h] l unfolding reg rdh_def by (metis unsigned_word_eqI)
  have free: "rx_free a = 0 \<longleftrightarrow> ?m = ?h" using ring_used_0_iff l by (simp add: rx_free_def)
  show ?thesis
  proof (cases "?m = ?h")
    case True
    define a' where "a' = a\<lparr>ad_stats := (ad_stats a)\<lparr>rx_dropped := rx_dropped (ad_stats a) + 1\<rparr>\<rparr>"
    have s: "rx_same a a'" "tx_same a a'" by (simp_all add: a'_def)
    define as where "as = [D_readl EDUNIC_REG_RDH, D_readl EDUNIC_REG_RDT]"
    have "edunic_hw_deliver_rx_frame f a = Some (a', as)"
      using same True by (simp add: edunic_hw_deliver_rx_frame_def rd a'_def as_def)
    with that [of a' as] free True ok s rx_same_views [OF s(1)] show ?thesis by (simp add: a'_def as_def)
  next
    case False
    note e = ed_ix.in_order_hw [OF ed_rx_order [OF ok] False]
    have "?m \<in> set (ring_slots 256 ?c ?h)" using l e(2) by simp
    then obtain i data where b: "rb_skb (buf ! ?m) = Some (i, data)" "length data = 2048" "rb_len (buf ! ?m) = 2048"
      using ed_rx_inv_slot [OF inv, of ?m] by (auto simp: rx_slot_ok_def)
    have len: "length desc = 256" "length buf = 256" using inv by (simp_all add: ed_rx_inv_def)
    define d b' where "d = (desc ! ?m)\<lparr>rd_length := of_nat (min (length f) 2048), rd_errors := 0,
        rd_status := EDUNIC_RXD_STAT_DD OR EDUNIC_RXD_STAT_EOP OR EDUNIC_RXD_STAT_CSUM_VALID\<rparr>"
      and "b' = (buf ! ?m)\<lparr>rb_skb := Some (i, take 2048 f @ drop (min (length f) 2048) data)\<rparr>"
    have fl: "unat (rd_length d) = min (length f) 2048"
      by (simp add: d_def unsigned_of_nat take_bit_nat_eq_self min_def)
    have dd: "rx_dd d" by (simp add: d_def rx_dd_def EDUNIC_RXD_STAT_DD_def EDUNIC_RXD_STAT_EOP_def EDUNIC_RXD_STAT_CSUM_VALID_def)
    have inv': "ed_rx_inv (desc[?m := d]) (buf[?m := b']) ?c (edunic_next ?m) ?h"
      using fl b by (intro ed_rx_inv_hw [OF inv False dd]) (simp_all add: rx_slot_ok_def b'_def)
    define r where "r = (ad_rx a)\<lparr>r_desc := Some (desc[?m := d]), r_buf := Some (q, buf[?m := b'])\<rparr>"
    define a' where "a' = edunic_reg_write EDUNIC_REG_ICS EDUNIC_INT_RX
        (edunic_reg_write EDUNIC_REG_RDH (of_nat (edunic_next ?m)) (a\<lparr>ad_rx := r\<rparr>))"
    define as where "as = [D_readl EDUNIC_REG_RDH, D_readl EDUNIC_REG_RDT, D_writel EDUNIC_REG_RDH (of_nat (edunic_next ?m)), D_writel EDUNIC_REG_ICS EDUNIC_INT_RX]"
    have x: "edunic_hw_deliver_rx_frame f a = Some (a', as)"
      using same False t b len l
      by (cases "2048 < length f")
        (simp_all add: edunic_hw_deliver_rx_frame_def rd Let_def a'_def as_def r_def d_def b'_def rdh_def [symmetric] min_def)
    have m: "rdh a' = edunic_next ?m" "ad_rx a' = r" "reg EDUNIC_REG_RDT a' = of_nat ?h"
      using ed_ix.nxt_less l reg by (simp_all add: a'_def rdh_def reg_write_other reg_write_same edunic_regs unat_idx)
    have okA: "ed_rx_ok a'" unfolding ed_rx_ok_def m using inv' t by (simp add: r_def)
    have n: "?m \<notin> set (ring_slots 256 ?c ?m)" by (simp add: head_notin_slots)
    have "\<not> rx_bad d" by (simp add: rx_bad_def d_def)
    then have "rx_frame_of d b' = [take 2048 f]"
      using fl by (simp add: rx_frame_of_def b'_def min_def)
    then have "rx_pending a' = rx_pending a @ [take 2048 f]"
      using t m l len by (simp add: rx_pending_def r_def e(3) rx_frames_update [OF n])
    moreover have "rx_free a = Suc (rx_free a')"
      using ed_ix.used_deq [of ?m ?h] l False by (simp add: rx_free_def m r_def)
    moreover have "rx_total a' = rx_total a" by (simp add: rx_total_def m r_def)
    moreover have "tx_same a a'" by (simp add: a'_def edunic_regs)
    ultimately show ?thesis using that [OF x okA] free False by (simp add: a'_def as_def)
  qed
qed

end
