(* ===== verification/Edunic_Work.thy ===== *)
theory Edunic_Work
  imports Edunic_Xmit Edunic_Rx_Ok
begin

text \<open>
  The emulated engine and the interrupt handler on a good adapter: the engine finishes every
  posted packet in ring order and loops each frame back while receive buffers last.
\<close>

definition ed_ok :: "edunic_adapter \<Rightarrow> bool" where
  "ed_ok a \<longleftrightarrow> ed_tx_ok a \<and> ed_rx_ok a"

section \<open>The interrupt handler\<close>

definition quiet :: "drv_act list \<Rightarrow> bool" where
  "quiet as \<longleftrightarrow> freed as = [] \<and> mapped as = [] \<and> unmapped as = [] \<and> delivered as = []"

lemma quiet_simps [simp]:
  "quiet []" "quiet (as @ bs) \<longleftrightarrow> quiet as \<and> quiet bs"
  "quiet (D_writel r v # as) = quiet as" "quiet (D_readl r # as) = quiet as" "quiet (D_sync_for_cpu p n # as) = quiet as"
  "quiet (D_sync_for_device p n # as) = quiet as" "quiet (D_kmalloc q # as) = quiet as" "quiet (D_kfree q # as) = quiet as"
  "quiet (D_aux x # as) = quiet as" "quiet (D_net y # as) = quiet as"
  by (auto simp: quiet_def)

lemma reg_icr [simp]: "reg r (a\<lparr>ad_chip := (ad_chip a)\<lparr>ch_icr := v\<rparr>\<rparr>) = reg r a"
  by (simp add: reg_def)

definition side_same :: "edunic_adapter \<Rightarrow> edunic_adapter \<Rightarrow> bool" where
  "side_same a a' \<longleftrightarrow> tx_same a a' \<and> rx_same a a' \<and> ad_stats a' = ad_stats a \<and> ad_stopped a' = ad_stopped a \<and>
     ad_wq a' = ad_wq a \<and> ad_irq a' = ad_irq a"

lemma intr_same:
  assumes "edunic_intr prep a = (r, a', as)"
  shows "side_same a a' \<and> quiet as"
proof -
  define b where "b = a\<lparr>ad_chip := (ad_chip a)\<lparr>ch_icr := 0\<rparr>\<rparr>"
  have b: "side_same a b" by (simp add: b_def side_same_def tx_same_def rx_same_def)
  have rd: "edunic_reg_read EDUNIC_REG_ICR a = (ch_icr (ad_chip a), b)"
    by (simp add: edunic_reg_read_def b_def Let_def)
  from assms b show ?thesis
    unfolding edunic_intr_def rd
    by (auto simp: side_same_def edunic_regs split: if_splits)
qed

lemma side_same_views:
  assumes "side_same a a'"
  shows "ed_ok a' = ed_ok a" "ed_inflight a' = ed_inflight a" "ed_live a' = ed_live a" "ed_posted a' = ed_posted a"
    "rx_pending a' = rx_pending a" "rx_free a' = rx_free a" "rx_total a' = rx_total a"
    "rx_done_count a' = rx_done_count a" "ad_stats a' = ad_stats a"
  using assms by (simp_all add: side_same_def ed_ok_def tx_same_views [of a a'] rx_same_views [of a a'])

section \<open>One turn of the engine\<close>

text \<open>The transmit side with the device's head at \<open>m\<close>, ahead of its register.\<close>

definition ed_tx_at :: "nat \<Rightarrow> edunic_adapter \<Rightarrow> bool" where
  "ed_tx_at m a \<longleftrightarrow> (\<exists>desc q buf. t_desc (ad_tx a) = Some desc \<and> t_buf (ad_tx a) = Some (q, buf) \<and>
     t_count (ad_tx a) = 256 \<and> ed_tx_inv desc buf (t_next_to_clean (ad_tx a)) m (t_next_to_use (ad_tx a)) \<and>
     reg EDUNIC_REG_TDT a = of_nat (t_next_to_use (ad_tx a)))"

lemma ed_tx_at_tdh: "ed_tx_ok a \<longleftrightarrow> ed_tx_at (tdh a) a"
  by (simp add: ed_tx_ok_def ed_tx_at_def)

text \<open>
  What the loopback makes of a packet: its length is read from the 16-bit field of the
  descriptor, and the copy is cut to the receive buffer.  Packets of up to 2048 bytes go
  through as they are.
\<close>

definition wire :: "sk_buff \<Rightarrow> u8 list" where
  "wire s = take 2048 (take (length (sk_data s) mod 65536) (sk_data s))"

lemma wire_short [simp]: "length (sk_data s) \<le> 2048 \<Longrightarrow> wire s = sk_data s"
  by (simp add: wire_def)

text \<open>The frame one buffer gives to the loopback: none when its copy cannot be made.\<close>

definition looped :: "u64 option \<Rightarrow> edunic_tx_buf \<Rightarrow> u8 list list" where
  "looped mem b = (if tb_dma b \<noteq> 0 \<and> wire (the (tb_skb b)) \<noteq> [] \<and> mem \<noteq> None then [wire (the (tb_skb b))] else [])"

fun work_frames :: "(nat \<Rightarrow> u64 option) \<Rightarrow> nat \<Rightarrow> edunic_tx_buf list \<Rightarrow> u8 list list" where
  "work_frames mem n [] = []"
| "work_frames mem n (b # bs) = looped (mem n) b @ work_frames mem (Suc n) bs"

lemma ed_tx_inv_hw:
  assumes inv: "ed_tx_inv desc buf c m h" and ne: "m \<noteq> h"
  shows "ed_tx_inv (desc[m := (desc ! m)\<lparr>td_status := EDUNIC_TXD_STAT_DD\<rparr>]) buf c (edunic_next m) h"
proof -
  let ?d = "(desc ! m)\<lparr>td_status := EDUNIC_TXD_STAT_DD\<rparr>"
  from inv have o: "ring_in_order 256 c m h" and len: "length desc = 256" "length buf = 256" by (auto simp: ed_tx_inv_def)
  note e = ed_ix.in_order_hw [OF o ne]
  have n: "m \<notin> set (ring_slots 256 c m)" "m \<notin> set (ring_slots 256 (edunic_next m) h)"
    using e(2) distinct_ring_slots [of 256 m h] by (simp_all add: head_notin_slots)
  have dd: "tx_dd ?d" by (simp add: tx_dd_def EDUNIC_TXD_STAT_DD_def)
  have "tx_slot_ok (desc[m := ?d] ! i) b = tx_slot_ok (desc ! i) b" for i b
    using len by (cases "m < 256"; cases "i = m") (simp_all add: tx_slot_ok_def list_update_beyond)
  moreover have "\<forall>i \<in> set (ring_slots 256 c (edunic_next m)). tx_dd (desc[m := ?d] ! i)"
    unfolding e(3) using inv n(1) dd len ring_in_orderD [OF o]
    by (simp add: ed_tx_inv_def ball_Un ball_update [where P = tx_dd])
  moreover have "\<forall>i \<in> set (ring_slots 256 (edunic_next m) h). \<not> tx_dd (desc[m := ?d] ! i)"
    using inv n(2) e(2) by (simp add: ed_tx_inv_def ball_update [where P = "\<lambda>d. \<not> tx_dd d"])
  ultimately show ?thesis using inv e(1) by (simp add: ed_tx_inv_def)
qed

lemma work_one_ok:
  assumes tx: "ed_tx_at m a" and rx: "ed_rx_ok a" and ne: "m \<noteq> t_next_to_use (ad_tx a)"
  obtains a' as where "edunic_tx_work_one mem m a = Some (a', as)" "ed_tx_at (edunic_next m) a'" "ed_rx_ok a'"
    "tx_bufs a' = tx_bufs a" "t_next_to_clean (ad_tx a') = t_next_to_clean (ad_tx a)"
    "t_next_to_use (ad_tx a') = t_next_to_use (ad_tx a)"
    "rx_pending a' = rx_pending a @ take (rx_free a) (looped mem (tx_bufs a ! m))"
    "rx_free a' = rx_free a - length (looped mem (tx_bufs a ! m))"
    "rx_dropped (ad_stats a') = rx_dropped (ad_stats a) + of_nat (length (looped mem (tx_bufs a ! m)) - rx_free a)"
    "rx_total a' = rx_total a" "ad_stopped a' = ad_stopped a" "ad_wq a' = ad_wq a" "ad_irq a' = ad_irq a" "quiet as"
proof -
  from tx obtain desc q buf where t: "t_desc (ad_tx a) = Some desc" "t_buf (ad_tx a) = Some (q, buf)" "t_count (ad_tx a) = 256"
    and inv: "ed_tx_inv desc buf (t_next_to_clean (ad_tx a)) m (t_next_to_use (ad_tx a))"
    and reg: "reg EDUNIC_REG_TDT a = of_nat (t_next_to_use (ad_tx a))" unfolding ed_tx_at_def by blast
  from inv have o: "ring_in_order 256 (t_next_to_clean (ad_tx a)) m (t_next_to_use (ad_tx a))"
    and len: "length desc = 256" "length buf = 256" by (simp_all add: ed_tx_inv_def)
  note e = ed_ix.in_order_hw [OF o ne]
  note l = ring_in_orderD [OF o]
  obtain s where s: "tb_skb (buf ! m) = Some s" "td_length (desc ! m) = ucast (skb_len s)"
    using inv_slot [OF inv, of m] l e(2) by (auto simp: tx_slot_ok_def)
  have bufs: "tx_bufs a = buf" using t by (simp add: tx_bufs_def)
  have ln: "unat (td_length (desc ! m)) = length (sk_data s) mod 65536"
    unfolding s(2) by (simp add: unsigned_ucast_eq unsigned_of_nat take_bit_eq_mod mod_mod_cancel)
  define f where "f = take (length (sk_data s) mod 65536) (sk_data s)"
  have fn: "f = [] \<longleftrightarrow> length (sk_data s) mod 65536 = 0" by (auto simp: f_def)
  have wf: "wire s = take 2048 f" "wire s = [] \<longleftrightarrow> f = []" by (auto simp: wire_def f_def)
  define upd where "upd = (\<lambda>a :: edunic_adapter. a\<lparr>ad_tx := (ad_tx a)\<lparr>t_desc :=
    map_option (\<lambda>ds. ds[m := (ds ! m)\<lparr>td_status := EDUNIC_TXD_STAT_DD\<rparr>]) (t_desc (ad_tx a))\<rparr>\<rparr>)"
  define run where "run = (if tb_dma (buf ! m) \<noteq> 0 \<and> f \<noteq> [] \<and> mem \<noteq> None
    then edunic_hw_deliver_rx_frame f a else Some (a, []))"
  have lp: "looped mem (buf ! m) = (if tb_dma (buf ! m) \<noteq> 0 \<and> f \<noteq> [] \<and> mem \<noteq> None then [take 2048 f] else [])"
    by (simp add: looped_def s(1) wf)
  obtain a1 as1 where r: "run = Some (a1, as1)" "ed_rx_ok a1" "tx_same a a1"
    "rx_pending a1 = rx_pending a @ take (rx_free a) (looped mem (buf ! m))"
    "rx_free a1 = rx_free a - length (looped mem (buf ! m))"
    "rx_dropped (ad_stats a1) = rx_dropped (ad_stats a) + of_nat (length (looped mem (buf ! m)) - rx_free a)"
    "rx_total a1 = rx_total a" "ad_stopped a1 = ad_stopped a" "ad_wq a1 = ad_wq a" "ad_irq a1 = ad_irq a" "quiet as1"
  proof (cases "tb_dma (buf ! m) \<noteq> 0 \<and> f \<noteq> [] \<and> mem \<noteq> None")
    case False
    have "run = Some (a, [])" unfolding run_def by (rule if_not_P [OF False])
    moreover have "looped mem (buf ! m) = []" unfolding lp by (rule if_not_P [OF False])
    ultimately show ?thesis using rx that [of a "[]"] by simp
  next
    case True
    from deliver_rx_ok [OF rx, of f] obtain a1 as1 where
      d: "edunic_hw_deliver_rx_frame f a = Some (a1, as1)" "ed_rx_ok a1" "tx_same a a1"
      and empty: "rx_free a = 0 \<Longrightarrow> rx_pending a1 = rx_pending a \<and> rx_free a1 = 0 \<and>
         rx_dropped (ad_stats a1) = rx_dropped (ad_stats a) + 1"
      and room: "rx_free a \<noteq> 0 \<Longrightarrow> rx_pending a1 = rx_pending a @ [take 2048 f] \<and> rx_free a = Suc (rx_free a1) \<and>
         rx_dropped (ad_stats a1) = rx_dropped (ad_stats a)"
      and k: "rx_total a1 = rx_total a" "ad_stopped a1 = ad_stopped a" "ad_wq a1 = ad_wq a" "ad_irq a1 = ad_irq a"
      "delivered as1 = []" "freed as1 = []" "mapped as1 = []" "unmapped as1 = []" by blast
    have "run = Some (a1, as1)" using True d(1) by (simp add: run_def)
    moreover have "looped mem (buf ! m) = [take 2048 f]" using True lp by simp
    ultimately show ?thesis
      by (cases "rx_free a = 0") (use that [of a1 as1] d(2,3) empty room k in \<open>simp_all add: quiet_def\<close>)
  qed
  have tx1: "ad_tx a1 = ad_tx a" using r(3) by (simp add: tx_same_def)
  have "\<exists>as. edunic_tx_work_one mem m a = Some (upd a1, as) \<and> quiet as"
    using t len l s(1) ln fn r(1,11)
    by (auto simp: edunic_tx_work_one_def Let_def run_def upd_def f_def [symmetric] split: option.splits if_splits)
  then obtain as where x: "edunic_tx_work_one mem m a = Some (upd a1, as)" "quiet as" by blast
  have up: "ad_tx (upd a1) = (ad_tx a)\<lparr>t_desc := Some (desc[m := (desc ! m)\<lparr>td_status := EDUNIC_TXD_STAT_DD\<rparr>])\<rparr>"
    using t by (simp add: upd_def tx1)
  have "ed_tx_at (edunic_next m) (upd a1)"
    unfolding ed_tx_at_def up using ed_tx_inv_hw [OF inv ne] t reg r(3) by (simp add: upd_def tx_same_def)
  moreover have sm: "rx_same a1 (upd a1)" by (simp add: upd_def)
  moreover have "tx_bufs (upd a1) = tx_bufs a" by (simp add: tx_bufs_def up)
  ultimately show ?thesis
    using that [OF x(1)] x(2) r(2,4-10) rx_same_views [OF sm] by (simp add: bufs up) (simp add: upd_def)
qed

section \<open>The engine\<close>

definition work_ok :: "nat \<Rightarrow> edunic_adapter \<Rightarrow> edunic_adapter \<Rightarrow> u8 list list \<Rightarrow> bool" where
  "work_ok m a a' fs \<longleftrightarrow> ed_tx_at m a' \<and> ed_rx_ok a' \<and> tx_bufs a' = tx_bufs a \<and>
     t_next_to_clean (ad_tx a') = t_next_to_clean (ad_tx a) \<and> t_next_to_use (ad_tx a') = t_next_to_use (ad_tx a) \<and>
     rx_pending a' = rx_pending a @ take (rx_free a) fs \<and> rx_free a' = rx_free a - length fs \<and>
     rx_dropped (ad_stats a') = rx_dropped (ad_stats a) + of_nat (length fs - rx_free a) \<and>
     rx_total a' = rx_total a \<and> ad_stopped a' = ad_stopped a \<and> ad_wq a' = ad_wq a \<and> ad_irq a' = ad_irq a"

lemma work_ok_trans:
  assumes "work_ok m a b fs" "work_ok m' b c gs"
  shows "work_ok m' a c (fs @ gs)"
proof -
  have "(length fs - rx_free a) + (length gs - (rx_free a - length fs)) = length fs + length gs - rx_free a" by simp
  then have "(of_nat (length fs - rx_free a) :: u64) + of_nat (length gs - (rx_free a - length fs))
      = of_nat (length fs + length gs - rx_free a)" by (metis of_nat_add)
  with assms show ?thesis by (simp add: work_ok_def add.assoc)
qed

lemma work_loop_ok:
  "ed_tx_at m a \<Longrightarrow> ed_rx_ok a \<Longrightarrow> ring_used 256 m (t_next_to_use (ad_tx a)) \<le> fuel \<Longrightarrow>
   \<exists>a' as. edunic_tx_work_loop mem fuel n (of_nat m) (of_nat (t_next_to_use (ad_tx a))) a =
       Some (of_nat (t_next_to_use (ad_tx a)), n + ring_used 256 m (t_next_to_use (ad_tx a)) > 0, a', as) \<and> quiet as \<and>
     work_ok (t_next_to_use (ad_tx a)) a a'
       (work_frames mem n (map (\<lambda>i. tx_bufs a ! i) (ring_slots 256 m (t_next_to_use (ad_tx a)))))"
proof (induction fuel arbitrary: m n a)
  case 0
  let ?h = "t_next_to_use (ad_tx a)"
  from 0(1) have "m < 256" "?h < 256" by (auto simp: ed_tx_at_def ed_tx_inv_def ring_in_order_def)
  with 0 have "m = ?h" using ring_used_0_iff by simp
  with 0 show ?case by (simp add: work_ok_def)
next
  case (Suc fuel)
  let ?h = "t_next_to_use (ad_tx a)"
  from Suc.prems(1) have o: "ring_in_order 256 (t_next_to_clean (ad_tx a)) m ?h" by (auto simp: ed_tx_at_def ed_tx_inv_def)
  note l = ring_in_orderD [OF o]
  show ?case
  proof (cases "m = ?h")
    case True
    with Suc.prems show ?thesis by (simp add: work_ok_def)
  next
    case False
    note e = ed_ix.in_order_hw [OF o False]
    let ?m = "edunic_next m"
    have u: "ring_used 256 m ?h = Suc (ring_used 256 ?m ?h)" using ed_ix.used_deq l False by simp
    from work_one_ok [OF Suc.prems(1,2) False, of "mem n"] obtain b as where
      one: "edunic_tx_work_one (mem n) m a = Some (b, as)" "quiet as" and
      w: "work_ok ?m a b (looped (mem n) (tx_bufs a ! m))" unfolding work_ok_def by metis
    then have b: "ed_tx_at ?m b" "ed_rx_ok b" "t_next_to_use (ad_tx b) = ?h" "tx_bufs b = tx_bufs a"
      by (simp_all add: work_ok_def)
    have "\<exists>a' as. edunic_tx_work_loop mem fuel (Suc n) (of_nat ?m) (of_nat ?h) b =
       Some (of_nat ?h, Suc n + ring_used 256 ?m ?h > 0, a', as) \<and> quiet as \<and>
       work_ok ?h b a' (work_frames mem (Suc n) (map (\<lambda>i. tx_bufs a ! i) (ring_slots 256 ?m ?h)))"
      using Suc.IH [OF b(1,2), of "Suc n"] Suc.prems(3) b(3,4) u e(2) by simp
    then obtain a' as' where r: "edunic_tx_work_loop mem fuel (Suc n) (of_nat ?m) (of_nat ?h) b = Some (of_nat ?h, True, a', as')"
      "quiet as'" and w': "work_ok ?h b a' (work_frames mem (Suc n) (map (\<lambda>i. tx_bufs a ! i) (ring_slots 256 ?m ?h)))"
      by auto
    have ne: "(of_nat m :: u32) \<noteq> of_nat ?h" using False l by (metis unat_idx)
    have "edunic_tx_work_loop mem (Suc fuel) n (of_nat m) (of_nat ?h) a = Some (of_nat ?h, True, a', as @ as')"
      using ne one(1) r(1) l by (simp add: unat_idx)
    moreover have "work_ok ?h a a' (work_frames mem n (map (\<lambda>i. tx_bufs a ! i) (ring_slots 256 m ?h)))"
      using work_ok_trans [OF w w'] e(2) by simp
    ultimately show ?thesis using u one(2) r(2) by simp
  qed
qed

text \<open>The packets handed over and not fetched are all finished; nothing of them is lost or freed.\<close>

lemma worker_ok:
  assumes ok: "ed_ok a"
  obtains a' as where "edunic_hw_tx_worker mem prep a = Some (a', as)" "ed_ok a'" "quiet as"
    "ed_inflight a' = ed_inflight a" "ed_live a' = ed_live a" "ed_posted a' = []"
    "rx_pending a' = rx_pending a @ take (rx_free a) (work_frames mem 0 (map (\<lambda>i. tx_bufs a ! i) (tx_posted_slots a)))"
    "rx_free a' = rx_free a - length (work_frames mem 0 (map (\<lambda>i. tx_bufs a ! i) (tx_posted_slots a)))"
    "rx_dropped (ad_stats a') = rx_dropped (ad_stats a) +
       of_nat (length (work_frames mem 0 (map (\<lambda>i. tx_bufs a ! i) (tx_posted_slots a))) - rx_free a)"
    "rx_total a' = rx_total a" "ad_stopped a' = ad_stopped a" "ad_wq a' = ad_wq a" "ad_irq a' = ad_irq a"
    "tx_full a' = tx_full a"
proof -
  let ?h = "t_next_to_use (ad_tx a)" and ?m = "tdh a"
  let ?W = "work_frames mem 0 (map (\<lambda>i. tx_bufs a ! i) (tx_posted_slots a))"
  from ok have tx: "ed_tx_at ?m a" "ed_tx_ok a" and rx: "ed_rx_ok a" by (simp_all add: ed_ok_def ed_tx_at_tdh)
  note l = ed_tx_ok_less [OF tx(2)]
  have rd: "edunic_reg_read EDUNIC_REG_TDH a = (reg EDUNIC_REG_TDH a, a)" "edunic_reg_read EDUNIC_REG_TDT a = (reg EDUNIC_REG_TDT a, a)"
    by (simp_all add: reg_read_plain edunic_regs)
  have hd: "reg EDUNIC_REG_TDH a = of_nat ?m" by (simp add: tdh_def)
  have tl: "reg EDUNIC_REG_TDT a = of_nat ?h" using tx(1) by (auto simp: ed_tx_at_def)
  have u: "ring_used 256 ?m ?h \<le> EDUNIC_RING_SIZE" using ring_used_less l by (simp add: EDUNIC_RING_SIZE_def less_imp_le)
  from work_loop_ok [OF tx(1) rx u, of mem 0] obtain b as where
    loop: "edunic_tx_work_loop mem EDUNIC_RING_SIZE 0 (of_nat ?m) (of_nat ?h) a = Some (of_nat ?h, 0 < ring_used 256 ?m ?h, b, as)"
    "quiet as" and w: "work_ok ?h a b ?W" by (auto simp: tx_posted_slots_def)
  have split: "ed_inflight x = ring_skb (tx_bufs x) (ring_slots 256 (t_next_to_clean (ad_tx x)) (t_next_to_use (ad_tx x)))" for x
    by (simp add: ed_inflight_def tx_all_def)
  show ?thesis
  proof (cases "?m = ?h")
    case True
    then have "?W = []" by (simp add: tx_posted_slots_def)
    moreover have "edunic_tx_work_loop mem EDUNIC_RING_SIZE 0 (of_nat ?m) (of_nat ?h) a = Some (of_nat ?h, False, a, [])"
      using True by (simp add: EDUNIC_RING_SIZE_def numeral_eq_Suc)
    then have "edunic_hw_tx_worker mem prep a = Some (a, [D_readl EDUNIC_REG_TDH, D_readl EDUNIC_REG_TDT])"
      by (simp add: edunic_hw_tx_worker_def rd hd tl)
    moreover have "ed_posted a = []" using True by (simp add: ed_posted_def tx_posted_slots_def)
    ultimately show ?thesis using that [of a "[D_readl EDUNIC_REG_TDH, D_readl EDUNIC_REG_TDT]"] ok by simp
  next
    case False
    then have pos: "0 < ring_used 256 ?m ?h" using ring_used_0_iff [of ?m 256 ?h] l by (metis neq0_conv)
    define c where "c = edunic_reg_write EDUNIC_REG_ICS EDUNIC_INT_TX (edunic_reg_write EDUNIC_REG_TDH (of_nat ?h) b)"
    obtain r a' as' where i: "edunic_intr prep c = (r, a', as')" by (cases "edunic_intr prep c")
    have s: "side_same c a'" "quiet as'" using intr_same [OF i] by auto
    have x: "edunic_hw_tx_worker mem prep a = Some (a', [D_readl EDUNIC_REG_TDH, D_readl EDUNIC_REG_TDT] @ as @ [D_writel EDUNIC_REG_TDH (of_nat ?h), D_writel EDUNIC_REG_ICS EDUNIC_INT_TX] @ as')"
      using loop(1) pos i by (simp add: edunic_hw_tx_worker_def rd hd tl Let_def c_def [symmetric])
    have cm: "tdh c = ?h" using l by (simp add: c_def tdh_def reg_write_other reg_write_same edunic_regs unat_idx)
    have "ed_tx_at ?h c"
      using w by (auto simp: work_ok_def ed_tx_at_def c_def reg_write_other edunic_regs)
    then have "ed_tx_ok c" by (simp add: ed_tx_at_tdh cm)
    moreover have rs: "rx_same b c" by (simp add: c_def edunic_regs)
    then have "ed_rx_ok c" using w by (simp add: work_ok_def rx_same_views [OF rs])
    ultimately have okc: "ed_ok c" by (simp add: ed_ok_def)
    have v: "ed_inflight c = ed_inflight a" "ed_live c = ed_live a" "ed_posted c = []" "tx_full c = tx_full a"
      using w by (simp_all add: ed_inflight_def ed_live_def ed_posted_def tx_all_def tx_posted_slots_def cm tx_full_def)
        (simp_all add: c_def work_ok_def tx_bufs_def)
    have "tx_full a' = tx_full c" using s(1) by (simp add: side_same_def tx_same_def tx_full_def)
    moreover have "rx_pending c = rx_pending b" "rx_free c = rx_free b" "rx_total c = rx_total b" "ad_stats c = ad_stats b"
      "ad_stopped c = ad_stopped b" "ad_wq c = ad_wq b" "ad_irq c = ad_irq b"
      using rx_same_views [OF rs] by (simp_all add: c_def)
    moreover have "ad_stopped a' = ad_stopped c" "ad_wq a' = ad_wq c" "ad_irq a' = ad_irq c" using s(1) by (simp_all add: side_same_def)
    ultimately show ?thesis using that [OF x] loop(2) w s(2) v okc side_same_views [OF s(1)] by (simp add: work_ok_def)
  qed
qed

end
