(* ===== verification/Edunic_Run.thy ===== *)
theory Edunic_Run
  imports Edunic_Work "HOL-Library.Sublist"
begin

text \<open>
  The interpretation of the transmit contract for edunic, and runs of the whole adapter: any
  sequence of the kernel's calls, of the engine, of the link timer and of interrupts.
\<close>

section \<open>The transmit contract holds\<close>

definition edunic_reap :: "edunic_adapter \<Rightarrow> (edunic_adapter \<times> drv_act list) option" where
  "edunic_reap a = map_option snd (edunic_clean_tx_irq a)"

definition edunic_engine :: "(nat \<Rightarrow> u64 option) \<times> bool \<Rightarrow> edunic_adapter \<Rightarrow> edunic_adapter" where
  "edunic_engine e a = (case edunic_hw_tx_worker (fst e) (snd e) a of Some (a', _) \<Rightarrow> a' | None \<Rightarrow> a)"

lemma engine_ok:
  assumes "ed_ok a"
  shows "ed_ok (edunic_engine e a)" "ed_inflight (edunic_engine e a) = ed_inflight a"
    "ed_live (edunic_engine e a) = ed_live a" "ad_stopped (edunic_engine e a) = ad_stopped a"
    "tx_full (edunic_engine e a) = tx_full a" "ed_posted (edunic_engine e a) = []"
proof -
  obtain a' as where w: "edunic_hw_tx_worker (fst e) (snd e) a = Some (a', as)" "ed_ok a'"
    "ed_inflight a' = ed_inflight a" "ed_live a' = ed_live a" "ed_posted a' = []" "ad_stopped a' = ad_stopped a" "tx_full a' = tx_full a"
    by (rule worker_ok [OF assms, of "fst e" "snd e"]) (rule that; assumption)
  have "edunic_engine e a = a'" by (simp add: edunic_engine_def w(1))
  with w show "ed_ok (edunic_engine e a)" "ed_inflight (edunic_engine e a) = ed_inflight a"
    "ed_live (edunic_engine e a) = ed_live a" "ad_stopped (edunic_engine e a) = ad_stopped a"
    "tx_full (edunic_engine e a) = tx_full a" "ed_posted (edunic_engine e a) = []" by simp_all
qed

lemma reap_ok:
  assumes ok: "ed_ok a"
  obtains a' as where "edunic_reap a = Some (a', as)" "ed_ok a'" "ed_inflight a = freed as @ ed_inflight a'"
    "ed_live a = unmapped as @ ed_live a'" "mapped as = []"
    "ad_stopped a' = (ad_stopped a \<and> tx_done_slots a = [])" "tx_full a' \<longrightarrow> tx_full a \<and> tx_done_slots a = []"
proof -
  have tx: "ed_tx_ok a" using ok by (simp add: ed_ok_def)
  obtain a' as t s where
    x: "edunic_clean_tx_irq a = Some (length (tx_done_slots a), a', as)" and
    a': "a' = a\<lparr>ad_tx := t, ad_stats := s, ad_stopped := (ad_stopped a \<and> tx_done_slots a = [])\<rparr>" and
    v: "ed_tx_ok a'" "freed as = ring_skb (tx_bufs a) (tx_done_slots a)" "mapped as = []" "ed_inflight a' = ed_posted a"
      "ed_live a = unmapped as @ ed_live a'" and i: "t_next_to_clean t = tdh a" "t_next_to_use t = t_next_to_use (ad_tx a)"
    by (rule clean_tx_ok [OF tx]) (rule that; assumption)
  have "rx_same a a'" by (simp add: a')
  from rx_same_views(1) [OF this] have oka: "ed_ok a'" using ok v(1) by (simp add: ed_ok_def)
  have inf: "ed_inflight a = freed as @ ed_inflight a'"
    using tx_inflight_split [OF tx] v by simp
  have full: "tx_full a' \<longrightarrow> tx_full a \<and> tx_done_slots a = []"
  proof
    assume "tx_full a'"
    then have "length (ed_inflight a') = 255" using tx_full_inflight [OF v(1)] by simp
    moreover have "length (ed_inflight a) \<le> 255"
      using ed_ix.used_le ed_tx_ok_less [OF tx] by (simp add: ed_inflight_def ring_skb_def tx_all_def)
    ultimately have "length (ed_inflight a) = 255" "freed as = []" using inf by simp_all
    then show "tx_full a \<and> tx_done_slots a = []" using tx_full_inflight [OF tx] v(2) by (simp add: ring_skb_def)
  qed
  have y: "edunic_reap a = Some (a', as)" unfolding edunic_reap_def x by simp
  have "ad_stopped a' = (ad_stopped a \<and> tx_done_slots a = [])" unfolding a' by simp
  from that [OF y oka inf v(5,3) this full] show ?thesis .
qed

definition ed_xmit_post :: "sk_buff \<Rightarrow> edunic_adapter \<Rightarrow> netdev_tx \<times> edunic_adapter \<times> drv_act list \<Rightarrow> bool" where
  "ed_xmit_post b a ans = (case ans of (r, a', as) \<Rightarrow>
     ed_ok a' \<and> ed_live a' = ed_live a @ mapped as \<and> unmapped as = [] \<and> delivered as = [] \<and> rx_same a a' \<and>
     rx_dropped (ad_stats a') = rx_dropped (ad_stats a) \<and>
     (if r = NETDEV_TX_BUSY then tx_full a \<and> ed_inflight a' = ed_inflight a \<and> ed_posted a' = ed_posted a \<and> freed as = [] \<and>
        a' = a\<lparr>ad_stopped := True\<rparr>
      else \<not> tx_full a \<and> ad_stopped a' = (ad_stopped a \<or> tx_full a') \<and>
        (ed_inflight a' = ed_inflight a @ [b] \<and> ed_posted a' = ed_posted a @ [b] \<and> freed as = [] \<or>
         ed_inflight a' = ed_inflight a \<and> ed_posted a' = ed_posted a \<and> freed as = [b])))"

lemma edunic_xmit_ok:
  assumes ok: "ed_ok a"
  shows "\<exists>ans. edunic_start_xmit (addr, err) b a = Some ans \<and> ed_xmit_post b a ans \<and>
    (\<not> err \<longrightarrow> fst ans = NETDEV_TX_OK \<longrightarrow> ed_inflight (fst (snd ans)) = ed_inflight a @ [b] \<and>
       ed_posted (fst (snd ans)) = ed_posted a @ [b] \<and> mapped (snd (snd ans)) = [(DMA_TO_DEVICE, addr, skb_len b)])
    \<and> (err \<longrightarrow> ed_inflight (fst (snd ans)) = ed_inflight a \<and> ed_posted (fst (snd ans)) = ed_posted a \<and> mapped (snd (snd ans)) = [])"
proof -
  have tx: "ed_tx_ok a" using ok by (simp add: ed_ok_def)
  consider (full) "tx_full a" | (fail) "\<not> tx_full a" err | (put) "\<not> tx_full a" "\<not> err" by blast
  then show ?thesis
  proof cases
    case full
    from xmit_full [OF tx full, of "(addr, err)" b] full ok show ?thesis
      by (simp add: ed_xmit_post_def ed_ok_def rx_same_views [of a "a\<lparr>ad_stopped := True\<rparr>"])
  next
    case fail
    let ?a = "a\<lparr>ad_stats := (ad_stats a)\<lparr>tx_errors := tx_errors (ad_stats a) + 1\<rparr>\<rparr>"
    from xmit_error [OF tx fail(1), of addr b] fail ok show ?thesis
      by (auto simp: ed_xmit_post_def ed_ok_def rx_same_views [of a ?a])
  next
    case put
    obtain a' t as where
      x: "edunic_start_xmit (addr, False) b a = Some (NETDEV_TX_OK, a', as)" and
      a': "a' = (edunic_reg_write EDUNIC_REG_TDT (of_nat (t_next_to_use t)) (a\<lparr>ad_tx := t\<rparr>))\<lparr>ad_stopped := (ad_stopped a \<or> tx_full a')\<rparr>" and
      v: "ed_tx_ok a'" "ed_inflight a' = ed_inflight a @ [b]" "ed_posted a' = ed_posted a @ [b]"
      "ed_live a' = ed_live a @ mapped as" "unmapped as = []" "freed as = []" "delivered as = []"
      "mapped as = [(DMA_TO_DEVICE, addr, skb_len b)]"
      by (rule xmit_put [OF tx put(1), of addr b]) (rule that; assumption)
    have rx: "rx_same a a'" by (subst a') (simp add: edunic_regs)
    have st: "ad_stopped a' = (ad_stopped a \<or> tx_full a')" "ad_stats a' = ad_stats a"
      using arg_cong [OF a', of ad_stopped] arg_cong [OF a', of ad_stats] by simp_all
    have "ed_ok a'" using ok v(1) rx_same_views(1) [OF rx] by (simp add: ed_ok_def)
    then show ?thesis using x put v rx st by (simp add: ed_xmit_post_def)
  qed
qed

lemma ed_xmit_postD:
  "ed_ok a \<Longrightarrow> edunic_start_xmit e b a = Some ans \<Longrightarrow> ed_xmit_post b a ans"
  using edunic_xmit_ok [of a "fst e" "snd e" b] by auto

interpretation edunic: tx_dma_driver ed_ok ed_inflight edunic_start_xmit edunic_reap edunic_engine ed_live
proof unfold_locales
  fix s :: edunic_adapter and e :: "u64 \<times> bool" and h :: "(nat \<Rightarrow> u64 option) \<times> bool" and b r s' as
  assume ok: "ed_ok s"
  from edunic_xmit_ok [OF ok, of "fst e" "snd e" b]
  show "\<exists>r s' as. edunic_start_xmit e b s = Some (r, s', as)" by auto
  from reap_ok [OF ok] show "\<exists>s' as. edunic_reap s = Some (s', as)" by metis
  show "ed_ok (edunic_engine h s)" "ed_inflight (edunic_engine h s) = ed_inflight s"
    "ed_live (edunic_engine h s) = ed_live s" using engine_ok [OF ok] by auto
  { assume "edunic_start_xmit e b s = Some (r, s', as)"
    from ed_xmit_postD [OF ok this] show "ed_ok s'" "ed_live s' = ed_live s @ mapped as \<and> unmapped as = []"
      by (auto simp: ed_xmit_post_def) }
  { assume "edunic_start_xmit e b s = Some (NETDEV_TX_BUSY, s', as)"
    from ed_xmit_postD [OF ok this] show "ed_inflight s' = ed_inflight s \<and> freed as = []"
      by (auto simp: ed_xmit_post_def) }
  { assume "edunic_start_xmit e b s = Some (NETDEV_TX_OK, s', as)"
    from ed_xmit_postD [OF ok this] show "ed_inflight s' = ed_inflight s @ [b] \<and> freed as = [] \<or>
        ed_inflight s' = ed_inflight s \<and> freed as = [b]"
      by (auto simp: ed_xmit_post_def) }
  { assume "edunic_reap s = Some (s', as)"
    with reap_ok [OF ok] show "ed_ok s'" "ed_inflight s = freed as @ ed_inflight s'"
        "ed_live s = unmapped as @ ed_live s' \<and> mapped as = []" by (metis option.inject prod.inject)+ }
qed

end
