(* ===== verification/Edunic_Loop.thy ===== *)
theory Edunic_Loop
  imports Edunic_Props
begin

text \<open>
  The whole adapter under any sequence of calls: the poll, the step relation of the adapter as
  a function on operations, and what a run does to the frames between transmission and the
  network stack.
\<close>

section \<open>The poll\<close>

lemma poll_ok:
  assumes ok: "ed_ok a" and w: "w = min (nat budget) (rx_done_count a)"
  obtains a' as j where "edunic_poll env complete budget a = Some ((if int w < budget then int w else budget), a', as)"
    "ed_ok a'" "ed_inflight a = freed as @ ed_posted a" "ed_inflight a' = ed_posted a" "ed_posted a' = ed_posted a"
    "rx_pending a = delivered as @ rx_pending a'" "rx_done_count a' + w = rx_done_count a"
    "rx_total a' + w = rx_total a + j" "j \<le> w" "\<forall>i < j. posted_ans (env i)" "j < w \<longrightarrow> \<not> posted_ans (env j)"
    "rx_dropped (ad_stats a') = rx_dropped (ad_stats a)" "ad_irq a' = ad_irq a" "set (ed_live a') \<subseteq> set (ed_live a)"
    "irq_mask a' = (if int w < budget \<and> complete then irq_mask a OR (EDUNIC_INT_RX OR EDUNIC_INT_TX) else irq_mask a)"
proof -
  have tx: "ed_tx_ok a" and rx: "ed_rx_ok a" using ok by (simp_all add: ed_ok_def)
  obtain b as1 t s where c: "edunic_clean_tx_irq a = Some (length (tx_done_slots a), b, as1)" and
    b: "b = a\<lparr>ad_tx := t, ad_stats := s, ad_stopped := (ad_stopped a \<and> tx_done_slots a = [])\<rparr>" and
    cv: "ed_tx_ok b" "freed as1 = ring_skb (tx_bufs a) (tx_done_slots a)" "delivered as1 = []"
    "ed_inflight b = ed_posted a" "ed_posted b = ed_posted a" "ed_live a = unmapped as1 @ ed_live b" and dr: "rx_dropped s = rx_dropped (ad_stats a)"
    by (rule clean_tx_ok [OF tx]) (rule that; assumption)
  have sb: "rx_same a b" and fb: "ad_irq b = ad_irq a" "irq_mask b = irq_mask a" "ad_stats b = s" by (simp_all add: b)
  note v = rx_same_views [OF sb]
  have rxb: "ed_rx_ok b" using rx v(1) by simp
  have wb: "w = min (nat budget) (rx_done_count b)" using w v(5) by simp
  obtain j d as2 where r: "edunic_clean_rx_irq env budget b = Some (int w, d, as2)" "j \<le> w"
    "\<forall>i < j. posted_ans (env i)" "j < w \<longrightarrow> \<not> posted_ans (env j)"
    "ed_rx_ok d" "rx_total d + w = rx_total b + j" "rx_done_count d + w = rx_done_count b"
    "rx_pending b = delivered as2 @ rx_pending d"
    "tx_same b d" "ad_irq d = ad_irq b" "irq_mask d = irq_mask b"
    "rx_dropped (ad_stats d) = rx_dropped (ad_stats b)" "freed as2 = []"
    by (rule clean_rx_irq_ok [OF rxb wb, of env]) (rule that; assumption)
  define up where "up = (int w < budget \<and> complete)"
  define a' where "a' = (if up then edunic_reg_write EDUNIC_REG_IMS (EDUNIC_INT_RX OR EDUNIC_INT_TX) d else d)"
  define as where "as = as1 @ as2 @ (if int w < budget then D_napi_complete (int w)
    # (if complete then [D_writel EDUNIC_REG_IMS (EDUNIC_INT_RX OR EDUNIC_INT_TX)] else []) else [])"
  have x: "edunic_poll env complete budget a = Some ((if int w < budget then int w else budget), a', as)"
    using c r(1) by (simp add: edunic_poll_def a'_def as_def up_def)
  have s: "rx_same d a'" "tx_same d a'" by (simp_all add: a'_def edunic_regs)
  note tv = tx_same_views [OF same_trans(1) [OF r(9) s(2)]] and rv = rx_same_views [OF s(1)]
  have oka: "ed_ok a'" using cv(1) r(5) tv(1) rv(1) by (simp add: ed_ok_def)
  have q: "freed as = freed as1" "delivered as = delivered as2" using cv(3) r(13) by (simp_all add: as_def)
  have m: "irq_mask a' = (if up then irq_mask a OR (EDUNIC_INT_RX OR EDUNIC_INT_TX) else irq_mask a)"
    using r(11) fb(2) by (simp add: a'_def)
  have k: "ad_irq a' = ad_irq a" "rx_dropped (ad_stats a') = rx_dropped (ad_stats a)"
    using r(10,12) fb dr by (simp_all add: a'_def)
  show ?thesis
  proof (rule that [OF x oka])
    show "ed_inflight a = freed as @ ed_posted a" using tx_inflight_split [OF tx] cv(2) q(1) by simp
    show "ed_inflight a' = ed_posted a" "ed_posted a' = ed_posted a" using tv cv(4,5) by simp_all
    show "set (ed_live a') \<subseteq> set (ed_live a)" using tv(3) cv(6) by simp
    show "rx_pending a = delivered as @ rx_pending a'" using r(8) v(2) rv(2) q(2) by simp
    show "rx_done_count a' + w = rx_done_count a" "rx_total a' + w = rx_total a + j" using r(6,7) v rv by simp_all
  qed (use r(2-4) k m in \<open>simp_all add: up_def\<close>)
qed

section \<open>Runs of the adapter\<close>

datatype ed_op =
    E_xmit u64 bool sk_buff
  | E_work "nat \<Rightarrow> u64 option" bool
  | E_poll "nat \<Rightarrow> rx_alloc" bool int
  | E_intr bool
  | E_link bool
  | E_open irq_env
  | E_stop
  | E_mtu int
  | E_mac "u8 list \<Rightarrow> int" "u8 list"

text \<open>The result of a step: the adapter, the packets posted to the device, and the log.\<close>

fun ed_step :: "ed_op \<Rightarrow> edunic_adapter \<Rightarrow> (edunic_adapter \<times> sk_buff list \<times> drv_act list) option" where
  "ed_step (E_xmit addr err b) a =
     map_option (\<lambda>(r, a', as). (a', (if r = NETDEV_TX_OK \<and> \<not> err then [b] else []), handed r b @ as)) (edunic_start_xmit (addr, err) b a)"
| "ed_step (E_work mem prep) a = map_option (\<lambda>(a', as). (a', [], as)) (edunic_hw_tx_worker mem prep a)"
| "ed_step (E_poll env complete budget) a = map_option (\<lambda>(w, a', as). (a', [], as)) (edunic_poll env complete budget a)"
| "ed_step (E_intr prep) a = (case edunic_intr prep a of (r, a', as) \<Rightarrow> Some (a', [], as))"
| "ed_step (E_link prep) a = (case edunic_link_timer_fn prep a of (a', as) \<Rightarrow> Some (a', [], as))"
| "ed_step (E_open e) a = (case edunic_open e a of (r, a', as) \<Rightarrow> Some (a', [], as))"
| "ed_step E_stop a = (case edunic_stop a of (r, a', as) \<Rightarrow> Some (a', [], as))"
| "ed_step (E_mtu m) a = Some (snd (edunic_change_mtu m a), [], [])"
| "ed_step (E_mac check addr) a = (case edunic_set_mac_address check addr a of (r, a', as) \<Rightarrow> Some (a', [], as))"

fun ed_run :: "edunic_adapter \<Rightarrow> ed_op list \<Rightarrow> (edunic_adapter \<times> sk_buff list \<times> drv_act list) option" where
  "ed_run a [] = Some (a, [], [])"
| "ed_run a (op # ops) = (case ed_step op a of None \<Rightarrow> None
     | Some (a', sent, as) \<Rightarrow> map_option (\<lambda>(t, sent', as'). (t, sent @ sent', as @ as')) (ed_run a' ops))"

text \<open>Calls that touch neither ring, whatever they do to the registers, the queue and the carrier.\<close>

definition apart :: "edunic_adapter \<Rightarrow> edunic_adapter \<Rightarrow> bool" where
  "apart a a' \<longleftrightarrow> tx_same a a' \<and> rx_same a a' \<and> ad_stats a' = ad_stats a"

lemma apart_views:
  assumes "apart a a'"
  shows "ed_ok a' = ed_ok a" "ed_inflight a' = ed_inflight a" "ed_posted a' = ed_posted a" "ed_live a' = ed_live a"
    "rx_pending a' = rx_pending a" "rx_total a' = rx_total a" "rx_done_count a' = rx_done_count a" "ad_stats a' = ad_stats a"
  using assms by (simp_all add: apart_def ed_ok_def tx_same_views [of a a'] rx_same_views [of a a'])

lemma same_misc [simp]:
  "tx_same a (a'\<lparr>ad_mtu := m\<rparr>) = tx_same a a'" "rx_same a (a'\<lparr>ad_mtu := m\<rparr>) = rx_same a a'"
  "tx_same a (a'\<lparr>ad_addr := l\<rparr>) = tx_same a a'" "rx_same a (a'\<lparr>ad_addr := l\<rparr>) = rx_same a a'"
  "tx_same a (a'\<lparr>ad_msi := b\<rparr>) = tx_same a a'" "rx_same a (a'\<lparr>ad_msi := b\<rparr>) = rx_same a a'"
  "tx_same a (a'\<lparr>ad_irq := n\<rparr>) = tx_same a a'" "rx_same a (a'\<lparr>ad_irq := n\<rparr>) = rx_same a a'"
  by (simp_all add: tx_same_def rx_same_def)

lemma link_apart: "edunic_link_timer_fn prep a = (a', as) \<Longrightarrow> apart a a' \<and> quiet as"
proof -
  assume x: "edunic_link_timer_fn prep a = (a', as)"
  define b where "b = edunic_reg_write EDUNIC_REG_ICS EDUNIC_INT_LSC (edunic_reg_write EDUNIC_REG_STATUS
    (reg EDUNIC_REG_STATUS (a\<lparr>ad_link_up := True\<rparr>) OR EDUNIC_STATUS_LINKUP) (a\<lparr>ad_link_up := True\<rparr>))"
  obtain r c bs where i: "edunic_intr prep b = (r, c, bs)" by (cases "edunic_intr prep b")
  have "apart a b" by (simp add: apart_def b_def edunic_regs)
  moreover have "side_same b c" "quiet bs" using intr_same [OF i] by simp_all
  moreover have "a' = c \<and> quiet as = quiet bs"
    using x i by (auto simp: edunic_link_timer_fn_def reg_read_plain edunic_regs Let_def b_def)
  ultimately show ?thesis by (auto simp: apart_def side_same_def intro: same_trans)
qed

lemma open_apart: "edunic_open e a = (r, a', as) \<Longrightarrow> apart a a'"
  by (auto simp: edunic_open_def edunic_setup_interrupts_def edunic_hw_start_def reg_read_plain edunic_regs Let_def apart_def
      split: if_splits prod.splits)

lemma stop_apart: "edunic_stop a = (r, a', as) \<Longrightarrow> apart a a'"
  by (auto simp: edunic_stop_def edunic_hw_stop_def reg_read_plain edunic_regs Let_def apart_def)

lemma mac_apart: "edunic_set_mac_address check addr a = (r, a', as) \<Longrightarrow> apart a a'"
  by (auto simp: edunic_set_mac_address_def edunic_hw_set_mac_def edunic_regs Let_def apart_def split: if_splits)

text \<open>Nothing these calls do frees, maps or delivers a packet.\<close>

lemma open_quiet: "edunic_open e a = (r, a', as) \<Longrightarrow> freed as = [] \<and> delivered as = []"
  by (auto simp: edunic_open_def edunic_setup_interrupts_def edunic_hw_start_def reg_read_plain edunic_regs Let_def
      split: if_splits prod.splits)

lemma stop_quiet: "edunic_stop a = (r, a', as) \<Longrightarrow> freed as = [] \<and> delivered as = []"
  by (auto simp: edunic_stop_def edunic_hw_stop_def reg_read_plain edunic_regs Let_def edunic_free_interrupts_def)

lemma mac_quiet: "edunic_set_mac_address check addr a = (r, a', as) \<Longrightarrow> freed as = [] \<and> delivered as = []"
  by (auto simp: edunic_set_mac_address_def edunic_hw_set_mac_def Let_def split: if_splits)

section \<open>The flow of frames\<close>

text \<open>
  \<open>flow a sent a' as k j\<close>: what was received, waiting for the device or posted in between is
  delivered or still there, in the same order, but for \<open>k\<close> frames the device dropped and counted
  and \<open>j\<close> it never copied.
\<close>

definition flow :: "edunic_adapter \<Rightarrow> sk_buff list \<Rightarrow> edunic_adapter \<Rightarrow> drv_act list \<Rightarrow> nat \<Rightarrow> nat \<Rightarrow> bool" where
  "flow a sent a' as k j \<longleftrightarrow>
     subseq (delivered as @ rx_pending a' @ map wire (ed_posted a')) (rx_pending a @ map wire (ed_posted a) @ map wire sent) \<and>
     length (delivered as) + length (rx_pending a') + length (ed_posted a') + k + j =
       length (rx_pending a) + length (ed_posted a) + length sent \<and>
     rx_dropped (ad_stats a') = rx_dropped (ad_stats a) + of_nat k"

lemma ed_flow_trans:
  assumes "flow a s1 b as1 k1 j1" "flow b s2 c as2 k2 j2"
  shows "flow a (s1 @ s2) c (as1 @ as2) (k1 + k2) (j1 + j2)"
proof -
  let ?P = "\<lambda>x. rx_pending x @ map wire (ed_posted x)"
  have "subseq (delivered as2 @ ?P c) (?P b @ map wire s2)" using assms(2) by (simp add: flow_def)
  then have "subseq (delivered as1 @ (delivered as2 @ ?P c)) (delivered as1 @ (?P b @ map wire s2))"
    by (rule list_emb_append_mono [OF subseq_order.order_refl])
  also have "subseq (delivered as1 @ (?P b @ map wire s2)) ((?P a @ map wire s1) @ map wire s2)"
    using list_emb_append_mono [OF assms(1) [unfolded flow_def, THEN conjunct1], of "map wire s2" "map wire s2"] by simp
  finally show ?thesis using assms by (simp add: flow_def add.assoc)
qed

lemma ed_flow_refl: "rx_pending a' = rx_pending a \<Longrightarrow> ed_posted a' = ed_posted a \<Longrightarrow> delivered as = [] \<Longrightarrow>
   rx_dropped (ad_stats a') = rx_dropped (ad_stats a) \<Longrightarrow> flow a [] a' as 0 0"
  by (simp add: flow_def)

lemma work_frames_subseq: "subseq (work_frames mem n bs) (map (\<lambda>b. wire (the (tb_skb b))) bs)"
  by (induction bs arbitrary: n) (auto simp: looped_def)

lemma work_frames_all:
  "\<forall>n. mem n \<noteq> None \<Longrightarrow> \<forall>b \<in> set bs. tb_dma b \<noteq> 0 \<and> wire (the (tb_skb b)) \<noteq> [] \<Longrightarrow>
   work_frames mem n bs = map (\<lambda>b. wire (the (tb_skb b))) bs"
  by (induction bs arbitrary: n) (simp_all add: looped_def)

text \<open>What the loopback needs to copy a frame: a bus address that is not 0, a length that is not 0, memory.\<close>

definition copyable :: "edunic_adapter \<Rightarrow> bool" where
  "copyable a \<longleftrightarrow> (\<forall>x \<in> set (ed_live a). fst (snd x) \<noteq> 0) \<and> (\<forall>s \<in> set (ed_inflight a). wire s \<noteq> [])"

fun sound_op :: "ed_op \<Rightarrow> bool" where
  "sound_op (E_xmit addr err b) = (addr \<noteq> 0 \<and> wire b \<noteq> [])"
| "sound_op (E_work mem prep) = (\<forall>n. mem n \<noteq> None)"
| "sound_op _ = True"

lemma posted_frames: "map (\<lambda>b. wire (the (tb_skb b))) (map (\<lambda>i. tx_bufs a ! i) (tx_posted_slots a)) = map wire (ed_posted a)"
  by (simp add: ed_posted_def ring_skb_def)

lemma copyable_posted:
  assumes "copyable a" "ed_tx_ok a"
  shows "\<forall>b \<in> set (map (\<lambda>i. tx_bufs a ! i) (tx_posted_slots a)). tb_dma b \<noteq> 0 \<and> wire (the (tb_skb b)) \<noteq> []"
  using assms ring_in_orderD [OF ed_tx_ok_less(5) [OF assms(2)]]
  by (simp add: copyable_def ed_live_def ed_inflight_def ring_skb_def ring_dma_def tx_all_def tx_posted_slots_def ball_Un)

lemma work_flow:
  assumes ok: "ed_ok a"
  shows "\<exists>a' as k j. edunic_hw_tx_worker mem prep a = Some (a', as) \<and> ed_ok a' \<and> rx_total a' = rx_total a \<and>
     delivered as = [] \<and> flow a [] a' as k j \<and> (copyable a \<longrightarrow> copyable a' \<and> ((\<forall>n. mem n \<noteq> None) \<longrightarrow> j = 0))"
proof -
  let ?W = "work_frames mem 0 (map (\<lambda>i. tx_bufs a ! i) (tx_posted_slots a))"
  obtain a' as where w: "edunic_hw_tx_worker mem prep a = Some (a', as)" "ed_ok a'" "quiet as"
    "ed_inflight a' = ed_inflight a" "ed_live a' = ed_live a" "ed_posted a' = []"
    "rx_pending a' = rx_pending a @ take (rx_free a) ?W"
    "rx_dropped (ad_stats a') = rx_dropped (ad_stats a) + of_nat (length ?W - rx_free a)" "rx_total a' = rx_total a"
    by (rule worker_ok [OF ok, of mem prep]) (rule that; assumption)
  have sub: "subseq ?W (map wire (ed_posted a))"
    using work_frames_subseq [of mem 0 "map (\<lambda>i. tx_bufs a ! i) (tx_posted_slots a)"] unfolding posted_frames .
  have "subseq (take (rx_free a) ?W) ?W" by (rule prefix_imp_subseq [OF take_is_prefix])
  from subseq_order.trans [OF this sub] have "subseq (rx_pending a') (rx_pending a @ map wire (ed_posted a))"
    unfolding w(7) by (rule list_emb_append_mono [OF subseq_order.order_refl])
  moreover have "length ?W \<le> length (ed_posted a)" using list_emb_length [OF sub] by simp
  then have "length (rx_pending a') + (length ?W - rx_free a) + (length (ed_posted a) - length ?W)
      = length (rx_pending a) + length (ed_posted a)" unfolding w(7) by (simp add: min_def)
  ultimately have "flow a [] a' as (length ?W - rx_free a) (length (ed_posted a) - length ?W)"
    using w(3,6,8) by (simp add: flow_def quiet_def)
  moreover have all: "length (ed_posted a) - length ?W = 0" if "copyable a" "\<forall>n. mem n \<noteq> None"
    using work_frames_all [OF that(2) copyable_posted [OF that(1)], of 0] ok unfolding posted_frames by (simp add: ed_ok_def)
  moreover have "copyable a' = copyable a" using w(4,5) by (simp add: copyable_def)
  ultimately show ?thesis using w(1-3,9) unfolding quiet_def by blast
qed

end
