(* ===== verification/Edunic_Flow_Props.thy ===== *)
theory Edunic_Flow_Props
  imports Edunic_Loop
begin

text \<open>
  Properties of whole runs of the edunic adapter: the loopback as a lossless ordered channel,
  the poll, the receive ring that never grows back, the link timer after a stop, and the
  station address.
\<close>

section \<open>Every step\<close>

definition step_ok :: "ed_op \<Rightarrow> edunic_adapter \<Rightarrow> bool" where
  "step_ok op a \<longleftrightarrow> (\<exists>a' sent as k j. ed_step op a = Some (a', sent, as) \<and> ed_ok a' \<and> rx_total a' \<le> rx_total a \<and>
     (rx_total a = 0 \<longrightarrow> delivered as = []) \<and> flow a sent a' as k j \<and>
     (copyable a \<and> sound_op op \<longrightarrow> copyable a' \<and> j = 0))"

lemma step_apart:
  assumes "ed_step op a = Some (a', [], as)" "apart a a'" "delivered as = []" "ed_ok a"
  shows "step_ok op a"
proof -
  note v = apart_views [OF assms(2)]
  have "flow a [] a' as 0 0" by (rule ed_flow_refl) (simp_all add: v assms(3))
  moreover have "copyable a' = copyable a" by (simp add: copyable_def v)
  ultimately show ?thesis using assms v unfolding step_ok_def by (metis order_refl)
qed

lemma xmit_step_ok:
  assumes ok: "ed_ok a"
  shows "step_ok (E_xmit addr err b) a"
proof -
  from edunic_xmit_ok [OF ok, of addr err b] obtain r a' as where
    x: "edunic_start_xmit (addr, err) b a = Some (r, a', as)" and post: "ed_xmit_post b a (r, a', as)" and
    put: "\<not> err \<longrightarrow> r = NETDEV_TX_OK \<longrightarrow> ed_inflight a' = ed_inflight a @ [b] \<and> ed_posted a' = ed_posted a @ [b] \<and>
      mapped as = [(DMA_TO_DEVICE, addr, skb_len b)]" and
    fail: "err \<longrightarrow> ed_inflight a' = ed_inflight a \<and> ed_posted a' = ed_posted a \<and> mapped as = []" by auto
  from post have p: "ed_ok a'" "ed_live a' = ed_live a @ mapped as" "delivered as = []" "rx_same a a'"
    "rx_dropped (ad_stats a') = rx_dropped (ad_stats a)" by (simp_all add: ed_xmit_post_def)
  have busy: "a' = a\<lparr>ad_stopped := True\<rparr>" if "r = NETDEV_TX_BUSY" using post that by (simp add: ed_xmit_post_def)
  note v = rx_same_views [OF p(4)]
  define sent where "sent = (if r = NETDEV_TX_OK \<and> \<not> err then [b] else [])"
  have s: "ed_step (E_xmit addr err b) a = Some (a', sent, handed r b @ as)" by (simp add: x sent_def)
  have fl: "ed_posted a' = ed_posted a @ sent" "ed_inflight a' = ed_inflight a @ sent"
    using put fail busy by (cases r; cases err; simp add: sent_def)+
  then have "flow a sent a' (handed r b @ as) 0 0" using p v by (simp add: flow_def)
  moreover have "delivered (handed r b @ as) = []" using p(3) by simp
  moreover have "copyable a'" if "copyable a" "sound_op (E_xmit addr err b)"
  proof -
    have "mapped as = [] \<or> mapped as = [(DMA_TO_DEVICE, addr, skb_len b)]"
      using put fail busy p(2) by (cases r; cases err) auto
    with that p(2) fl(2) show ?thesis by (auto simp: copyable_def sent_def)
  qed
  ultimately show ?thesis using s p v unfolding step_ok_def by (metis order_refl)
qed

lemma poll_step_ok:
  assumes ok: "ed_ok a"
  shows "step_ok (E_poll env complete budget) a"
proof -
  define w where "w = min (nat budget) (rx_done_count a)"
  obtain a' as j where p: "edunic_poll env complete budget a = Some ((if int w < budget then int w else budget), a', as)"
    "ed_ok a'" "ed_inflight a = freed as @ ed_posted a" "ed_inflight a' = ed_posted a" "ed_posted a' = ed_posted a"
    "rx_pending a = delivered as @ rx_pending a'" "rx_total a' + w = rx_total a + j" "j \<le> w"
    "rx_dropped (ad_stats a') = rx_dropped (ad_stats a)" "set (ed_live a') \<subseteq> set (ed_live a)"
    by (rule poll_ok [OF ok w_def, of env complete]) (rule that; assumption)
  have "flow a [] a' as 0 0" using p by (simp add: flow_def)
  moreover have "copyable a \<longrightarrow> copyable a'" using p(3,4,10) by (auto simp: copyable_def)
  moreover have "rx_total a = 0 \<longrightarrow> delivered as = []"
  proof
    assume "rx_total a = 0"
    then have "rx_done_count a = 0" using rx_total_split [of a] ok by (simp add: ed_ok_def)
    then have "rx_pending a = []"
      by (auto simp: rx_pending_def rx_done_count_def ring_used_def ring_slots_def split: option.splits if_splits)
    with p(6) show "delivered as = []" by simp
  qed
  moreover have "ed_step (E_poll env complete budget) a = Some (a', [], as)" using p(1) by simp
  moreover have "rx_total a' \<le> rx_total a" using p(7,8) by simp
  ultimately show ?thesis using p(2) unfolding step_ok_def
    by (intro exI [of _ a'] exI [of _ "[]"] exI [of _ as] exI [of _ 0]) simp
qed

lemma ed_step_ok: "ed_ok a \<Longrightarrow> step_ok op a"
proof (cases op)
  case (E_xmit addr err b)
  then show "ed_ok a \<Longrightarrow> step_ok op a" using xmit_step_ok by simp
next
  case (E_work mem prep)
  assume "ed_ok a"
  from work_flow [OF this, of mem prep] E_work show ?thesis unfolding step_ok_def by (fastforce simp: E_work)
next
  case (E_poll env complete budget)
  then show "ed_ok a \<Longrightarrow> step_ok op a" using poll_step_ok by simp
next
  case (E_intr prep)
  assume ok: "ed_ok a"
  obtain r a' as where i: "edunic_intr prep a = (r, a', as)" by (cases "edunic_intr prep a")
  from intr_same [OF i] i E_intr ok show ?thesis by (intro step_apart [of _ _ a' as]) (simp_all add: side_same_def apart_def quiet_def)
next
  case (E_link prep)
  assume ok: "ed_ok a"
  obtain a' as where i: "edunic_link_timer_fn prep a = (a', as)" by (cases "edunic_link_timer_fn prep a")
  from link_apart [OF i] i E_link ok show ?thesis by (intro step_apart [of _ _ a' as]) (simp_all add: quiet_def)
next
  case (E_open e)
  assume ok: "ed_ok a"
  obtain r a' as where i: "edunic_open e a = (r, a', as)" by (cases "edunic_open e a")
  from open_apart [OF i] open_quiet [OF i] i E_open ok show ?thesis by (intro step_apart [of _ _ a' as]) simp_all
next
  case E_stop
  assume ok: "ed_ok a"
  obtain r a' as where i: "edunic_stop a = (r, a', as)" by (cases "edunic_stop a")
  from stop_apart [OF i] stop_quiet [OF i] i E_stop ok show ?thesis by (intro step_apart [of _ _ a' as]) simp_all
next
  case (E_mtu m)
  assume ok: "ed_ok a"
  with E_mtu show ?thesis by (intro step_apart [of _ _ "snd (edunic_change_mtu m a)" "[]"]) (simp_all add: edunic_change_mtu_def apart_def)
next
  case (E_mac check addr)
  assume ok: "ed_ok a"
  obtain r a' as where i: "edunic_set_mac_address check addr a = (r, a', as)" by (cases "edunic_set_mac_address check addr a")
  from mac_apart [OF i] mac_quiet [OF i] i E_mac ok show ?thesis by (intro step_apart [of _ _ a' as]) simp_all
qed

lemma ed_run_ok:
  "ed_ok a \<Longrightarrow> \<exists>t sent as k j. ed_run a ops = Some (t, sent, as) \<and> ed_ok t \<and> rx_total t \<le> rx_total a \<and>
     (rx_total a = 0 \<longrightarrow> delivered as = []) \<and> flow a sent t as k j \<and>
     (copyable a \<and> (\<forall>op \<in> set ops. sound_op op) \<longrightarrow> copyable t \<and> j = 0)"
proof (induction ops arbitrary: a)
  case Nil
  have "flow a [] a [] 0 0" by (rule ed_flow_refl) simp_all
  with Nil show ?case by auto
next
  case (Cons op ops)
  from ed_step_ok [OF Cons.prems, of op] obtain b s1 as1 k1 j1 where
    1: "ed_step op a = Some (b, s1, as1)" "ed_ok b" "rx_total b \<le> rx_total a" "rx_total a = 0 \<longrightarrow> delivered as1 = []"
    "flow a s1 b as1 k1 j1" "copyable a \<and> sound_op op \<longrightarrow> copyable b \<and> j1 = 0"
    unfolding step_ok_def by (elim exE conjE) (rule that; assumption)
  from Cons.IH [OF 1(2)] obtain t s2 as2 k2 j2 where
    2: "ed_run b ops = Some (t, s2, as2)" "ed_ok t" "rx_total t \<le> rx_total b" "rx_total b = 0 \<longrightarrow> delivered as2 = []"
    "flow b s2 t as2 k2 j2" "copyable b \<and> (\<forall>op \<in> set ops. sound_op op) \<longrightarrow> copyable t \<and> j2 = 0"
    by (elim exE conjE) (rule that; assumption)
  have "ed_run a (op # ops) = Some (t, s1 @ s2, as1 @ as2)" using 1(1) 2(1) by simp
  moreover have "rx_total t \<le> rx_total a" using 1(3) 2(3) by simp
  moreover have "rx_total a = 0 \<longrightarrow> delivered (as1 @ as2) = []" using 1(3,4) 2(4) by simp
  moreover have "copyable a \<and> (\<forall>op \<in> set (op # ops). sound_op op) \<longrightarrow> copyable t \<and> j1 + j2 = 0" using 1(6) 2(6) by simp
  ultimately show ?case using 2(2) ed_flow_trans [OF 1(5) 2(5)]
    by (intro exI [of _ t] exI [of _ "s1 @ s2"] exI [of _ "as1 @ as2"] exI [of _ "k1 + k2"] exI [of _ "j1 + j2"]) simp
qed

section \<open>A run over the loopback\<close>

definition posted_demo :: edunic_adapter where
  "posted_demo = fst (snd (the (edunic_alloc_rx_buffers (\<lambda>i. Posted i (\<lambda>n. 0) (of_nat (i + 1))) 255 ed_demo)))"

lemma posted_demo_ok: "ed_ok posted_demo" "rx_total posted_demo = 255" "rx_pending posted_demo = []" "ed_posted posted_demo = []"
  "copyable posted_demo"
proof -
  have ok: "ed_rx_ok ed_demo" "rx_total ed_demo + 255 \<le> 255" using ed_demo_ok by (simp_all add: ed_ok_def)
  obtain j a' as where r: "edunic_alloc_rx_buffers (\<lambda>i. Posted i (\<lambda>n. 0) (of_nat (i + 1))) 255 ed_demo = Some (j, a', as)"
    "j \<le> 255" "j < 255 \<longrightarrow> \<not> posted_ans (Posted j (\<lambda>n. 0) (of_nat (j + 1)))"
    "ed_rx_ok a'" "rx_total a' = rx_total ed_demo + j" "rx_pending a' = rx_pending ed_demo" "tx_same ed_demo a'"
    by (rule alloc_rx_buffers_ok [OF ok]) (rule that; assumption)
  have p: "posted_demo = a'" unfolding posted_demo_def r(1) by simp
  note v = tx_same_views [OF r(7)]
  have "j = 255" using r(2,3) by auto
  with r ed_demo_ok v show "ed_ok posted_demo" "rx_total posted_demo = 255" "rx_pending posted_demo = []" "ed_posted posted_demo = []"
    "copyable posted_demo" unfolding p by (simp_all add: ed_ok_def copyable_def)
qed

text \<open>
  Claim C3: the adapter is a lossless ordered channel but for counted drops.  From a good adapter,
  under any sequence of the kernel's calls, of the emulated engine, of interrupts and of the
  timer, the frames handed to the network stack, those still in the receive ring and those not
  yet fetched are, in this order, a subsequence of the frames that were there and those posted
  by \<open>edunic_start_xmit\<close>; and when copies never fail exactly the \<open>k\<close> frames that are missing were
  counted in \<open>rx_dropped\<close>.
\<close>
theorem edunic_loopback:
  assumes "ed_ok a" and "copyable a" and "\<forall>op \<in> set ops. sound_op op"
  shows "\<exists>t sent as k. ed_run a ops = Some (t, sent, as) \<and> ed_ok t \<and>
     subseq (delivered as @ rx_pending t @ map wire (ed_posted t)) (rx_pending a @ map wire (ed_posted a) @ map wire sent) \<and>
     length (delivered as) + length (rx_pending t) + length (ed_posted t) + k =
       length (rx_pending a) + length (ed_posted a) + length sent \<and>
     rx_dropped (ad_stats t) = rx_dropped (ad_stats a) + of_nat k"
proof -
  from ed_run_ok [OF assms(1), of ops] assms(2,3) obtain t sent as k where
    "ed_run a ops = Some (t, sent, as)" "ed_ok t" "flow a sent t as k 0" by blast
  then show ?thesis unfolding flow_def
    by (intro exI [of _ t] exI [of _ sent] exI [of _ as] exI [of _ k]) simp
qed

text \<open>Two packets over the loopback; the poll's refill fails half-way.\<close>
theorem edunic_loopback_witness:
  "\<exists>t sent as k. ed_run posted_demo [E_xmit 64 False (ed_skb 1), E_xmit 128 False (ed_skb 2), E_work (\<lambda>n. Some 9) True,
       E_poll (\<lambda>n. if n = 0 then Posted 7 (\<lambda>i. 0) 99 else No_skb) True 64] = Some (t, sent, as) \<and> ed_ok t \<and>
     subseq (delivered as @ rx_pending t @ map wire (ed_posted t)) (map wire sent) \<and>
     length (delivered as) + length (rx_pending t) + length (ed_posted t) + k = length sent"
  using edunic_loopback [OF posted_demo_ok(1,5), of "[E_xmit 64 False (ed_skb 1), E_xmit 128 False (ed_skb 2),
      E_work (\<lambda>n. Some 9) True, E_poll (\<lambda>n. if n = 0 then Posted 7 (\<lambda>i. 0) 99 else No_skb) True 64]"]
  unfolding posted_demo_ok(3,4) by (simp add: ed_skb_def wire_def del: ed_run.simps) blast

section \<open>The poll\<close>

text \<open>
  Claim C31: one poll of a good adapter reclaims every transmitted packet the device has finished,
  in order; it harvests as many receive descriptors as are done, at most \<open>budget\<close>, and gives the
  stack their frames in ring order; it refills \<open>j\<close> buffers, as many as it harvested unless an
  allocation fails; and it unmasks the interrupts exactly when it stayed below its budget and the
  kernel let polling end.
\<close>
theorem edunic_poll_correct:
  assumes "ed_ok a" and "0 \<le> budget" and "w = min (nat budget) (rx_done_count a)"
  shows "\<exists>a' as j. edunic_poll env complete budget a = Some (int w, a', as) \<and> ed_ok a' \<and>
     ed_inflight a = freed as @ ed_posted a \<and> ed_inflight a' = ed_posted a \<and>
     rx_pending a = delivered as @ rx_pending a' \<and> rx_done_count a' + w = rx_done_count a \<and>
     rx_total a' + w = rx_total a + j \<and> j \<le> w \<and> (\<forall>i < j. posted_ans (env i)) \<and> (j < w \<longrightarrow> \<not> posted_ans (env j)) \<and>
     irq_mask a' = (if int w < budget \<and> complete then irq_mask a OR (EDUNIC_INT_RX OR EDUNIC_INT_TX) else irq_mask a)"
proof -
  obtain a' as j where p: "edunic_poll env complete budget a = Some ((if int w < budget then int w else budget), a', as)"
    "ed_ok a'" "ed_inflight a = freed as @ ed_posted a" "ed_inflight a' = ed_posted a"
    "rx_pending a = delivered as @ rx_pending a'" "rx_done_count a' + w = rx_done_count a"
    "rx_total a' + w = rx_total a + j" "j \<le> w" "\<forall>i < j. posted_ans (env i)" "j < w \<longrightarrow> \<not> posted_ans (env j)"
    "irq_mask a' = (if int w < budget \<and> complete then irq_mask a OR (EDUNIC_INT_RX OR EDUNIC_INT_TX) else irq_mask a)"
    by (rule poll_ok [OF assms(1,3), of env complete]) (rule that; assumption)
  have "(if int w < budget then int w else budget) = int w" using assms(2,3) by auto
  with p show ?thesis by (intro exI [of _ a'] exI [of _ as] exI [of _ j]) simp
qed

theorem edunic_poll_correct_witness:
  "\<exists>a' as. edunic_poll (\<lambda>n. No_skb) True 64 posted_demo = Some (int (min 64 (rx_done_count posted_demo)), a', as) \<and> ed_ok a' \<and>
     delivered as @ rx_pending a' = []"
  using edunic_poll_correct [OF posted_demo_ok(1) _ refl, of 64 "\<lambda>n. No_skb" True]
  unfolding posted_demo_ok(3) by auto

section \<open>Refills that fail\<close>

text \<open>
  Claim C32: the receive ring never grows back.  Whatever happens, the number of buffers in the
  ring (received or free) only shrinks: a poll whose refill fails posts fewer buffers than it took,
  and no later call makes up for it.  Once the ring has no buffer left, no frame is delivered ever
  again, however much memory is free by then.
\<close>
theorem rx_ring_never_recovers:
  assumes "ed_ok a"
  shows "\<exists>t sent as. ed_run a ops = Some (t, sent, as) \<and> rx_total t \<le> rx_total a \<and>
     (rx_total a = 0 \<longrightarrow> delivered as = [] \<and> rx_total t = 0)"
proof -
  from ed_run_ok [OF assms, of ops] obtain t sent as where "ed_run a ops = Some (t, sent, as)" "rx_total t \<le> rx_total a"
    "rx_total a = 0 \<longrightarrow> delivered as = []" by (elim exE conjE) (rule that; assumption)
  then show ?thesis by auto
qed

text \<open>An adapter whose buffers are gone: two frames are sent, the allocator works, nothing arrives.\<close>
theorem rx_ring_never_recovers_witness:
  "\<exists>t sent as. ed_run ed_demo [E_xmit 64 False (ed_skb 1), E_xmit 128 False (ed_skb 2), E_work (\<lambda>n. Some 9) True,
       E_poll (\<lambda>n. Posted n (\<lambda>i. 0) 99) True 64] = Some (t, sent, as) \<and> delivered as = [] \<and> rx_total t = 0"
  using rx_ring_never_recovers [OF ed_demo_ok(1), of "[E_xmit 64 False (ed_skb 1), E_xmit 128 False (ed_skb 2),
      E_work (\<lambda>n. Some 9) True, E_poll (\<lambda>n. Posted n (\<lambda>i. 0) 99) True 64]"] ed_demo_ok(5)
  by (simp del: ed_run.simps) blast

section \<open>The link timer\<close>

text \<open>
  \<open>edunic_stop\<close> turns the carrier off and cancels no timer, so the link timer that
  \<open>edunic_hw_start\<close> armed less than a second before still fires and reports the carrier of the
  stopped interface as on.
\<close>
theorem link_timer_after_stop:
  "case edunic_stop a of (ret, b, as) \<Rightarrow> \<not> ad_carrier b \<and> ad_stopped b \<and> D_aux A_timer_cancel \<notin> set as \<and>
     ad_carrier (fst (edunic_link_timer_fn prep b))"
proof -
  have lsc: "(ch_icr c OR EDUNIC_INT_LSC) AND EDUNIC_INT_LSC = EDUNIC_INT_LSC" "EDUNIC_INT_LSC \<noteq> 0" for c :: chip
    by (simp_all add: EDUNIC_INT_LSC_def bit.conj_disj_distrib2)
  have nz: "ch_icr c OR EDUNIC_INT_LSC \<noteq> 0" for c :: chip
  proof
    assume z: "ch_icr c OR EDUNIC_INT_LSC = 0"
    show False using lsc(1) [of c] lsc(2) unfolding z by simp
  qed
  have "ad_carrier (fst (edunic_link_timer_fn prep b))" for b
    using nz lsc
    by (simp add: edunic_link_timer_fn_def edunic_intr_def edunic_reg_read_def edunic_reg_write_def chip_write_def
        Let_def edunic_regs)
  then show ?thesis
    by (simp add: edunic_stop_def edunic_hw_stop_def reg_read_plain edunic_regs Let_def edunic_free_interrupts_def)
qed

section \<open>The station address\<close>

text \<open>
  The station address survives the trip through the two registers: what
  \<open>edunic_hw_set_mac\<close> writes, \<open>edunic_hw_get_mac\<close> reads back, byte for byte.
\<close>
theorem mac_roundtrip:
  assumes "length mac = 6"
  shows "edunic_hw_get_mac (fst (edunic_hw_set_mac mac a)) = mac"
proof -
  obtain m0 m1 m2 m3 m4 m5 where m: "mac = [m0, m1, m2, m3, m4, m5]"
    using assms by (auto simp: length_Suc_conv numeral_eq_Suc)
  define low :: u32 where "low = ucast m0 OR push_bit 8 (ucast m1) OR push_bit 16 (ucast m2) OR push_bit 24 (ucast m3)"
  define high :: u32 where "high = ucast m4 OR push_bit 8 (ucast m5)"
  have r: "reg EDUNIC_REG_MAC_LOW (fst (edunic_hw_set_mac mac a)) = low" "reg EDUNIC_REG_MAC_HIGH (fst (edunic_hw_set_mac mac a)) = high"
    by (simp_all add: edunic_hw_set_mac_def Let_def reg_write_same reg_write_other edunic_regs m low_def high_def numeral_eq_Suc)
  have ff: "(0xff :: u32) = mask 8" by (simp add: mask_eq_exp_minus_1)
  have "ucast (low AND 0xff) = m0 \<and> ucast (drop_bit 8 low AND 0xff) = m1 \<and> ucast (drop_bit 16 low AND 0xff) = m2 \<and>
    ucast (drop_bit 24 low AND 0xff) = m3 \<and> ucast (high AND 0xff) = m4 \<and> ucast (drop_bit 8 high AND 0xff) = m5"
    unfolding ff by (intro conjI bit_word_eqI) (auto simp: bit_simps low_def high_def dest: bit_imp_le_length)
  then show ?thesis
    using r by (simp add: edunic_hw_get_mac_def reg_read_plain edunic_regs Let_def m)
qed

theorem mac_roundtrip_witness:
  "edunic_hw_get_mac (fst (edunic_hw_set_mac [0x02, 0xAB, 0xCD, 0xEF, 0x01, 0xFF] ed_demo)) = [0x02, 0xAB, 0xCD, 0xEF, 0x01, 0xFF]"
  by (rule mac_roundtrip) simp

end
