(* ===== verification/Edunic_Stats.thy ===== *)
theory Edunic_Stats
  imports Edunic_Flow_Props
begin

text \<open>
  The statistics of the edunic driver: what \<open>edunic_get_stats64\<close> returns, and that over any run
  the counters it reads are what the driver really did.
\<close>

section \<open>Reading the counters\<close>

text \<open>The fields of \<open>rtnl_link_stats64\<close> the driver fills in.\<close>

record link_stats =
  ls_rx_packets :: u64
  ls_tx_packets :: u64
  ls_rx_bytes :: u64
  ls_tx_bytes :: u64
  ls_rx_errors :: u64
  ls_tx_errors :: u64
  ls_rx_dropped :: u64

text \<open>
  One turn of the loop: the counters as they are at each of its seven reads, which a writer on
  another CPU may separate, and what \<open>u64_stats_fetch_retry\<close> then says.  \<open>None\<close> is a loop that
  has not ended when the answers have.
\<close>

fun edunic_get_stats64 :: "((nat \<Rightarrow> edunic_stats) \<times> bool) list \<Rightarrow> link_stats option" where
  "edunic_get_stats64 [] = None"
| "edunic_get_stats64 ((at, retry) # turns) =
     (if retry then edunic_get_stats64 turns
      else Some \<lparr>ls_rx_packets = rx_packets (at 3), ls_tx_packets = tx_packets (at 0), ls_rx_bytes = rx_bytes (at 4),
        ls_tx_bytes = tx_bytes (at 1), ls_rx_errors = rx_errors (at 5), ls_tx_errors = tx_errors (at 2),
        ls_rx_dropped = rx_dropped (at 6)\<rparr>)"

definition link_stats_of :: "edunic_stats \<Rightarrow> link_stats" where
  "link_stats_of s = \<lparr>ls_rx_packets = rx_packets s, ls_tx_packets = tx_packets s, ls_rx_bytes = rx_bytes s,
     ls_tx_bytes = tx_bytes s, ls_rx_errors = rx_errors s, ls_tx_errors = tx_errors s, ls_rx_dropped = rx_dropped s\<rparr>"

text \<open>
  What \<open>u64_stats_fetch_retry\<close> is for: when it does not ask for another turn, the turn read one
  state of the counters. It holds where the sequence counter is there and the writers exclude
  each other, and anywhere when no writer runs during the read; on 64-bit kernels the counter
  is compiled away. The property below asks for it on reads made while no writer runs.
\<close>

definition fetch_sound :: "((nat \<Rightarrow> edunic_stats) \<times> bool) list \<Rightarrow> bool" where
  "fetch_sound turns \<longleftrightarrow> (\<forall>t \<in> set turns. snd t \<or> (\<forall>i < 7. fst t i = fst t 0))"

lemma get_stats_snapshot:
  assumes "fetch_sound turns" "edunic_get_stats64 turns = Some r"
  shows "\<exists>(at, retry) \<in> set turns. r = link_stats_of (at 0)"
  using assms
proof (induction turns)
  case (Cons t turns)
  obtain at retry where t: "t = (at, retry)" by fastforce
  show ?case
  proof (cases retry)
    case True
    with Cons t show ?thesis by (auto simp: fetch_sound_def)
  next
    case False
    have "snd t \<or> (\<forall>i < 7. fst t i = fst t 0)" using Cons.prems(1) unfolding fetch_sound_def by (meson list.set_intros(1))
    then have same: "at i = at 0" if "i < 7" for i using that False unfolding t fst_conv snd_conv by blast
    have "at 1 = at 0" "at 2 = at 0" "at 3 = at 0" "at 4 = at 0" "at 5 = at 0" "at 6 = at 0" by (rule same; simp)+
    then have "r = link_stats_of (at 0)" using False Cons.prems(2) unfolding t by (simp add: link_stats_of_def)
    then show ?thesis unfolding t by (intro bexI [of _ "(at, retry)"]) simp_all
  qed
qed simp

lemma get_stats_ends: "edunic_get_stats64 turns \<noteq> None \<longleftrightarrow> (\<exists>t \<in> set turns. \<not> snd t)"
  by (induction turns rule: edunic_get_stats64.induct) auto

text \<open>\<open>strscpy\<close> into the 32 bytes of each field of \<open>ethtool_drvinfo\<close>; \<open>pci_name\<close> is the kernel's.\<close>

definition edunic_get_drvinfo :: "string \<Rightarrow> string \<times> string" where
  "edunic_get_drvinfo pci_name = (take 31 ''edunic'', take 31 pci_name)"

section \<open>What the counters count\<close>

definition tx_unmaps :: "drv_act list \<Rightarrow> (dma_dir \<times> u64 \<times> u32) list" where
  "tx_unmaps as = filter (\<lambda>x. fst x = DMA_TO_DEVICE) (unmapped as)"

abbreviation dma_lens :: "(dma_dir \<times> u64 \<times> u32) list \<Rightarrow> nat list" where
  "dma_lens xs \<equiv> map (\<lambda>x. unat (snd (snd x))) xs"

text \<open>
  Every completed packet is unmapped once, and every packet the driver took is freed once; one
  that was freed and never unmapped is an error.
\<close>

definition counted :: "edunic_stats \<Rightarrow> drv_act list \<Rightarrow> edunic_stats \<Rightarrow> bool" where
  "counted s as s' \<longleftrightarrow>
     tx_packets s' = tx_packets s + of_nat (length (tx_unmaps as)) \<and>
     tx_bytes s' = tx_bytes s + of_nat (sum_list (dma_lens (tx_unmaps as))) \<and>
     tx_errors s' + of_nat (length (tx_unmaps as)) = tx_errors s + of_nat (length (freed as)) \<and>
     rx_packets s' = rx_packets s + of_nat (length (delivered as)) \<and>
     rx_bytes s' = rx_bytes s + of_nat (sum_list (map length (delivered as)))"

definition only_dropped :: "edunic_stats \<Rightarrow> edunic_stats \<Rightarrow> bool" where
  "only_dropped s s' \<longleftrightarrow> s' = s\<lparr>rx_dropped := rx_dropped s'\<rparr>"

lemma tx_unmaps_simps [simp]:
  "tx_unmaps [] = []" "tx_unmaps (as @ bs) = tx_unmaps as @ tx_unmaps bs"
  "tx_unmaps (D_dma_unmap DMA_FROM_DEVICE x y # as) = tx_unmaps as" "tx_unmaps (D_gro_receive k f c # as) = tx_unmaps as"
  "tx_unmaps (D_free_skb k # as) = tx_unmaps as"
  by (simp_all add: tx_unmaps_def)

lemma counted_append: "counted s as t \<Longrightarrow> counted t bs u \<Longrightarrow> counted s (as @ bs) u"
proof -
  assume a: "counted s as t" "counted t bs u"
  have "tx_errors u + of_nat (length (tx_unmaps bs)) + of_nat (length (tx_unmaps as)) =
      tx_errors t + of_nat (length (tx_unmaps as)) + of_nat (length (freed bs))"
    using a(2) by (simp add: counted_def)
  also have "\<dots> = tx_errors s + of_nat (length (freed as)) + of_nat (length (freed bs))" using a(1) by (simp add: counted_def)
  finally have "tx_errors u + of_nat (length (tx_unmaps (as @ bs))) = tx_errors s + of_nat (length (freed (as @ bs)))"
    by (simp add: ac_simps)
  with a show ?thesis by (simp add: counted_def)
qed

lemma counted_quiet: "only_dropped s t \<Longrightarrow> unmapped as = [] \<Longrightarrow> freed as = [] \<Longrightarrow> delivered as = [] \<Longrightarrow> counted s as t"
  by (cases s, cases t) (simp add: counted_def only_dropped_def tx_unmaps_def)

lemma only_dropped_refl [simp]: "only_dropped s s"
  by (simp add: only_dropped_def)

lemma only_dropped_trans: "only_dropped s t \<Longrightarrow> only_dropped t u \<Longrightarrow> only_dropped s u"
  by (cases s, cases t, cases u) (simp add: only_dropped_def)

section \<open>Transmit completion\<close>

lemma clean_tx_loop_counts:
  "edunic_clean_tx_loop use desc buf i p b = Some (desc', buf', i', p', b', as) \<Longrightarrow>
   p' = p + length (unmapped as) \<and> b' = b + sum_list (map (\<lambda>x. snd (snd x)) (unmapped as))"
proof (induction use desc buf i p b arbitrary: as rule: edunic_clean_tx_loop.induct)
  case (1 use desc buf i p b)
  let ?d = "desc ! i" and ?b = "buf ! i"
  show ?case
  proof (cases "i = use \<or> td_status ?d AND EDUNIC_TXD_STAT_DD = 0 \<or> length desc \<le> i \<or> length buf \<le> i")
    case True
    with 1(2) show ?thesis by (subst (asm) edunic_clean_tx_loop.simps) (auto simp: Let_def split: if_splits)
  next
    case False
    then obtain as' where rec: "edunic_clean_tx_loop use (desc[i := ?d\<lparr>td_status := 0\<rparr>]) (buf[i := zero_tx_buf]) (edunic_next i)
        (p + 1) (b + of_nat (tb_len ?b)) = Some (desc', buf', i', p', b', as')"
      and as: "as = D_dma_unmap DMA_TO_DEVICE (tb_dma ?b) (of_nat (tb_len ?b))
        # (case tb_skb ?b of None \<Rightarrow> [] | Some s \<Rightarrow> [D_kfree_skb s]) @ as'"
      using 1(2) by (subst (asm) (2) edunic_clean_tx_loop.simps) (auto simp: Let_def)
    have "unmapped as = (DMA_TO_DEVICE, tb_dma ?b, of_nat (tb_len ?b)) # unmapped as'"
      unfolding as by (cases "tb_skb ?b") simp_all
    with 1(1) [OF _ _ refl refl _ rec] False show ?thesis by simp
  qed
qed

lemma sum_words: "sum_list (map unat xs) < 2 ^ 32 \<Longrightarrow> unat (sum_list xs) = sum_list (map unat xs)" for xs :: "u32 list"
proof (induction xs)
  case (Cons x xs)
  then have "unat x + unat (sum_list xs) < 2 ^ 32" by simp
  with Cons show ?case by (simp add: unat_word_ariths)
qed simp

text \<open>No packet of 16 megabytes or more, so that the 32-bit sum of one completion does not wrap.\<close>

definition short_maps :: "edunic_adapter \<Rightarrow> bool" where
  "short_maps a \<longleftrightarrow> (\<forall>x \<in> set (ed_live a). unat (snd (snd x)) < 2 ^ 24)"

lemma sum_bounded: "\<forall>x \<in> set xs. x < m \<Longrightarrow> sum_list xs \<le> length xs * m" for xs :: "nat list"
  by (induction xs) auto

lemma clean_tx_counted:
  assumes ok: "ed_tx_ok a" and sh: "short_maps a" and c: "edunic_clean_tx_irq a = Some (n, a', as)"
  shows "counted (ad_stats a) as (ad_stats a')"
proof -
  obtain b as1 t s where x: "edunic_clean_tx_irq a = Some (length (tx_done_slots a), b, as1)"
    "freed as1 = ring_skb (tx_bufs a) (tx_done_slots a)" "unmapped as1 = ring_dma (tx_bufs a) (tx_done_slots a)"
    "delivered as1 = []" "ed_live a = unmapped as1 @ ed_live b"
    by (rule clean_tx_ok [OF ok]) (rule that; assumption)
  have eq: "n = length (tx_done_slots a)" "b = a'" "as1 = as" using c x(1) by simp_all
  have un: "tx_unmaps as = unmapped as" using x(3) eq by (simp add: tx_unmaps_def ring_dma_def)
  have n: "length (unmapped as) = n" "length (freed as) = n" using x(2,3) eq by (simp_all add: ring_dma_def ring_skb_def)
  have "length (tx_done_slots a) \<le> 255"
    using ed_ix.used_le ring_in_orderD [OF ed_tx_ok_less(5) [OF ok]] by (simp add: tx_done_slots_def)
  then have "sum_list (dma_lens (unmapped as)) \<le> 255 * 2 ^ 24"
    using sum_bounded [of "dma_lens (unmapped as)" "2 ^ 24"] sh x(5) n eq by (simp add: short_maps_def)
  then have small: "sum_list (map unat (map (\<lambda>x. snd (snd x)) (unmapped as))) < 2 ^ 32" by (simp add: comp_def)
  have d: "delivered as = []" using x(4) eq by simp
  obtain desc q buf where r: "t_desc (ad_tx a) = Some desc" "t_buf (ad_tx a) = Some (q, buf)" by (rule ed_tx_okD [OF ok])
  obtain desc' buf' i' p by' las where loop: "edunic_clean_tx_loop (t_next_to_use (ad_tx a)) desc buf (t_next_to_clean (ad_tx a)) 0 0 =
      Some (desc', buf', i', p, by', las)" and las: "unmapped as = unmapped las" and p: "n = p"
    and st: "ad_stats a' = (if p = 0 then ad_stats a else (ad_stats a)\<lparr>tx_packets := tx_packets (ad_stats a) + of_nat p,
        tx_bytes := tx_bytes (ad_stats a) + ucast by'\<rparr>)"
    using c r by (auto simp: edunic_clean_tx_irq_def Let_def split: option.splits prod.splits if_splits)
  note k = clean_tx_loop_counts [OF loop, folded las]
  have u: "ucast by' = (of_nat (sum_list (dma_lens (unmapped as))) :: u64)"
  proof -
    have "by' = sum_list (map (\<lambda>x. snd (snd x)) (unmapped as))" using k by simp
    then have "unat by' = sum_list (dma_lens (unmapped as))" using sum_words [OF small] by (simp only: map_map comp_def)
    from arg_cong [OF this, of "of_nat :: nat \<Rightarrow> u64"] show ?thesis by (simp only: of_nat_unat)
  qed
  show ?thesis
  proof (cases "p = 0")
    case True
    with n p have "unmapped as = []" "freed as = []" by simp_all
    then show ?thesis unfolding counted_def un d st using True by simp
  next
    case False
    then show ?thesis unfolding counted_def un d st n p using u by simp
  qed
qed


section \<open>Receiving\<close>

lemma clean_rx_loop_counts:
  "edunic_clean_rx_loop n desc buf i w s = Some (desc', buf', i', w', s', as) \<Longrightarrow> counted s as s' \<and> tx_unmaps as = [] \<and> freed as = []"
proof (induction n arbitrary: desc buf i w s as)
  case 0
  then show ?case by (simp add: counted_def)
next
  case (Suc n)
  let ?d = "desc ! i" and ?b = "buf ! i"
  let ?rec = "edunic_clean_rx_loop n (desc[i := ?d\<lparr>rd_status := 0, rd_errors := 0\<rparr>]) (buf[i := ?b\<lparr>rb_skb := None, rb_dma := 0\<rparr>])
    (edunic_next i) (Suc w)"
  let ?unmap = "D_dma_unmap DMA_FROM_DEVICE (rb_dma ?b) (of_nat (rb_len ?b))"
  show ?case
  proof (cases "length desc \<le> i \<or> length buf \<le> i \<or> rd_status ?d AND EDUNIC_RXD_STAT_DD = 0")
    case True
    with Suc.prems have "s' = s" "as = []" by (auto simp: Let_def split: if_splits)
    then show ?thesis by (simp add: counted_def)
  next
    case False
    show ?thesis
    proof (cases "rd_errors ?d AND EDUNIC_RXD_ERR_RXE \<noteq> 0")
      case True
      with Suc.prems False obtain as' where rec: "?rec (s\<lparr>rx_errors := rx_errors s + 1\<rparr>) = Some (desc', buf', i', w', s', as')"
        and as: "as = ?unmap # (case rb_skb ?b of None \<Rightarrow> [] | Some (skb, _) \<Rightarrow> [D_free_skb skb]) @ as'" by (auto simp: Let_def)
      from Suc.IH [OF rec] show ?thesis unfolding as by (cases "rb_skb ?b") (auto simp: counted_def)
    next
      case good: False
      with Suc.prems False obtain k data where b: "rb_skb ?b = Some (k, data)" "unat (rd_length ?d) \<le> length data"
        by (cases "rb_skb ?b") (auto simp: Let_def split: if_splits)
      define f where "f = take (unat (rd_length ?d)) data"
      with b have f: "unat (rd_length ?d) = length f" by simp
      from Suc.prems False good b obtain as' where
        rec: "?rec (s\<lparr>rx_packets := rx_packets s + 1, rx_bytes := rx_bytes s + of_nat (unat (rd_length ?d))\<rparr>) = Some (desc', buf', i', w', s', as')"
        and as: "as = ?unmap # D_gro_receive k f (rd_status ?d AND EDUNIC_RXD_STAT_CSUM_VALID \<noteq> 0) # as'"
        by (auto simp: Let_def f_def)
      from Suc.IH [OF rec] show ?thesis unfolding as f by (auto simp: counted_def)
    qed
  qed
qed

lemma alloc_rx_loop_quiet:
  "edunic_alloc_rx_loop env n p desc buf i = Some (desc', buf', i', posted, as) \<Longrightarrow> unmapped as = [] \<and> freed as = [] \<and> delivered as = []"
  by (induction n arbitrary: p desc buf i as) (auto split: rx_alloc.splits if_splits)

lemma alloc_rx_counted:
  "edunic_alloc_rx_buffers env n a = Some (k, a', as) \<Longrightarrow> ad_stats a' = ad_stats a \<and> unmapped as = [] \<and> freed as = [] \<and> delivered as = []"
  by (auto simp: edunic_alloc_rx_buffers_def Let_def edunic_regs dest: alloc_rx_loop_quiet split: option.splits prod.splits if_splits)

lemma clean_rx_counted:
  assumes "edunic_clean_rx_irq env budget a = Some (w, a', as)"
  shows "counted (ad_stats a) as (ad_stats a')"
proof (cases "budget \<le> 0")
  case True
  with assms show ?thesis by (simp add: edunic_clean_rx_irq_def Let_def counted_def)
next
  case False
  with assms obtain desc q buf where r: "r_desc (ad_rx a) = Some desc" "r_buf (ad_rx a) = Some (q, buf)"
    by (auto simp: edunic_clean_rx_irq_def Let_def split: option.splits)
  with assms False obtain desc' buf' i w' s as1 where
    loop: "edunic_clean_rx_loop (nat budget) desc buf (r_next_to_clean (ad_rx a)) 0 (ad_stats a) = Some (desc', buf', i, w', s, as1)"
    by (auto simp: edunic_clean_rx_irq_def Let_def split: option.splits)
  define b where "b = a\<lparr>ad_rx := (ad_rx a)\<lparr>r_desc := Some desc', r_buf := Some (q, buf'), r_next_to_clean := i\<rparr>, ad_stats := s\<rparr>"
  note c = clean_rx_loop_counts [OF loop]
  have "counted s as2 (ad_stats a')" if "as = as1 @ as2" "edunic_alloc_rx_buffers env (w' mod 65536) b = Some (k, a', as2)" for as2 k
    using alloc_rx_counted [OF that(2)] by (intro counted_quiet) (simp_all add: b_def)
  moreover have "as = as1 \<and> ad_stats a' = s \<or>
      (\<exists>as2 k. as = as1 @ as2 \<and> edunic_alloc_rx_buffers env (w' mod 65536) b = Some (k, a', as2))"
    using assms False r loop by (auto simp: edunic_clean_rx_irq_def Let_def b_def split: if_splits)
  ultimately show ?thesis using c counted_append by metis
qed

section \<open>The engine\<close>

lemma deliver_dropped: "edunic_hw_deliver_rx_frame f a = Some (a', as) \<Longrightarrow> only_dropped (ad_stats a) (ad_stats a')"
  by (auto simp: edunic_hw_deliver_rx_frame_def reg_read_plain edunic_regs Let_def only_dropped_def
      split: if_splits option.splits prod.splits)

lemma work_one_dropped: "edunic_tx_work_one mem h a = Some (a', as) \<Longrightarrow> only_dropped (ad_stats a) (ad_stats a')"
  by (auto simp: edunic_tx_work_one_def Let_def dest: deliver_dropped split: if_splits option.splits prod.splits)

lemma work_loop_dropped:
  "edunic_tx_work_loop mem fuel n h t a = Some (h', sent, a', as) \<Longrightarrow> only_dropped (ad_stats a) (ad_stats a')"
proof (induction fuel arbitrary: n h a as)
  case (Suc fuel)
  show ?case
  proof (cases "h = t")
    case False
    with Suc.prems obtain b as1 as2 where "edunic_tx_work_one (mem n) (unat h) a = Some (b, as1)"
      "edunic_tx_work_loop mem fuel (Suc n) (of_nat (edunic_next (unat h))) t b = Some (h', sent, a', as2)"
      by (auto split: option.splits)
    then show ?thesis using work_one_dropped Suc.IH only_dropped_trans by blast
  qed (use Suc.prems in simp)
qed (simp split: if_splits)

lemma worker_dropped: "edunic_hw_tx_worker mem prep a = Some (a', as) \<Longrightarrow> only_dropped (ad_stats a) (ad_stats a')"
proof -
  assume w: "edunic_hw_tx_worker mem prep a = Some (a', as)"
  obtain h sent b as1 where l: "edunic_tx_work_loop mem EDUNIC_RING_SIZE 0 (reg EDUNIC_REG_TDH a) (reg EDUNIC_REG_TDT a) a = Some (h, sent, b, as1)"
    and a': "ad_stats a' = ad_stats b"
  proof -
    from w show ?thesis
      using that intr_same by (auto simp: edunic_hw_tx_worker_def reg_read_plain edunic_regs Let_def side_same_def
          split: option.splits prod.splits if_splits)
  qed
  from work_loop_dropped [OF l] a' show ?thesis by simp
qed


section \<open>A step and a run\<close>

fun short_op :: "ed_op \<Rightarrow> bool" where
  "short_op (E_xmit addr err b) = (unat (skb_len b) < 2 ^ 24)"
| "short_op _ = True"

definition step_counted :: "edunic_adapter \<Rightarrow> drv_act list \<Rightarrow> edunic_adapter \<Rightarrow> bool" where
  "step_counted a as a' \<longleftrightarrow> counted (ad_stats a) as (ad_stats a') \<and> short_maps a'"

lemma apart_counted:
  "apart a a' \<Longrightarrow> short_maps a \<Longrightarrow> unmapped as = [] \<Longrightarrow> freed as = [] \<Longrightarrow> delivered as = [] \<Longrightarrow> step_counted a as a'"
  by (simp add: step_counted_def counted_quiet short_maps_def apart_views)

lemma xmit_counted:
  assumes ok: "ed_ok a" and sh: "short_maps a" "short_op (E_xmit addr err b)" and x: "edunic_start_xmit (addr, err) b a = Some (r, a', as)"
  shows "step_counted a (handed r b @ as) a'"
proof -
  have tx: "ed_tx_ok a" using ok by (simp add: ed_ok_def)
  from edunic_xmit_ok [OF ok, of addr err b] x have live: "ed_live a' = ed_live a @ mapped as" "unmapped as = []" "delivered as = []"
    by (simp_all add: ed_xmit_post_def)
  consider (full) "tx_full a" | (fail) "\<not> tx_full a" err | (put) "\<not> tx_full a" "\<not> err" by blast
  then have "counted (ad_stats a) as (ad_stats a') \<and> mapped as \<in> {[], [(DMA_TO_DEVICE, addr, skb_len b)]}"
  proof cases
    case full
    with xmit_full [OF tx full, of "(addr, err)" b] x show ?thesis by (auto simp: counted_def tx_unmaps_def)
  next
    case fail
    with xmit_error [OF tx fail(1), of addr b] x show ?thesis by (auto simp: counted_def tx_unmaps_def)
  next
    case put
    obtain c t bs where p: "edunic_start_xmit (addr, False) b a = Some (NETDEV_TX_OK, c, bs)"
      "c = (edunic_reg_write EDUNIC_REG_TDT (of_nat (t_next_to_use t)) (a\<lparr>ad_tx := t\<rparr>))\<lparr>ad_stopped := (ad_stopped a \<or> tx_full c)\<rparr>"
      "freed bs = []" "mapped bs = [(DMA_TO_DEVICE, addr, skb_len b)]"
      by (rule xmit_put [OF tx put(1), of addr b]) (rule that; assumption)
    have "ad_stats c = ad_stats a" using arg_cong [OF p(2), of ad_stats] by simp
    with p x put live show ?thesis by (simp add: counted_quiet)
  qed
  with live sh show ?thesis by (auto simp: step_counted_def short_maps_def counted_def tx_unmaps_def)
qed

lemma poll_counted:
  assumes ok: "ed_ok a" and sh: "short_maps a" and p: "edunic_poll env complete budget a = Some (w, a', as)"
  shows "step_counted a as a'"
proof -
  obtain d bs where "edunic_poll env complete budget a = Some ((if int (min (nat budget) (rx_done_count a)) < budget
      then int (min (nat budget) (rx_done_count a)) else budget), d, bs)" "set (ed_live d) \<subseteq> set (ed_live a)"
    by (rule poll_ok [OF ok refl, where env = env and complete = complete and budget = budget]) (rule that; assumption)
  then have "short_maps a'" using sh p by (auto simp: short_maps_def)
  moreover from p obtain n b as1 v c as2 as3 where s: "edunic_clean_tx_irq a = Some (n, b, as1)" "edunic_clean_rx_irq env budget b = Some (v, c, as2)"
    "as = as1 @ as2 @ as3" "ad_stats a' = ad_stats c" "unmapped as3 = []" "freed as3 = []" "delivered as3 = []"
    by (auto simp: edunic_poll_def split: option.splits prod.splits if_splits)
  moreover have "counted (ad_stats c) as3 (ad_stats c)" using s by (simp add: counted_quiet)
  ultimately show ?thesis
    using clean_tx_counted [OF _ sh s(1)] clean_rx_counted [OF s(2)] ok counted_append unfolding step_counted_def ed_ok_def by metis
qed

lemma step_counts:
  assumes ok: "ed_ok a" and sh: "short_maps a" "short_op op" and st: "ed_step op a = Some (a', sent, as)"
  shows "step_counted a as a'"
proof (cases op)
  case (E_xmit addr err b)
  with st obtain r bs where "edunic_start_xmit (addr, err) b a = Some (r, a', bs)" and as: "as = handed r b @ bs" by auto
  from xmit_counted [OF ok sh(1) sh(2) [unfolded E_xmit] this(1)] show ?thesis unfolding as .
next
  case (E_work mem prep)
  with st have w: "edunic_hw_tx_worker mem prep a = Some (a', as)" by auto
  obtain b bs where "edunic_hw_tx_worker mem prep a = Some (b, bs)" "quiet bs" "ed_live b = ed_live a"
    by (rule worker_ok [OF ok, of mem prep]) (rule that; assumption)
  with w worker_dropped [OF w] sh(1) show ?thesis by (simp add: step_counted_def counted_quiet quiet_def short_maps_def)
next
  case (E_poll env complete budget)
  with st obtain w where "edunic_poll env complete budget a = Some (w, a', as)" by auto
  from poll_counted [OF ok sh(1) this] show ?thesis .
next
  case (E_intr prep)
  with st obtain r where "edunic_intr prep a = (r, a', as)" by (auto split: prod.splits)
  from intr_same [OF this] sh(1) show ?thesis by (intro apart_counted) (simp_all add: side_same_def apart_def quiet_def)
next
  case (E_link prep)
  with st have "edunic_link_timer_fn prep a = (a', as)" by (auto split: prod.splits)
  from link_apart [OF this] sh(1) show ?thesis by (intro apart_counted) (simp_all add: quiet_def)
next
  case (E_open e)
  with st obtain r where "edunic_open e a = (r, a', as)" by (auto split: prod.splits)
  moreover from this have "unmapped as = []"
    by (auto simp: edunic_open_def edunic_setup_interrupts_def edunic_hw_start_def reg_read_plain edunic_regs Let_def
        split: if_splits prod.splits)
  ultimately show ?thesis using open_apart open_quiet sh(1) by (intro apart_counted) blast+
next
  case E_stop
  with st obtain r where "edunic_stop a = (r, a', as)" by (auto split: prod.splits)
  moreover from this have "unmapped as = []"
    by (auto simp: edunic_stop_def edunic_hw_stop_def reg_read_plain edunic_regs Let_def edunic_free_interrupts_def)
  ultimately show ?thesis using stop_apart stop_quiet sh(1) by (intro apart_counted) blast+
next
  case (E_mtu m)
  with st sh(1) show ?thesis by (intro apart_counted) (auto simp: edunic_change_mtu_def apart_def)
next
  case (E_mac check addr)
  with st obtain r where "edunic_set_mac_address check addr a = (r, a', as)" by (auto split: prod.splits)
  moreover from this have "unmapped as = []"
    by (auto simp: edunic_set_mac_address_def edunic_hw_set_mac_def Let_def split: if_splits)
  ultimately show ?thesis using mac_apart mac_quiet sh(1) by (intro apart_counted) blast+
qed

lemma run_counts:
  "ed_ok a \<Longrightarrow> short_maps a \<Longrightarrow> \<forall>op \<in> set ops. short_op op \<Longrightarrow>
   \<exists>t sent as. ed_run a ops = Some (t, sent, as) \<and> ed_ok t \<and> counted (ad_stats a) as (ad_stats t)"
proof (induction ops arbitrary: a)
  case Nil
  then show ?case by (simp add: counted_quiet)
next
  case (Cons op ops)
  from ed_step_ok [OF Cons.prems(1), of op] obtain b s1 as1 where 1: "ed_step op a = Some (b, s1, as1)" "ed_ok b"
    unfolding step_ok_def by (elim exE conjE) (rule that; assumption)
  from step_counts [OF Cons.prems(1,2) _ 1(1)] Cons.prems(3)
  have c: "counted (ad_stats a) as1 (ad_stats b)" "short_maps b" by (simp_all add: step_counted_def)
  from Cons.IH [OF 1(2) c(2)] Cons.prems(3) obtain t s2 as2 where
    2: "ed_run b ops = Some (t, s2, as2)" "ed_ok t" "counted (ad_stats b) as2 (ad_stats t)" by auto
  from 1(1) 2 counted_append [OF c(1) 2(3)] show ?case by simp
qed

lemma posted_demo_live: "ed_live posted_demo = []"
proof -
  have ok: "ed_rx_ok ed_demo" "rx_total ed_demo + 255 \<le> 255" using ed_demo_ok by (simp_all add: ed_ok_def)
  obtain j a' as where r: "edunic_alloc_rx_buffers (\<lambda>i. Posted i (\<lambda>n. 0) (of_nat (i + 1))) 255 ed_demo = Some (j, a', as)" "tx_same ed_demo a'"
    by (rule alloc_rx_buffers_ok [OF ok]) (rule that; assumption)
  have "posted_demo = a'" unfolding posted_demo_def r(1) by simp
  with tx_same_views [OF r(2)] ed_demo_ok show ?thesis by simp
qed

text \<open>
  Claim C11: the statistics are true.  From a good adapter, after any sequence of the kernel's
  calls, of the engine, of interrupts and of the timer, what \<open>edunic_get_stats64\<close> returns while no
  writer is running differs from the counters at the start (modulo \<open>2^64\<close>) by exactly what the
  driver did: the packets whose transmit mapping it undid and the sum of their mapped lengths,
  the packets it freed without ever having mapped them as errors, and the frames given to the
  stack with the sum of their lengths.
\<close>
theorem edunic_counters:
  assumes "ed_ok a" and "short_maps a" and "\<forall>op \<in> set ops. short_op op"
  shows "\<exists>t sent as. ed_run a ops = Some (t, sent, as) \<and>
    (\<forall>turns r. fetch_sound turns \<and> (\<forall>u \<in> set turns. fst u 0 = ad_stats t) \<and> edunic_get_stats64 turns = Some r \<longrightarrow>
       ls_tx_packets r = tx_packets (ad_stats a) + of_nat (length (tx_unmaps as)) \<and>
       ls_tx_bytes r = tx_bytes (ad_stats a) + of_nat (sum_list (dma_lens (tx_unmaps as))) \<and>
       ls_tx_errors r + of_nat (length (tx_unmaps as)) = tx_errors (ad_stats a) + of_nat (length (freed as)) \<and>
       ls_rx_packets r = rx_packets (ad_stats a) + of_nat (length (delivered as)) \<and>
       ls_rx_bytes r = rx_bytes (ad_stats a) + of_nat (sum_list (map length (delivered as))))"
proof -
  from run_counts [OF assms] obtain t sent as where
    run: "ed_run a ops = Some (t, sent, as)" and c: "counted (ad_stats a) as (ad_stats t)" by blast
  have r: "r = link_stats_of (ad_stats t)"
    if "fetch_sound turns" "\<forall>u \<in> set turns. fst u 0 = ad_stats t" "edunic_get_stats64 turns = Some r" for turns r
    using get_stats_snapshot [OF that(1,3)] that(2) by auto
  have k: "ls_tx_packets (link_stats_of s) = tx_packets s" "ls_tx_bytes (link_stats_of s) = tx_bytes s"
    "ls_tx_errors (link_stats_of s) = tx_errors s" "ls_rx_packets (link_stats_of s) = rx_packets s"
    "ls_rx_bytes (link_stats_of s) = rx_bytes s" for s by (simp_all add: link_stats_of_def)
  have "ls_tx_packets r = tx_packets (ad_stats a) + of_nat (length (tx_unmaps as)) \<and>
       ls_tx_bytes r = tx_bytes (ad_stats a) + of_nat (sum_list (dma_lens (tx_unmaps as))) \<and>
       ls_tx_errors r + of_nat (length (tx_unmaps as)) = tx_errors (ad_stats a) + of_nat (length (freed as)) \<and>
       ls_rx_packets r = rx_packets (ad_stats a) + of_nat (length (delivered as)) \<and>
       ls_rx_bytes r = rx_bytes (ad_stats a) + of_nat (sum_list (map length (delivered as)))"
    if "fetch_sound turns \<and> (\<forall>u \<in> set turns. fst u 0 = ad_stats t) \<and> edunic_get_stats64 turns = Some r" for turns r
  proof -
    have "r = link_stats_of (ad_stats t)" using that r by blast
    with c show ?thesis unfolding counted_def by (simp only: k)
  qed
  with run show ?thesis by blast
qed

text \<open>Two packets, the second unmappable, over the loopback to the stack.\<close>
theorem edunic_counters_witness:
  "\<exists>t sent as r. ed_run posted_demo [E_xmit 64 False (ed_skb 1), E_xmit 0 True (ed_skb 2), E_work (\<lambda>n. Some 9) True,
       E_poll (\<lambda>n. No_skb) True 64] = Some (t, sent, as) \<and>
     edunic_get_stats64 [(\<lambda>n. ad_stats t, True), (\<lambda>n. ad_stats t, False)] = Some r \<and>
     ls_tx_packets r = tx_packets (ad_stats posted_demo) + of_nat (length (tx_unmaps as)) \<and>
     ls_rx_packets r = rx_packets (ad_stats posted_demo) + of_nat (length (delivered as))"
proof -
  let ?ops = "[E_xmit 64 False (ed_skb 1), E_xmit 0 True (ed_skb 2), E_work (\<lambda>n. Some 9) True, E_poll (\<lambda>n. No_skb) True 64]"
  have s: "short_maps posted_demo" using posted_demo_live by (simp add: short_maps_def)
  have o: "\<forall>op \<in> set ?ops. short_op op" by (simp add: ed_skb_def)
  obtain t sent as where run: "ed_run posted_demo ?ops = Some (t, sent, as)"
    and all: "\<forall>turns r. fetch_sound turns \<and> (\<forall>u \<in> set turns. fst u 0 = ad_stats t) \<and> edunic_get_stats64 turns = Some r \<longrightarrow>
       ls_tx_packets r = tx_packets (ad_stats posted_demo) + of_nat (length (tx_unmaps as)) \<and>
       ls_rx_packets r = rx_packets (ad_stats posted_demo) + of_nat (length (delivered as))"
    using edunic_counters [OF posted_demo_ok(1) s o] by (metis (no_types, lifting))
  have g: "edunic_get_stats64 [(\<lambda>n. ad_stats t, True), (\<lambda>n. ad_stats t, False)] = Some (link_stats_of (ad_stats t))"
    by (simp add: link_stats_of_def)
  moreover have "fetch_sound [(\<lambda>n. ad_stats t, True), (\<lambda>n. ad_stats t, False)]" by (simp add: fetch_sound_def)
  ultimately show ?thesis using run all [rule_format, of "[(\<lambda>n. ad_stats t, True), (\<lambda>n. ad_stats t, False)]"]
    by (intro exI [of _ t] exI [of _ sent] exI [of _ as] exI [of _ "link_stats_of (ad_stats t)"] conjI) simp_all
qed

end
