(* ===== verification/Edunic_Life.thy ===== *)
theory Edunic_Life
  imports Edunic_Loop
begin

text \<open>
  The resource account of the edunic driver: what the rings hold, and that every handler, the
  emulated engine included, keeps the account balanced.
\<close>

section \<open>What the rings hold\<close>

definition tx_buf_held :: "edunic_tx_buf \<Rightarrow> resource multiset" where
  "tx_buf_held b = (case tb_skb b of None \<Rightarrow> {#} | Some s \<Rightarrow> {#R_dma DMA_TO_DEVICE (tb_dma b) (of_nat (tb_len b)), R_packet s#})"

definition rx_buf_held :: "edunic_rx_buf \<Rightarrow> resource multiset" where
  "rx_buf_held b = (case rb_skb b of None \<Rightarrow> {#}
     | Some (n, _) \<Rightarrow> {#R_dma DMA_FROM_DEVICE (rb_dma b) (of_nat (rb_len b)), R_skb n#})"

definition tx_sum :: "edunic_tx_buf list \<Rightarrow> resource multiset" where "tx_sum buf = sum_list (map tx_buf_held buf)"

definition rx_sum :: "edunic_rx_buf list \<Rightarrow> resource multiset" where "rx_sum buf = sum_list (map rx_buf_held buf)"

definition ed_tx_held :: "edunic_tx_ring \<Rightarrow> resource multiset" where
  "ed_tx_held t = (case t_desc t of None \<Rightarrow> {#} | Some _ \<Rightarrow> {#R_coherent (t_dma t)#}) +
     (case t_buf t of None \<Rightarrow> {#} | Some (q, buf) \<Rightarrow> add_mset (R_mem q) (tx_sum buf))"

definition ed_rx_held :: "edunic_rx_ring \<Rightarrow> resource multiset" where
  "ed_rx_held r = (case r_desc r of None \<Rightarrow> {#} | Some _ \<Rightarrow> {#R_coherent (r_dma r)#}) +
     (case r_buf r of None \<Rightarrow> {#} | Some (q, buf) \<Rightarrow> add_mset (R_mem q) (rx_sum buf))"

definition rings_held :: "edunic_adapter \<Rightarrow> resource multiset" where
  "rings_held a = ed_tx_held (ad_tx a) + ed_rx_held (ad_rx a)"

lemmas tx_sum_update = sum_list_update_ms [where f = tx_buf_held, folded tx_sum_def]
lemmas rx_sum_update = sum_list_update_ms [where f = rx_buf_held, folded rx_sum_def]

lemma sum_simps [simp]:
  "tx_sum [] = {#}" "tx_sum (b # bs) = tx_buf_held b + tx_sum bs" "rx_sum [] = {#}" "rx_sum (x # xs) = rx_buf_held x + rx_sum xs"
  by (simp_all add: tx_sum_def rx_sum_def)

lemma rx_sum_same: "i < length buf \<Longrightarrow> rx_buf_held b = rx_buf_held (buf ! i) \<Longrightarrow> rx_sum (buf[i := b]) = rx_sum buf"
  using rx_sum_update [of i buf b] by simp

lemma neutral_simps [simp]:
  "neutral []" "neutral (as @ bs) \<longleftrightarrow> neutral as \<and> neutral bs"
  "neutral (x # as) \<longleftrightarrow> acquires x = None \<and> releases x = None \<and> neutral as"
  by (auto simp: neutral_def)

text \<open>\<open>as\<close> turns an account that holds \<open>A\<close> into one that holds \<open>B\<close>, whatever else it holds.\<close>

definition moves :: "resource multiset \<Rightarrow> drv_act list \<Rightarrow> resource multiset \<Rightarrow> bool" where
  "moves A as B \<longleftrightarrow> (\<forall>R. ledger (R + A) as = Some (R + B))"

lemma moves_neutral: "neutral as \<Longrightarrow> moves A as A"
  by (simp add: moves_def ledger_neutral)

lemma moves_append: "moves A as B \<Longrightarrow> moves B bs C \<Longrightarrow> moves A (as @ bs) C"
  by (simp add: moves_def ledger_append)

lemma moves_frame: "moves A as B \<Longrightarrow> moves (X + A) as (X + B)"
  unfolding moves_def by (metis add.assoc)

lemma moves_frame2: "moves A as B \<Longrightarrow> moves (A + X) as (B + X)"
  using moves_frame [of A as B X] by (simp add: add.commute)

lemma moves_then: "moves A as {#} \<Longrightarrow> moves X bs {#} \<Longrightarrow> moves (X + A) (as @ bs) {#}"
  using moves_append [OF moves_frame [of A as "{#}" X], of bs "{#}"] by simp

lemma moves_release: "releases x = Some r \<Longrightarrow> acquires x = None \<Longrightarrow> moves (add_mset r A) [x] A"
  by (simp add: moves_def)

lemma moves_acquire: "acquires x = Some r \<Longrightarrow> moves A [x] (add_mset r A)"
  by (simp add: moves_def)

section \<open>Releasing the buffers\<close>

lemma moves_free_tx: "moves (tx_sum bs) (free_tx_bufs bs) {#}"
proof (induction bs)
  case (Cons b bs)
  have "moves (tx_buf_held b) (case tb_skb b of None \<Rightarrow> []
      | Some s \<Rightarrow> [D_dma_unmap DMA_TO_DEVICE (tb_dma b) (of_nat (tb_len b)), D_kfree_skb s]) {#}"
    by (auto simp: moves_def tx_buf_held_def split: option.splits)
  from moves_append [OF moves_frame2 [OF this, of "tx_sum bs"]] Cons show ?case by simp
qed (simp add: moves_neutral)

lemma moves_free_rx: "moves (rx_sum bs) (free_rx_bufs bs) {#}"
proof (induction bs)
  case (Cons b bs)
  have "moves (rx_buf_held b) (case rb_skb b of None \<Rightarrow> []
      | Some (n, _) \<Rightarrow> [D_dma_unmap DMA_FROM_DEVICE (rb_dma b) (of_nat (rb_len b)), D_free_skb n]) {#}"
    by (auto simp: moves_def rx_buf_held_def split: option.splits)
  from moves_append [OF moves_frame2 [OF this, of "rx_sum bs"]] Cons show ?case by simp
qed (simp add: moves_neutral)

text \<open>The metadata arrays are never longer than \<open>count\<close>.\<close>

lemma free_tx_resources_moves:
  assumes "\<forall>q buf. t_buf (ad_tx a) = Some (q, buf) \<longrightarrow> length buf \<le> t_count (ad_tx a)"
    and "edunic_free_tx_resources a = (a', as)"
  shows "moves (ed_tx_held (ad_tx a)) as {#} \<and> ad_rx a' = ad_rx a"
proof -
  let ?t = "ad_tx a"
  have d: "moves (case t_desc ?t of None \<Rightarrow> {#} | Some _ \<Rightarrow> {#R_coherent (t_dma ?t)#})
      (case t_desc ?t of None \<Rightarrow> [] | Some _ \<Rightarrow> [D_coherent_free (t_dma ?t)]) {#}"
    by (auto simp: moves_def split: option.splits)
  have b: "moves (case t_buf ?t of None \<Rightarrow> {#} | Some (q, buf) \<Rightarrow> add_mset (R_mem q) (tx_sum buf))
      (case t_buf ?t of None \<Rightarrow> [] | Some (q, buf) \<Rightarrow> free_tx_bufs (take (t_count ?t) buf) @ [D_kfree q]) {#}"
  proof (cases "t_buf ?t")
    case (Some x)
    obtain q buf where x: "x = (q, buf)" by (cases x)
    from moves_then [OF moves_free_tx [of buf] moves_release [of "D_kfree q" "R_mem q" "{#}", simplified]]
    show ?thesis using assms(1) Some x by simp
  qed (simp add: moves_neutral)
  from moves_then [OF b d] assms(2)
  show ?thesis by (auto simp: edunic_free_tx_resources_def Let_def ed_tx_held_def)
qed

lemma free_rx_resources_moves:
  assumes "\<forall>q buf. r_buf (ad_rx a) = Some (q, buf) \<longrightarrow> length buf \<le> r_count (ad_rx a)"
    and "edunic_free_rx_resources a = (a', as)"
  shows "moves (ed_rx_held (ad_rx a)) as {#} \<and> ad_tx a' = ad_tx a"
proof -
  let ?t = "ad_rx a"
  have d: "moves (case r_desc ?t of None \<Rightarrow> {#} | Some _ \<Rightarrow> {#R_coherent (r_dma ?t)#})
      (case r_desc ?t of None \<Rightarrow> [] | Some _ \<Rightarrow> [D_coherent_free (r_dma ?t)]) {#}"
    by (auto simp: moves_def split: option.splits)
  have b: "moves (case r_buf ?t of None \<Rightarrow> {#} | Some (q, buf) \<Rightarrow> add_mset (R_mem q) (rx_sum buf))
      (case r_buf ?t of None \<Rightarrow> [] | Some (q, buf) \<Rightarrow> free_rx_bufs (take (r_count ?t) buf) @ [D_kfree q]) {#}"
  proof (cases "r_buf ?t")
    case (Some x)
    obtain q buf where x: "x = (q, buf)" by (cases x)
    from moves_then [OF moves_free_rx [of buf] moves_release [of "D_kfree q" "R_mem q" "{#}", simplified]]
    show ?thesis using assms(1) Some x by simp
  qed (simp add: moves_neutral)
  from moves_then [OF b d] assms(2)
  show ?thesis by (auto simp: edunic_free_rx_resources_def Let_def ed_rx_held_def)
qed

section \<open>Transmission and completion\<close>

lemma moves_clean_tx_loop:
  "ed_tx_inv desc buf c m h \<Longrightarrow> edunic_clean_tx_loop h desc buf c p b = Some (desc', buf', c', p', b', as)
   \<Longrightarrow> moves (tx_sum buf) as (tx_sum buf')"
proof (induction h desc buf c p b arbitrary: desc' buf' c' p' b' as rule: edunic_clean_tx_loop.induct)
  case (1 h desc buf c p b)
  from 1(2) have o: "ring_in_order 256 c m h" and len: "length desc = 256" "length buf = 256" by (simp_all add: ed_tx_inv_def)
  note l = ring_in_orderD [OF o]
  show ?case
  proof (cases "c = h \<or> td_status (desc ! c) AND EDUNIC_TXD_STAT_DD = 0")
    case True
    with 1(3) l len have "as = []" "buf' = buf"
      by (auto simp: edunic_clean_tx_loop.simps [of h desc buf c] Let_def split: if_splits)
    then show ?thesis by (simp add: moves_neutral)
  next
    case False
    have cm: "c \<noteq> m"
    proof
      assume "c = m"
      with False have "c \<in> set (ring_slots 256 m h)" using ed_ix.in_order_hw(2) [OF o] by simp
      with 1(2) False show False by (simp add: ed_tx_inv_def tx_dd_def)
    qed
    note d = ed_ix.in_order_deq [OF o cm]
    let ?b = "buf[c := zero_tx_buf]"
    obtain s where s: "tb_skb (buf ! c) = Some s" using inv_slot [OF 1(2), of c] d(2) by (auto simp: tx_slot_ok_def)
    obtain as' where rec: "edunic_clean_tx_loop h (desc[c := (desc ! c)\<lparr>td_status := 0\<rparr>]) ?b (edunic_next c) (p + 1)
        (b + of_nat (tb_len (buf ! c))) = Some (desc', buf', c', p', b', as')"
      and as: "as = D_dma_unmap DMA_TO_DEVICE (tb_dma (buf ! c)) (of_nat (tb_len (buf ! c))) # D_kfree_skb s # as'"
      using 1(3) False l len s by (auto simp: edunic_clean_tx_loop.simps [of h desc buf c] Let_def)
    have IH: "moves (tx_sum ?b) as' (tx_sum buf')"
      using 1(1) [OF _ _ refl refl _ ed_tx_inv_deq [OF 1(2) cm] rec] False l len by simp
    have "tx_sum buf = add_mset (R_dma DMA_TO_DEVICE (tb_dma (buf ! c)) (of_nat (tb_len (buf ! c)))) (add_mset (R_packet s) (tx_sum ?b))"
      using tx_sum_update [of c buf zero_tx_buf] l len s by (simp add: tx_buf_held_def zero_tx_buf_def)
    then have "moves (tx_sum buf) [D_dma_unmap DMA_TO_DEVICE (tb_dma (buf ! c)) (of_nat (tb_len (buf ! c))), D_kfree_skb s] (tx_sum ?b)"
      by (simp add: moves_def)
    from moves_append [OF this IH] show ?thesis unfolding as by simp
  qed
qed

lemma clean_tx_moves:
  assumes ok: "ed_tx_ok a" and x: "edunic_clean_tx_irq a = Some (n, a', as)"
  shows "moves (rings_held a) as (rings_held a') \<and> ad_irq a' = ad_irq a \<and> ad_wq a' = ad_wq a"
proof -
  from ok obtain desc q buf where t: "t_desc (ad_tx a) = Some desc" "t_buf (ad_tx a) = Some (q, buf)"
    and inv: "ed_tx_inv desc buf (t_next_to_clean (ad_tx a)) (tdh a) (t_next_to_use (ad_tx a))" by (rule ed_tx_okD)
  obtain desc' buf' by' c' p' as' where
    loop: "edunic_clean_tx_loop (t_next_to_use (ad_tx a)) desc buf (t_next_to_clean (ad_tx a)) 0 0 = Some (desc', buf', c', p', by', as')"
    using clean_tx_loop_ok [OF inv, of 0 0] by blast
  note m = moves_clean_tx_loop [OF inv loop]
  have r: "ad_rx a' = ad_rx a" "t_desc (ad_tx a') = Some desc'" "t_buf (ad_tx a') = Some (q, buf')" "t_dma (ad_tx a') = t_dma (ad_tx a)"
    "ad_irq a' = ad_irq a" "ad_wq a' = ad_wq a" and as: "as = as' \<or> as = as' @ [D_wake_queue]"
    using x t loop by (auto simp: edunic_clean_tx_irq_def Let_def split: if_splits)
  have "moves (tx_sum buf) as (tx_sum buf')"
    using as m moves_append [OF m moves_neutral [of "[D_wake_queue]"]] by auto
  from moves_frame2 [OF moves_frame [OF this, of "{#R_mem q, R_coherent (t_dma (ad_tx a))#}"], of "ed_rx_held (ad_rx a)"]
  show ?thesis using t r by (simp add: rings_held_def ed_tx_held_def)
qed

lemma xmit_moves:
  assumes ok: "ed_tx_ok a" and x: "edunic_start_xmit (addr, err) b a = Some (r, a', as)"
  shows "moves (rings_held a) (handed r b @ as) (rings_held a') \<and> ad_irq a' = ad_irq a \<and> ad_wq a' = ad_wq a"
proof -
  consider (full) "tx_full a" | (fail) "\<not> tx_full a" err | (put) "\<not> tx_full a" "\<not> err" by blast
  then show ?thesis
  proof cases
    case full
    from xmit_full [OF ok full, of "(addr, err)" b] x show ?thesis
      by (auto simp: rings_held_def intro: moves_neutral)
  next
    case fail
    have "moves A [D_take_skb b, D_kfree_skb b] A" for A by (simp add: moves_def)
    with xmit_error [OF ok fail(1), of addr b] x fail show ?thesis by (auto simp: rings_held_def)
  next
    case put
    from ok obtain desc q buf where t: "t_desc (ad_tx a) = Some desc" "t_buf (ad_tx a) = Some (q, buf)"
      and inv: "ed_tx_inv desc buf (t_next_to_clean (ad_tx a)) (tdh a) (t_next_to_use (ad_tx a))" by (rule ed_tx_okD)
    let ?h = "t_next_to_use (ad_tx a)"
    have l: "?h < 256" "length desc = 256" "length buf = 256" using inv by (auto simp: ed_tx_inv_def ring_in_order_def)
    have e: "tb_skb (buf ! ?h) = None"
      using inv l head_notin_slots [of ?h 256 "t_next_to_clean (ad_tx a)"] by (simp add: ed_tx_inv_def)
    obtain desc' bs where r: "ad_rx a' = ad_rx a" "t_desc (ad_tx a') = Some desc'" "t_buf (ad_tx a') = Some (q, buf[?h := put_buf addr b])"
      "t_dma (ad_tx a') = t_dma (ad_tx a)" "ad_irq a' = ad_irq a" "ad_wq a' = ad_wq a" and
      as: "as = D_dma_map DMA_TO_DEVICE addr (skb_len b) # bs" "neutral bs" "r = NETDEV_TX_OK"
      using x put t l maybe_stop_full [OF ok]
      by (auto simp: edunic_start_xmit_def maybe_stop_eq Let_def edunic_hw_kick_tx_def put_buf_def split: if_splits)
    let ?add = "\<lambda>A. add_mset (R_dma DMA_TO_DEVICE addr (skb_len b)) (add_mset (R_packet b) A)"
    have "tx_sum (buf[?h := put_buf addr b]) = ?add (tx_sum buf)"
      using tx_sum_update [of ?h buf "put_buf addr b"] l e by (simp add: tx_buf_held_def put_buf_def)
    then have "rings_held a' = ?add (rings_held a)"
      using t r by (simp add: rings_held_def ed_tx_held_def)
    moreover have "moves (rings_held a) [D_take_skb b, D_dma_map DMA_TO_DEVICE addr (skb_len b)] (?add (rings_held a))"
      by (simp add: moves_def)
    from moves_append [OF this moves_neutral [OF as(2)]] have "moves (rings_held a) (handed r b @ as) (?add (rings_held a))"
      by (simp add: as(1,3))
    ultimately show ?thesis using r(5,6) by simp
  qed
qed

end
