(* ===== verification/Edunic_Life_Rx.thy ===== *)
theory Edunic_Life_Rx
  imports Edunic_Life Edunic_Flow_Props
begin

text \<open>
  The resource account of edunic's receive side and of the emulated engine, and of whole runs:
  every receive buffer and every mapping is released or handed over exactly once.
\<close>

section \<open>Harvest and refill\<close>

lemma moves_clean_rx_loop:
  "ed_rx_inv desc buf c m h \<Longrightarrow> edunic_clean_rx_loop n desc buf c w s = Some (desc', buf', c', w', s', as)
   \<Longrightarrow> moves (rx_sum buf) as (rx_sum buf')"
proof (induction n arbitrary: desc buf c w s desc' buf' c' w' s' as)
  case 0
  then show ?case by (simp add: moves_neutral)
next
  case (Suc n)
  note f = ed_rx_inv_orderD [OF Suc.prems(1)]
  note l = ring_in_orderD [OF conjunct1 [OF f]]
  show ?case
  proof (cases "c = m")
    case True
    with Suc.prems have "as = []" "buf' = buf"
      using f l ed_rx_inv_at [OF Suc.prems(1)] by (simp_all add: Let_def rx_dd_def)
    then show ?thesis by (simp add: moves_neutral)
  next
    case False
    note q = ed_ix.in_order_deq [OF conjunct1 [OF f] False]
    let ?d = "(desc ! c)\<lparr>rd_status := 0, rd_errors := 0\<rparr>" and ?b = "(buf ! c)\<lparr>rb_skb := None, rb_dma := 0\<rparr>"
    obtain i data where b: "rb_skb (buf ! c) = Some (i, data)" "length data = 2048"
      using ed_rx_inv_slot [OF Suc.prems(1), of c] q(2) by (auto simp: rx_slot_ok_def)
    have dd: "rd_status (desc ! c) AND EDUNIC_RXD_STAT_DD \<noteq> 0" "unat (rd_length (desc ! c)) \<le> 2048"
      using ed_rx_inv_dd [OF Suc.prems(1), of c] q(3) by (simp_all add: rx_dd_def)
    have inv: "ed_rx_inv (desc[c := ?d]) (buf[c := ?b]) (edunic_next c) m h"
      by (rule ed_rx_inv_deq [OF Suc.prems(1) False]) (simp_all add: rx_dd_def)
    define unmap where "unmap = D_dma_unmap DMA_FROM_DEVICE (rb_dma (buf ! c)) (of_nat (rb_len (buf ! c)))"
    define give where "give = (if rd_errors (desc ! c) AND EDUNIC_RXD_ERR_RXE \<noteq> 0 then D_free_skb i
      else D_gro_receive i (take (unat (rd_length (desc ! c))) data) (rd_status (desc ! c) AND EDUNIC_RXD_STAT_CSUM_VALID \<noteq> 0))"
    obtain s1 as' where rec: "edunic_clean_rx_loop n (desc[c := ?d]) (buf[c := ?b]) (edunic_next c) (Suc w) s1 =
        Some (desc', buf', c', w', s', as')" and as: "as = unmap # give # as'"
      using Suc.prems(2) f l dd b by (auto simp: Let_def unmap_def give_def split: if_splits)
    have "rx_sum buf = {#R_dma DMA_FROM_DEVICE (rb_dma (buf ! c)) (of_nat (rb_len (buf ! c))), R_skb i#} + rx_sum (buf[c := ?b])"
      using rx_sum_update [of c buf ?b] f l b by (simp add: rx_buf_held_def)
    then have "moves (rx_sum buf) [unmap, give] (rx_sum (buf[c := ?b]))"
      by (simp add: moves_def unmap_def give_def)
    from moves_append [OF this Suc.IH [OF inv rec]] show ?thesis unfolding as by simp
  qed
qed

lemma moves_alloc_rx_loop:
  "ed_rx_inv desc buf c m h \<Longrightarrow> ring_used 256 c h + n \<le> 255 \<Longrightarrow>
   edunic_alloc_rx_loop env n p desc buf h = Some (desc', buf', h', j, as) \<Longrightarrow> moves (rx_sum buf) as (rx_sum buf')"
proof (induction n arbitrary: p desc buf h desc' buf' h' j as)
  case 0
  then show ?case by (simp add: moves_neutral)
next
  case (Suc n)
  note f = ed_rx_inv_orderD [OF Suc.prems(1)]
  note l = ring_in_orderD [OF conjunct1 [OF f]]
  show ?case
  proof (cases "env p")
    case No_skb
    with Suc.prems(3) show ?thesis by (simp add: moves_neutral)
  next
    case (Map_error i)
    with Suc.prems(3) show ?thesis by (auto simp: moves_def)
  next
    case (Posted i content dma)
    let ?d = "(desc ! h)\<lparr>rd_buffer_addr := dma, rd_length := 0, rd_status := 0, rd_errors := 0\<rparr>"
    let ?b = "\<lparr>rb_skb = Some (i, map content [0..<EDUNIC_RX_BUF_SIZE]), rb_dma = dma, rb_len = EDUNIC_RX_BUF_SIZE\<rparr>"
    have nf: "edunic_next h \<noteq> c" using Suc.prems(2) ed_ix.full_iff l by auto
    have inv: "ed_rx_inv (desc[h := ?d]) (buf[h := ?b]) c m (edunic_next h)"
      by (rule ed_rx_inv_put [OF Suc.prems(1) nf]) (simp_all add: rx_dd_def rx_slot_ok_def EDUNIC_RX_BUF_SIZE_def)
    have u: "ring_used 256 c (edunic_next h) + n \<le> 255" using ed_ix.used_enq l nf Suc.prems(2) by simp
    obtain as' where rec: "edunic_alloc_rx_loop env n (Suc p) (desc[h := ?d]) (buf[h := ?b]) (edunic_next h) =
        Some (desc', buf', h', j, as')"
      and as: "as = [D_alloc_skb i, D_dma_map DMA_FROM_DEVICE dma (of_nat EDUNIC_RX_BUF_SIZE)] @ as'"
      using Suc.prems(3) Posted f l by auto
    have "rb_skb (buf ! h) = None" using Suc.prems(1) l head_notin_slots [of h 256 c] by (simp add: ed_rx_inv_def)
    then have "rx_sum (buf[h := ?b]) = {#R_dma DMA_FROM_DEVICE dma (of_nat EDUNIC_RX_BUF_SIZE), R_skb i#} + rx_sum buf"
      using rx_sum_update [of h buf ?b] f l by (simp add: rx_buf_held_def)
    then have "moves (rx_sum buf) [D_alloc_skb i, D_dma_map DMA_FROM_DEVICE dma (of_nat EDUNIC_RX_BUF_SIZE)] (rx_sum (buf[h := ?b]))"
      by (simp add: moves_def)
    from moves_append [OF this Suc.IH [OF inv u rec]] show ?thesis unfolding as by simp
  qed
qed

lemma alloc_rx_moves:
  assumes ok: "ed_rx_ok a" and room: "rx_total a + n \<le> 255" and x: "edunic_alloc_rx_buffers env n a = Some (j, a', as)"
  shows "moves (rings_held a) as (rings_held a')"
proof -
  from ok obtain desc q buf where t: "r_desc (ad_rx a) = Some desc" "r_buf (ad_rx a) = Some (q, buf)"
    and inv: "ed_rx_inv desc buf (r_next_to_clean (ad_rx a)) (rdh a) (r_next_to_use (ad_rx a))" by (rule ed_rx_okD)
  have room': "ring_used 256 (r_next_to_clean (ad_rx a)) (r_next_to_use (ad_rx a)) + n \<le> 255" using room by (simp add: rx_total_def)
  obtain desc' buf' h' j' as' where loop: "edunic_alloc_rx_loop env n 0 desc buf (r_next_to_use (ad_rx a)) = Some (desc', buf', h', j', as')"
    using alloc_rx_loop_ok [OF inv room', of env 0] by blast
  note m = moves_alloc_rx_loop [OF inv room' loop]
  have r: "ad_tx a' = ad_tx a" "r_desc (ad_rx a') = Some desc'" "r_buf (ad_rx a') = Some (q, buf')" "r_dma (ad_rx a') = r_dma (ad_rx a)"
    and as: "as = as' \<or> as = as' @ [D_writel EDUNIC_REG_RDT (of_nat h')]"
    using x t loop by (auto simp: edunic_alloc_rx_buffers_def Let_def split: if_splits)
  have "moves (rx_sum buf) as (rx_sum buf')"
    using as m moves_append [OF m moves_neutral [of "[D_writel EDUNIC_REG_RDT (of_nat h')]"]] by auto
  from moves_frame [OF moves_frame [OF this, of "{#R_mem q, R_coherent (r_dma (ad_rx a))#}"], of "ed_tx_held (ad_tx a)"]
  show ?thesis using t r by (simp add: rings_held_def ed_rx_held_def)
qed

lemma clean_rx_moves:
  assumes ok: "ed_rx_ok a" and x: "edunic_clean_rx_irq env budget a = Some (w, a', as)"
  shows "moves (rings_held a) as (rings_held a')"
proof (cases "budget \<le> 0")
  case True
  with x show ?thesis by (simp add: edunic_clean_rx_irq_def Let_def moves_neutral)
next
  case False
  from ok obtain desc q buf where t: "r_desc (ad_rx a) = Some desc" "r_buf (ad_rx a) = Some (q, buf)" "r_count (ad_rx a) = 256"
    and inv: "ed_rx_inv desc buf (r_next_to_clean (ad_rx a)) (rdh a) (r_next_to_use (ad_rx a))"
    and reg: "reg EDUNIC_REG_RDT a = of_nat (r_next_to_use (ad_rx a))" by (rule ed_rx_okD)
  let ?c = "r_next_to_clean (ad_rx a)" and ?m = "rdh a" and ?h = "r_next_to_use (ad_rx a)"
  define k where "k = min (nat budget) (ring_used 256 ?c ?m)"
  from clean_rx_loop_ok [OF inv k_def, of 0 "ad_stats a", unfolded add_0] obtain desc' buf' c' s' as1 where
    loop: "edunic_clean_rx_loop (nat budget) desc buf ?c 0 (ad_stats a) = Some (desc', buf', c', k, s', as1)"
    and inv': "ed_rx_inv desc' buf' c' ?m ?h" and u: "ring_used 256 ?c ?h = k + ring_used 256 c' ?h" by blast
  define b where "b = a\<lparr>ad_rx := (ad_rx a)\<lparr>r_desc := Some desc', r_buf := Some (q, buf'), r_next_to_clean := c'\<rparr>, ad_stats := s'\<rparr>"
  have okb: "ed_rx_ok b" using inv' t reg by (simp add: ed_rx_ok_def b_def)
  from moves_frame [OF moves_frame [OF moves_clean_rx_loop [OF inv loop], of "{#R_mem q, R_coherent (r_dma (ad_rx a))#}"], of "ed_tx_held (ad_tx a)"]
  have m: "moves (rings_held a) as1 (rings_held b)" using t by (simp add: rings_held_def ed_rx_held_def b_def)
  have room: "rx_total b + k \<le> 255" using u rx_total_le [OF ok] by (simp add: rx_total_def b_def)
  then have k16: "k mod 65536 = k" by simp
  show ?thesis
  proof (cases "k = 0")
    case True
    with x False t loop have "a' = b" "as = as1" by (auto simp: edunic_clean_rx_irq_def Let_def b_def)
    with m show ?thesis by simp
  next
    case kpos: False
    obtain j as2 where al: "edunic_alloc_rx_buffers env k b = Some (j, a', as2)" and as: "as = as1 @ as2"
      using x False t loop k16 kpos by (auto simp: edunic_clean_rx_irq_def Let_def b_def)
    from moves_append [OF m alloc_rx_moves [OF okb room al]] show ?thesis unfolding as .
  qed
qed

lemma poll_moves:
  assumes ok: "ed_ok a" and x: "edunic_poll env complete budget a = Some (w, a', as)"
  shows "moves (rings_held a) as (rings_held a') \<and> ad_irq a' = ad_irq a \<and> ad_wq a' = ad_wq a"
proof -
  have tx: "ed_tx_ok a" and rx: "ed_rx_ok a" using ok by (simp_all add: ed_ok_def)
  obtain b as1 t s where c: "edunic_clean_tx_irq a = Some (length (tx_done_slots a), b, as1)" and
    b: "b = a\<lparr>ad_tx := t, ad_stats := s, ad_stopped := (ad_stopped a \<and> tx_done_slots a = [])\<rparr>"
    by (rule clean_tx_ok [OF tx]) (rule that; assumption)
  have "rx_same a b" by (simp add: b)
  from rx_same_views(1) [OF this] have rxb: "ed_rx_ok b" using rx by simp
  obtain w' d as2 where r: "edunic_clean_rx_irq env budget b = Some (w', d, as2)" "ad_irq d = ad_irq b" "ad_wq d = ad_wq b"
    by (rule clean_rx_irq_ok [OF rxb refl, of env budget]) (rule that; assumption)
  note m = moves_append [OF conjunct1 [OF clean_tx_moves [OF tx c]] clean_rx_moves [OF rxb r(1)]]
  have h: "rings_held (edunic_reg_write reg v d) = rings_held d" for reg v by (simp add: rings_held_def)
  have bf: "ad_irq b = ad_irq a" "ad_wq b = ad_wq a" by (simp_all add: b)
  obtain fin where "as = (as1 @ as2) @ fin" "neutral fin" "rings_held a' = rings_held d" "ad_irq a' = ad_irq d" "ad_wq a' = ad_wq d"
    using x c r(1) h by (auto simp: edunic_poll_def split: if_splits)
  with moves_append [OF m moves_neutral [of fin]] r(2,3) bf show ?thesis by simp
qed

section \<open>The engine\<close>

lemma deliver_moves:
  assumes "edunic_hw_deliver_rx_frame f a = Some (a', as)"
  shows "neutral as \<and> rings_held a' = rings_held a \<and> ad_tx a' = ad_tx a"
proof -
  have rd: "edunic_reg_read EDUNIC_REG_RDH a = (reg EDUNIC_REG_RDH a, a)" "edunic_reg_read EDUNIC_REG_RDT a = (reg EDUNIC_REG_RDT a, a)"
    by (simp_all add: reg_read_plain edunic_regs)
  have "rx_sum (buf[i := (buf ! i)\<lparr>rb_skb := Some (n, data')\<rparr>]) = rx_sum buf"
    if "rb_skb (buf ! i) = Some (n, data)" "i < length buf" for i n data data' and buf :: "edunic_rx_buf list"
    using that by (intro rx_sum_same) (simp_all add: rx_buf_held_def)
  with assms show ?thesis
    by (auto simp: edunic_hw_deliver_rx_frame_def rd Let_def rings_held_def ed_rx_held_def not_le split: if_splits option.splits prod.splits)
qed

lemma work_one_moves:
  assumes "edunic_tx_work_one mem m a = Some (a', as)"
  shows "moves (rings_held a) as (rings_held a')"
proof -
  define upd where "upd = (\<lambda>a :: edunic_adapter. a\<lparr>ad_tx := (ad_tx a)\<lparr>t_desc :=
    map_option (\<lambda>ds. ds[m := (ds ! m)\<lparr>td_status := EDUNIC_TXD_STAT_DD\<rparr>]) (t_desc (ad_tx a))\<rparr>\<rparr>)"
  have h: "rings_held (upd x) = rings_held x" for x
    by (simp add: upd_def rings_held_def ed_tx_held_def split: option.splits)
  consider (none) "a' = upd a" "neutral as"
    | (loop) cpu q dev f b bs where "edunic_hw_deliver_rx_frame f a = Some (b, bs)" "a' = upd b"
      "as = [cpu, D_kmalloc q, dev] @ bs @ [D_kfree q]" "neutral [cpu, dev]"
    using assms by (auto simp: edunic_tx_work_one_def upd_def Let_def split: option.splits if_splits)
  then show ?thesis
  proof cases
    case none
    then show ?thesis by (simp add: h moves_neutral)
  next
    case loop
    from deliver_moves [OF loop(1)] have "neutral bs" "rings_held b = rings_held a" by simp_all
    with loop show ?thesis by (simp add: moves_def h ledger_append ledger_neutral)
  qed
qed

lemma work_loop_moves:
  "edunic_tx_work_loop mem fuel n head tail a = Some (h, sent, a', as) \<Longrightarrow> moves (rings_held a) as (rings_held a')"
proof (induction fuel arbitrary: n head a as)
  case 0
  then show ?case by (simp add: moves_neutral split: if_splits)
next
  case (Suc fuel)
  show ?case
  proof (cases "head = tail")
    case True
    with Suc.prems show ?thesis by (simp add: moves_neutral)
  next
    case False
    with Suc.prems obtain b as1 as2 where "edunic_tx_work_one (mem n) (unat head) a = Some (b, as1)"
      "edunic_tx_work_loop mem fuel (Suc n) (of_nat (edunic_next (unat head))) tail b = Some (h, sent, a', as2)" "as = as1 @ as2"
      by (auto split: option.splits)
    with moves_append [OF work_one_moves Suc.IH] show ?thesis by blast
  qed
qed

lemma intr_moves:
  assumes "edunic_intr prep a = (r, a', as)"
  shows "neutral as \<and> rings_held a' = rings_held a \<and> ad_irq a' = ad_irq a \<and> ad_wq a' = ad_wq a"
  using assms by (auto simp: edunic_intr_def edunic_reg_read_def Let_def rings_held_def split: if_splits)

lemma worker_moves:
  assumes ok: "ed_ok a" and x: "edunic_hw_tx_worker mem prep a = Some (a', as)"
  shows "moves (rings_held a) as (rings_held a') \<and> ad_irq a' = ad_irq a \<and> ad_wq a' = ad_wq a"
proof -
  obtain a'' as' where w: "edunic_hw_tx_worker mem prep a = Some (a'', as')" "ad_wq a'' = ad_wq a" "ad_irq a'' = ad_irq a"
    by (rule worker_ok [OF ok, of mem prep]) (rule that; assumption)
  have rd: "edunic_reg_read EDUNIC_REG_TDH a = (reg EDUNIC_REG_TDH a, a)" "edunic_reg_read EDUNIC_REG_TDT a = (reg EDUNIC_REG_TDT a, a)"
    by (simp_all add: reg_read_plain edunic_regs)
  obtain h sent b as1 where l: "edunic_tx_work_loop mem EDUNIC_RING_SIZE 0 (reg EDUNIC_REG_TDH a) (reg EDUNIC_REG_TDT a) a = Some (h, sent, b, as1)"
    using x by (auto simp: edunic_hw_tx_worker_def rd split: option.splits)
  note m = moves_append [OF moves_neutral [of "[D_readl EDUNIC_REG_TDH, D_readl EDUNIC_REG_TDT]"] work_loop_moves [OF l], simplified]
  have "moves (rings_held a) as (rings_held a')"
  proof (cases sent)
    case False
    with x l m show ?thesis by (simp add: edunic_hw_tx_worker_def rd)
  next
    case True
    define c where "c = edunic_reg_write EDUNIC_REG_ICS EDUNIC_INT_TX (edunic_reg_write EDUNIC_REG_TDH h b)"
    obtain r d as2 where i: "edunic_intr prep c = (r, d, as2)" by (cases "edunic_intr prep c")
    have "a' = d" "as = [D_readl EDUNIC_REG_TDH, D_readl EDUNIC_REG_TDT] @ as1 @ [D_writel EDUNIC_REG_TDH h, D_writel EDUNIC_REG_ICS EDUNIC_INT_TX] @ as2"
      using x l i True by (simp_all add: edunic_hw_tx_worker_def rd Let_def c_def)
    moreover have "rings_held c = rings_held b" by (simp add: c_def rings_held_def)
    ultimately show ?thesis
      using intr_moves [OF i] moves_append [OF m moves_neutral [of "[D_writel EDUNIC_REG_TDH h, D_writel EDUNIC_REG_ICS EDUNIC_INT_TX] @ as2"]]
      by simp
  qed
  with w x show ?thesis by simp
qed

section \<open>Runs\<close>

definition ed_held :: "bool \<Rightarrow> edunic_adapter \<Rightarrow> resource multiset" where
  "ed_held up a = {#R_pci, R_regions, R_iomap, R_netdev, R_napi, R_registered#} + (if ad_wq a then {#R_workqueue#} else {#}) +
     (if up then {#R_irq (ad_irq a), R_vectors#} else {#}) + rings_held a"

text \<open>
  The kernel opens an interface that is down and stops one that is up; whether the interface is
  up after an operation, \<open>None\<close> for a call the kernel does not make.
\<close>

fun next_up :: "bool \<Rightarrow> ed_op \<Rightarrow> bool option" where
  "next_up up (E_open e) = (if up then None else Some (ie_vectors e \<ge> 0 \<and> ie_request e = 0))"
| "next_up up E_stop = (if up then Some False else None)"
| "next_up up _ = Some up"

fun run_up :: "bool \<Rightarrow> ed_op list \<Rightarrow> bool option" where
  "run_up up [] = Some up"
| "run_up up (op # ops) = (case next_up up op of None \<Rightarrow> None | Some up' \<Rightarrow> run_up up' ops)"

lemma held_same_irq:
  assumes "moves (rings_held a) as (rings_held a')" "ad_irq a' = ad_irq a" "ad_wq a' = ad_wq a"
  shows "ledger (ed_held up a) as = Some (ed_held up a')"
  using assms(1) unfolding moves_def ed_held_def assms(2,3) by blast

lemma neutral_held:
  "neutral as \<Longrightarrow> rings_held a' = rings_held a \<Longrightarrow> ad_irq a' = ad_irq a \<Longrightarrow> ad_wq a' = ad_wq a \<Longrightarrow>
   ledger (ed_held up a) as = Some (ed_held up a')"
  using held_same_irq [of a as a'] moves_neutral [of as "rings_held a"] by simp

lemma link_neutral:
  assumes "edunic_link_timer_fn prep a = (a', as)"
  shows "neutral as \<and> rings_held a' = rings_held a \<and> ad_irq a' = ad_irq a \<and> ad_wq a' = ad_wq a"
proof -
  define b where "b = edunic_reg_write EDUNIC_REG_ICS EDUNIC_INT_LSC (edunic_reg_write EDUNIC_REG_STATUS
    (reg EDUNIC_REG_STATUS (a\<lparr>ad_link_up := True\<rparr>) OR EDUNIC_STATUS_LINKUP) (a\<lparr>ad_link_up := True\<rparr>))"
  obtain r c bs where i: "edunic_intr prep b = (r, c, bs)" by (cases "edunic_intr prep b")
  have "a' = c \<and> neutral as = neutral bs"
    using assms i by (auto simp: edunic_link_timer_fn_def reg_read_plain edunic_regs Let_def b_def)
  moreover have "rings_held b = rings_held a" "ad_irq b = ad_irq a" "ad_wq b = ad_wq a" by (simp_all add: b_def rings_held_def)
  ultimately show ?thesis using intr_moves [OF i] by simp
qed

lemma ed_step_held:
  assumes ok: "ed_ok a" and st: "ed_step op a = Some (a', sent, as)" and up: "next_up up op = Some up'"
  shows "ledger (ed_held up a) as = Some (ed_held up' a')"
proof (cases op)
  case (E_xmit addr err b)
  have tx: "ed_tx_ok a" using ok by (simp add: ed_ok_def)
  from st up E_xmit xmit_moves [OF tx, of addr err b] show ?thesis by (auto intro!: held_same_irq)
next
  case (E_work mem prep)
  from st up E_work worker_moves [OF ok, of mem prep] show ?thesis by (auto intro!: held_same_irq)
next
  case (E_poll env complete budget)
  from st up E_poll poll_moves [OF ok, of env complete budget] show ?thesis by (auto intro!: held_same_irq)
next
  case (E_intr prep)
  from st up E_intr intr_moves [of prep a] show ?thesis by (auto split: prod.splits intro!: neutral_held)
next
  case (E_link prep)
  from st up E_link link_neutral [of prep a] show ?thesis by (auto split: prod.splits intro!: neutral_held)
next
  case (E_open e)
  with up have u: "\<not> up" "up' = (ie_vectors e \<ge> 0 \<and> ie_request e = 0)" by (auto split: if_splits)
  from st E_open u show ?thesis
    by (auto simp: edunic_open_def edunic_setup_interrupts_def edunic_hw_start_def reg_read_plain edunic_regs Let_def
        ed_held_def rings_held_def split: if_splits prod.splits)
next
  case E_stop
  with up have u: up "\<not> up'" by (auto split: if_splits)
  from st E_stop u show ?thesis
    by (auto simp: edunic_stop_def edunic_hw_stop_def reg_read_plain edunic_regs Let_def edunic_free_interrupts_def
        ed_held_def rings_held_def)
next
  case (E_mtu m)
  from st up E_mtu show ?thesis by (auto simp: edunic_change_mtu_def ed_held_def rings_held_def)
next
  case (E_mac check addr)
  from st up E_mac show ?thesis
    by (auto simp: edunic_set_mac_address_def edunic_hw_set_mac_def Let_def ed_held_def rings_held_def split: if_splits prod.splits)
qed

lemma ed_run_held:
  "ed_ok a \<Longrightarrow> run_up up ops = Some up' \<Longrightarrow>
   \<exists>t sent as. ed_run a ops = Some (t, sent, as) \<and> ed_ok t \<and> ledger (ed_held up a) as = Some (ed_held up' t)"
proof (induction ops arbitrary: a up)
  case Nil
  then show ?case by simp
next
  case (Cons op ops)
  from ed_step_ok [OF Cons.prems(1), of op] obtain b s1 as1 where 1: "ed_step op a = Some (b, s1, as1)" "ed_ok b"
    unfolding step_ok_def by (elim exE conjE) (rule that; assumption)
  from Cons.prems(2) obtain up1 where u: "next_up up op = Some up1" "run_up up1 ops = Some up'" by (auto split: option.splits)
  from Cons.IH [OF 1(2) u(2)] obtain t s2 as2 where
    "ed_run b ops = Some (t, s2, as2)" "ed_ok t" "ledger (ed_held up1 b) as2 = Some (ed_held up' t)" by blast
  with 1 ed_step_held [OF Cons.prems(1) 1(1) u(1)] show ?case by (simp add: ledger_append)
qed

end
