(* ===== verification/Edunic_Life_Props.thy ===== *)
theory Edunic_Life_Props
  imports Edunic_Life_Rx
begin

text \<open>
  Probe, removal and the whole life of the edunic driver: each failing probe releases exactly
  what it took, and a device that was probed, used in any way and removed leaves nothing behind.
\<close>

section \<open>Removal\<close>

lemma ed_buf_lengths:
  assumes "ed_ok a"
  shows "\<forall>q buf. t_buf (ad_tx a) = Some (q, buf) \<longrightarrow> length buf \<le> t_count (ad_tx a)"
    "\<forall>q buf. r_buf (ad_rx a) = Some (q, buf) \<longrightarrow> length buf \<le> r_count (ad_rx a)"
  using assms by (auto simp: ed_ok_def ed_tx_ok_def ed_rx_ok_def ed_tx_inv_def ed_rx_inv_def)

lemma free_rings_moves:
  assumes ok: "\<forall>q buf. t_buf (ad_tx a) = Some (q, buf) \<longrightarrow> length buf \<le> t_count (ad_tx a)"
      "\<forall>q buf. r_buf (ad_rx a) = Some (q, buf) \<longrightarrow> length buf \<le> r_count (ad_rx a)"
    and rx: "edunic_free_rx_resources a = (b, rs)" and tx: "edunic_free_tx_resources b = (c, ts)"
  shows "moves (rings_held a) (rs @ ts) {#}"
proof -
  from free_rx_resources_moves [OF ok(2) rx] have r: "moves (ed_rx_held (ad_rx a)) rs {#}" "ad_tx b = ad_tx a" by simp_all
  with free_tx_resources_moves [of b c ts] tx ok(1) have "moves (ed_tx_held (ad_tx a)) ts {#}" by simp
  from moves_then [OF r(1) this] show ?thesis by (simp add: rings_held_def)
qed

lemma movesD: "moves A as B \<Longrightarrow> ledger (R + A) as = Some (R + B)"
  by (simp add: moves_def)

lemma ledger_then: "ledger A as = Some B \<Longrightarrow> ledger B bs = C \<Longrightarrow> ledger A (as @ bs) = C"
  by (simp add: ledger_append)

lemma edunic_remove_all:
  assumes ok: "ed_ok a"
  shows "ledger (ed_held up a) (edunic_remove up a) = Some {#}"
proof -
  obtain b stop where st: "(if up then snd (edunic_stop a) else (a, [])) = (b, stop)" by (cases "if up then snd (edunic_stop a) else (a, [])")
  have b: "apart a b" "ad_wq b = ad_wq a" "ad_tx b = ad_tx a" "ad_rx b = ad_rx a"
    using st by (auto simp: edunic_stop_def edunic_hw_stop_def reg_read_plain edunic_regs Let_def apart_def split: if_splits)
  have okb: "ed_ok b" using ok apart_views(1) [OF b(1)] by simp
  obtain c em where u: "edunic_hw_emulation_uninit b = (c, em)" by (cases "edunic_hw_emulation_uninit b")
  have c: "ad_tx c = ad_tx b" "ad_rx c = ad_rx b" using u by (auto simp: edunic_hw_emulation_uninit_def split: if_splits)
  obtain d rs where rx: "edunic_free_rx_resources c = (d, rs)" by (cases "edunic_free_rx_resources c")
  obtain e ts where tx: "edunic_free_tx_resources d = (e, ts)" by (cases "edunic_free_tx_resources d")
  have m: "moves (rings_held a) (rs @ ts) {#}"
    using free_rings_moves [OF _ _ rx tx] ed_buf_lengths [OF ok] c b(3,4) by (simp add: rings_held_def)
  define base where "base = {#R_pci, R_regions, R_iomap, R_netdev, R_napi#}"
  define wq where "wq = (if ad_wq a then {#R_workqueue#} else {#})"
  have 1: "ledger (base + add_mset R_registered (wq + (if up then {#R_irq (ad_irq a), R_vectors#} else {#}) + rings_held a))
      (D_unregister_netdev # stop) = Some (base + wq + rings_held a)"
    using st by (auto simp: edunic_stop_def edunic_hw_stop_def reg_read_plain edunic_regs Let_def edunic_free_interrupts_def
        ac_simps split: if_splits)
  have 2: "ledger (base + wq + rings_held a) ([D_napi_del] @ em) = Some ({#R_pci, R_regions, R_iomap, R_netdev#} + rings_held a)"
    using u b(2) by (auto simp: edunic_hw_emulation_uninit_def base_def wq_def split: if_splits)
  have 3: "ledger ({#R_pci, R_regions, R_iomap, R_netdev#} + rings_held a) (rs @ ts) = Some {#R_pci, R_regions, R_iomap, R_netdev#}"
    using movesD [OF m, of "{#R_pci, R_regions, R_iomap, R_netdev#}"] by simp
  have h: "ed_held up a = base + add_mset R_registered (wq + (if up then {#R_irq (ad_irq a), R_vectors#} else {#}) + rings_held a)"
    by (simp add: ed_held_def base_def wq_def)
  have r: "edunic_remove up a = (D_unregister_netdev # stop) @ ([D_napi_del] @ em) @ (rs @ ts) @
      [D_iounmap, D_release_regions, D_free_netdev, D_pci_disable]"
    using st u rx tx by (simp add: edunic_remove_def Let_def)
  show ?thesis unfolding h r by (rule ledger_then [OF 1 ledger_then [OF 2 ledger_then [OF 3]]]) simp
qed

section \<open>Probe\<close>

lemma fresh_rings_ok:
  assumes "t_desc (ad_tx a) = Some (replicate 256 zero_tx_desc)" "t_buf (ad_tx a) = Some (q, replicate 256 zero_tx_buf)"
    "t_count (ad_tx a) = 256" "t_next_to_use (ad_tx a) = 0" "t_next_to_clean (ad_tx a) = 0"
    "r_desc (ad_rx a) = Some (replicate 256 zero_rx_desc)" "r_buf (ad_rx a) = Some (q', replicate 256 zero_rx_buf)"
    "r_count (ad_rx a) = 256" "r_next_to_use (ad_rx a) = 0" "r_next_to_clean (ad_rx a) = 0"
    "reg EDUNIC_REG_TDH a = 0" "reg EDUNIC_REG_TDT a = 0" "reg EDUNIC_REG_RDH a = 0" "reg EDUNIC_REG_RDT a = 0"
  shows "ed_ok a" "rx_total a = 0"
proof -
  have r: "tdh a = 0" "rdh a = 0" using assms by (simp_all add: tdh_def rdh_def)
  have "\<not> tx_dd zero_tx_desc" "\<not> rx_dd zero_rx_desc" "tb_skb zero_tx_buf = None" "rb_skb zero_rx_buf = None"
    by (simp_all add: tx_dd_def rx_dd_def zero_tx_desc_def zero_rx_desc_def zero_tx_buf_def zero_rx_buf_def)
  then show "ed_ok a" using r assms by (simp add: ed_ok_def ed_tx_ok_def ed_rx_ok_def ed_tx_inv_def ed_rx_inv_def)
  show "rx_total a = 0" using assms by (simp add: rx_total_def)
qed

lemma init_rings_facts:
  assumes "edunic_hw_init_rings a = (b, as)"
  shows "ad_tx b = ad_tx a" "ad_rx b = ad_rx a" "ad_wq b = ad_wq a" "reg EDUNIC_REG_TDH b = 0" "reg EDUNIC_REG_TDT b = 0"
    "reg EDUNIC_REG_RDH b = 0" "reg EDUNIC_REG_RDT b = 0" "neutral as"
  using assms by (auto simp: edunic_hw_init_rings_def ring_writes_def edunic_reg_write_def chip_write_def reg_def edunic_regs)

lemma sum_replicate: "tx_sum (replicate n zero_tx_buf) = {#}" "rx_sum (replicate n zero_rx_buf) = {#}"
  by (induction n) (simp_all add: tx_buf_held_def rx_buf_held_def zero_tx_buf_def zero_rx_buf_def)

definition probe_base :: "resource multiset" where "probe_base = {#R_pci, R_regions, R_iomap, R_netdev#}"

lemma ledger_err_free_netdev: "ledger probe_base ed_err_free_netdev = Some {#}"
  by (simp add: probe_base_def ed_err_free_netdev_def ed_err_iounmap_def ed_err_release_regions_def ed_err_disable_device_def)

lemma ledger_err_free_rx:
  assumes "\<forall>q buf. t_buf (ad_tx a) = Some (q, buf) \<longrightarrow> length buf \<le> t_count (ad_tx a)"
      "\<forall>q buf. r_buf (ad_rx a) = Some (q, buf) \<longrightarrow> length buf \<le> r_count (ad_rx a)"
  shows "ledger (probe_base + rings_held a) (ed_err_free_rx a) = Some {#}"
proof -
  obtain b rs where rx: "edunic_free_rx_resources a = (b, rs)" by (cases "edunic_free_rx_resources a")
  obtain c ts where tx: "edunic_free_tx_resources b = (c, ts)" by (cases "edunic_free_tx_resources b")
  have "ed_err_free_rx a = (rs @ ts) @ ed_err_free_netdev"
    using rx tx by (simp add: ed_err_free_rx_def ed_err_free_tx_def)
  then show ?thesis
    using ledger_then [OF movesD [OF free_rings_moves [OF assms rx tx], of probe_base]] ledger_err_free_netdev by simp
qed

definition probe_result :: "(int \<times> edunic_adapter option \<times> drv_act list) option \<Rightarrow> resource multiset \<Rightarrow> bool \<Rightarrow> bool" where
  "probe_result res R good \<longleftrightarrow> (case res of None \<Rightarrow> False
     | Some (ret, None, as) \<Rightarrow> \<not> good \<and> ret \<noteq> 0 \<and> ledger R as = Some {#}
     | Some (ret, Some a, as) \<Rightarrow> good \<and> ret = 0 \<and> ed_ok a \<and> \<not> ad_carrier a \<and> ledger R as = Some (ed_held False a))"

lemma probe_result_prefix:
  "probe_result res R good \<Longrightarrow> ledger S bs = Some R \<Longrightarrow>
   probe_result (map_option (\<lambda>(ret, a, as). (ret, a, bs @ as)) res) S good"
  by (auto simp: probe_result_def intro: ledger_then split: option.splits)

text \<open>The answers of the kernel under which a probe comes to its end.\<close>

definition start_good :: "edunic_env \<Rightarrow> bool" where
  "start_good e \<longleftrightarrow> posted_ans (pe_rx_alloc e 0) \<and> pe_wq e \<and> pe_register e = 0"

definition probe_good :: "edunic_env \<Rightarrow> bool" where
  "probe_good e \<longleftrightarrow> pe_enable e = 0 \<and> pe_regions e = 0 \<and> pe_iomap e \<and> (pe_mask64 e = 0 \<or> pe_mask32 e = 0) \<and> pe_netdev e \<and>
     pe_tx_ring e \<noteq> None \<and> pe_tx_buf e \<noteq> None \<and> pe_rx_ring e \<noteq> None \<and> pe_rx_buf e \<noteq> None \<and> start_good e"

lemma probe_start_result:
  assumes t: "t_desc (ad_tx a) = Some (replicate 256 zero_tx_desc)" "t_buf (ad_tx a) = Some (q, replicate 256 zero_tx_buf)"
    "t_count (ad_tx a) = 256" "t_next_to_use (ad_tx a) = 0" "t_next_to_clean (ad_tx a) = 0"
    "r_desc (ad_rx a) = Some (replicate 256 zero_rx_desc)" "r_buf (ad_rx a) = Some (q', replicate 256 zero_rx_buf)"
    "r_count (ad_rx a) = 256" "r_next_to_use (ad_rx a) = 0" "r_next_to_clean (ad_rx a) = 0"
    and w: "\<not> ad_wq a" and cr: "\<not> ad_carrier a"
  shows "probe_result (edunic_probe_start e a) (probe_base + rings_held a) (start_good e)"
proof -
  obtain b ini where i: "edunic_hw_init_rings a = (b, ini)" by (cases "edunic_hw_init_rings a")
  note f = init_rings_facts [OF i]
  have okb: "ed_ok b" "rx_total b = 0" using fresh_rings_ok [of b q q'] t f by simp_all
  have crb: "\<not> ad_carrier b" using i cr by (auto simp: edunic_hw_init_rings_def ring_writes_def)
  have rxb: "ed_rx_ok b" "rx_total b + 255 \<le> 255" using okb by (simp_all add: ed_ok_def)
  obtain j c al where al: "edunic_alloc_rx_buffers (pe_rx_alloc e) 255 b = Some (j, c, al)"
    "ed_rx_ok c" "tx_same b c" "ad_wq c = ad_wq b" "\<forall>i < j. posted_ans (pe_rx_alloc e i)" "j < 255 \<longrightarrow> \<not> posted_ans (pe_rx_alloc e j)"
    by (rule alloc_rx_buffers_ok [OF rxb]) (rule that; assumption)
  have j: "j \<noteq> 0 \<longleftrightarrow> posted_ans (pe_rx_alloc e 0)" using al(5,6) by (cases j) auto
  have crc: "\<not> ad_carrier c"
    using al(1) crb by (auto simp: edunic_alloc_rx_buffers_def Let_def split: option.splits prod.splits if_splits)
  have okc: "ed_ok c" using okb al(2) tx_same_views(1) [OF al(3)] by (simp add: ed_ok_def)
  have r: "rings_held b = rings_held a" using f by (simp add: rings_held_def)
  have led: "ledger (probe_base + rings_held a) (ini @ al) = Some (probe_base + rings_held c)"
    using ledger_neutral [OF f(8)] movesD [OF alloc_rx_moves [OF rxb al(1)], of probe_base] by (simp add: ledger_append r)
  note err = ledger_err_free_rx [OF ed_buf_lengths [OF okc]]
  have n: "r_count (ad_rx b) - 1 = 255" using t f by simp
  define d where "d = c\<lparr>ad_wq := True\<rparr>"
  have d: "rings_held d = rings_held c" "apart c d" "ad_wq d" by (simp_all add: d_def rings_held_def apart_def tx_same_def rx_same_def)
  have okd: "ed_ok d" using okc apart_views(1) [OF d(2)] by simp
  have errd: "ledger (probe_base + rings_held c) (ed_err_free_rx (d\<lparr>ad_wq := False\<rparr>)) = Some {#}"
    using ledger_err_free_rx [of "d\<lparr>ad_wq := False\<rparr>"] ed_buf_lengths [OF okc] by (simp add: d_def rings_held_def)
  consider (none) "j = 0" | (wq) "j \<noteq> 0" "\<not> pe_wq e" | (reg) "j \<noteq> 0" "pe_wq e" "pe_register e \<noteq> 0" | (good) "j \<noteq> 0" "pe_wq e" "pe_register e = 0"
    by blast
  then show ?thesis
  proof cases
    case none
    then have "edunic_probe_start e a = Some (- ENOMEM, None, (ini @ al) @ ed_err_free_rx c)"
      using i al(1) n by (simp add: edunic_probe_start_def)
    then show ?thesis using none j ledger_then [OF led err] by (simp add: probe_result_def ENOMEM_def start_good_def)
  next
    case wq
    then have "edunic_probe_start e a = Some (- ENOMEM, None, (ini @ al) @ ed_err_free_rx (c\<lparr>ad_wq := False\<rparr>))"
      using i al(1) n by (simp add: edunic_probe_start_def edunic_hw_emulation_init_def ENOMEM_def)
    moreover have "c\<lparr>ad_wq := False\<rparr> = c" using al(4) f(3) w by simp
    ultimately show ?thesis using wq ledger_then [OF led err] by (simp add: probe_result_def ENOMEM_def start_good_def)
  next
    case reg
    then have "edunic_probe_start e a = Some (pe_register e, None, (ini @ al) @
        [D_aux A_workqueue, D_napi_add, D_napi_del, D_aux A_timer_cancel, D_aux A_cancel_work, D_aux A_destroy_workqueue]
        @ ed_err_free_rx (d\<lparr>ad_wq := False\<rparr>))"
      using i al(1) n
      by (simp add: edunic_probe_start_def edunic_hw_emulation_init_def ed_err_napi_del_def edunic_hw_emulation_uninit_def d_def)
    moreover have "ledger (probe_base + rings_held c)
        ([D_aux A_workqueue, D_napi_add, D_napi_del, D_aux A_timer_cancel, D_aux A_cancel_work, D_aux A_destroy_workqueue]
        @ ed_err_free_rx (d\<lparr>ad_wq := False\<rparr>)) = Some {#}"
      by (rule ledger_then [OF _ errd]) simp
    ultimately show ?thesis using reg ledger_then [OF led] by (simp add: probe_result_def start_good_def)
  next
    case good
    then have "edunic_probe_start e a = Some (0, Some d, (ini @ al) @ [D_aux A_workqueue, D_napi_add, D_register_netdev])"
      using i al(1) n by (simp add: edunic_probe_start_def edunic_hw_emulation_init_def d_def)
    moreover have "\<not> ad_carrier d" using crc by (simp add: d_def)
    moreover have "ledger (probe_base + rings_held c) [D_aux A_workqueue, D_napi_add, D_register_netdev] = Some (ed_held False d)"
      using d by (simp add: ed_held_def probe_base_def)
    ultimately show ?thesis using good j ledger_then [OF led] okd by (simp add: probe_result_def start_good_def)
  qed
qed

lemma setup_tx_fails:
  assumes "co = None \<or> me = None"
  obtains b as where "edunic_setup_tx_resources co me a = (- ENOMEM, b, as)" "ledger R as = Some R"
proof (cases co)
  case None
  then show ?thesis using that [of _ "[]"] by (auto simp: edunic_setup_tx_resources_def Let_def)
next
  case (Some dma)
  then show ?thesis using assms that [of _ "[D_coherent_alloc dma, D_coherent_free dma]"]
    by (auto simp: edunic_setup_tx_resources_def Let_def)
qed

lemma setup_rx_fails:
  assumes "co = None \<or> me = None"
  obtains b as where "edunic_setup_rx_resources co me a = (- ENOMEM, b, as)" "ad_tx b = ad_tx a" "ledger R as = Some R"
proof (cases co)
  case None
  then show ?thesis using that [of _ "[]"] by (auto simp: edunic_setup_rx_resources_def Let_def)
next
  case (Some dma)
  then show ?thesis using assms that [of _ "[D_coherent_alloc dma, D_coherent_free dma]"]
    by (auto simp: edunic_setup_rx_resources_def Let_def)
qed

lemma setup_tx_works:
  "edunic_setup_tx_resources (Some dma) (Some q) a =
     (0, a\<lparr>ad_tx := \<lparr>t_desc = Some (replicate 256 zero_tx_desc), t_dma = dma, t_buf = Some (q, replicate 256 zero_tx_buf),
        t_count = 256, t_next_to_use = 0, t_next_to_clean = 0\<rparr>\<rparr>, [D_coherent_alloc dma, D_kmalloc q])"
  by (simp add: edunic_setup_tx_resources_def Let_def EDUNIC_RING_SIZE_def)

lemma setup_rx_works:
  "edunic_setup_rx_resources (Some dma) (Some q) a =
     (0, a\<lparr>ad_rx := \<lparr>r_desc = Some (replicate 256 zero_rx_desc), r_dma = dma, r_buf = Some (q, replicate 256 zero_rx_buf),
        r_count = 256, r_next_to_use = 0, r_next_to_clean = 0\<rparr>\<rparr>, [D_coherent_alloc dma, D_kmalloc q])"
  by (simp add: edunic_setup_rx_resources_def Let_def EDUNIC_RING_SIZE_def)

lemma probe_rings_result:
  assumes t: "t_desc (ad_tx a) = None" "t_buf (ad_tx a) = None" "r_desc (ad_rx a) = None" "r_buf (ad_rx a) = None"
    and w: "\<not> ad_wq a" and cr: "\<not> ad_carrier a"
  shows "probe_result (edunic_probe_rings e a) probe_base (pe_tx_ring e \<noteq> None \<and> pe_tx_buf e \<noteq> None \<and>
    pe_rx_ring e \<noteq> None \<and> pe_rx_buf e \<noteq> None \<and> start_good e)"
proof (cases "pe_tx_ring e = None \<or> pe_tx_buf e = None")
  case True
  obtain b tx where s: "edunic_setup_tx_resources (pe_tx_ring e) (pe_tx_buf e) a = (- ENOMEM, b, tx)" "ledger probe_base tx = Some probe_base"
    by (rule setup_tx_fails [OF True]) (rule that; assumption)
  have "edunic_probe_rings e a = Some (- ENOMEM, None, tx @ ed_err_free_netdev)"
    using s(1) by (simp add: edunic_probe_rings_def ENOMEM_def)
  with True ledger_then [OF s(2) ledger_err_free_netdev] show ?thesis by (auto simp: probe_result_def ENOMEM_def)
next
  case False
  then obtain dma q where d: "pe_tx_ring e = Some dma" "pe_tx_buf e = Some q" by auto
  define b where "b = a\<lparr>ad_tx := \<lparr>t_desc = Some (replicate 256 zero_tx_desc), t_dma = dma, t_buf = Some (q, replicate 256 zero_tx_buf),
               t_count = 256, t_next_to_use = 0, t_next_to_clean = 0\<rparr>\<rparr>"
  have s: "edunic_setup_tx_resources (pe_tx_ring e) (pe_tx_buf e) a = (0, b, [D_coherent_alloc dma, D_kmalloc q])"
    by (simp add: setup_tx_works d b_def)
  have hb: "ed_tx_held (ad_tx b) = {#R_mem q, R_coherent dma#}" by (simp add: ed_tx_held_def b_def sum_replicate)
  have l1: "ledger probe_base [D_coherent_alloc dma, D_kmalloc q] = Some (probe_base + ed_tx_held (ad_tx b))" by (simp add: hb)
  show ?thesis
  proof (cases "pe_rx_ring e = None \<or> pe_rx_buf e = None")
    case True
    obtain c rx where r: "edunic_setup_rx_resources (pe_rx_ring e) (pe_rx_buf e) b = (- ENOMEM, c, rx)" "ad_tx c = ad_tx b"
      "ledger (probe_base + ed_tx_held (ad_tx b)) rx = Some (probe_base + ed_tx_held (ad_tx b))"
      by (rule setup_rx_fails [OF True]) (rule that; assumption)
    obtain d ts where f: "edunic_free_tx_resources c = (d, ts)" by (cases "edunic_free_tx_resources c")
    have "moves (ed_tx_held (ad_tx b)) ts {#}"
      using free_tx_resources_moves [OF _ f] by (simp add: r(2)) (simp add: b_def)
    from movesD [OF this, of probe_base] have "ledger (probe_base + ed_tx_held (ad_tx b)) (ts @ ed_err_free_netdev) = Some {#}"
      using ledger_then [OF _ ledger_err_free_netdev] by simp
    with ledger_then [OF l1 ledger_then [OF r(3)]]
    have "ledger probe_base ([D_coherent_alloc dma, D_kmalloc q] @ rx @ ts @ ed_err_free_netdev) = Some {#}" by blast
    moreover have "edunic_probe_rings e a = Some (- ENOMEM, None, [D_coherent_alloc dma, D_kmalloc q] @ rx @ ts @ ed_err_free_netdev)"
      using s r(1) f by (simp add: edunic_probe_rings_def ENOMEM_def ed_err_free_tx_def)
    ultimately show ?thesis using True by (auto simp: probe_result_def ENOMEM_def simp del: append_Cons)
  next
    case False
    then obtain dma' q' where d': "pe_rx_ring e = Some dma'" "pe_rx_buf e = Some q'" by auto
    define c where "c = b\<lparr>ad_rx := \<lparr>r_desc = Some (replicate 256 zero_rx_desc), r_dma = dma', r_buf = Some (q', replicate 256 zero_rx_buf),
               r_count = 256, r_next_to_use = 0, r_next_to_clean = 0\<rparr>\<rparr>"
    have r: "edunic_setup_rx_resources (pe_rx_ring e) (pe_rx_buf e) b = (0, c, [D_coherent_alloc dma', D_kmalloc q'])"
      by (simp add: setup_rx_works d' c_def)
    have "rings_held c = {#R_mem q, R_coherent dma#} + {#R_mem q', R_coherent dma'#}"
      by (simp add: rings_held_def c_def b_def ed_tx_held_def ed_rx_held_def sum_replicate)
    then have led: "ledger probe_base ([D_coherent_alloc dma, D_kmalloc q] @ [D_coherent_alloc dma', D_kmalloc q']) = Some (probe_base + rings_held c)"
      by (simp add: add_mset_commute)
    have st: "probe_result (edunic_probe_start e c) (probe_base + rings_held c) (start_good e)"
      by (rule probe_start_result [of c q q']) (simp_all add: c_def b_def w cr)
    have "edunic_probe_rings e a = map_option (\<lambda>(ret, a, st). (ret, a, ([D_coherent_alloc dma, D_kmalloc q] @
        [D_coherent_alloc dma', D_kmalloc q']) @ st)) (edunic_probe_start e c)"
      using s r by (simp add: edunic_probe_rings_def)
    then show ?thesis using probe_result_prefix [OF st led] d d' by simp
  qed
qed

lemma edunic_probe_result: "probe_result (edunic_probe e) {#} (probe_good e)"
proof -
  define b where "b = (fst (edunic_hw_reset (fresh_adapter (pe_chip e))))\<lparr>ad_addr := pe_addr e\<rparr>"
  obtain a mac where m: "edunic_hw_set_mac (pe_addr e) b = (a, mac)" by (cases "edunic_hw_set_mac (pe_addr e) b")
  have a: "t_desc (ad_tx a) = None" "t_buf (ad_tx a) = None" "r_desc (ad_rx a) = None" "r_buf (ad_rx a) = None" "\<not> ad_wq a" "\<not> ad_carrier a"
    using m by (auto simp: edunic_hw_set_mac_def Let_def b_def edunic_hw_reset_def fresh_adapter_def)
  have n: "neutral (snd (edunic_hw_reset (fresh_adapter (pe_chip e))) @ mac)"
    using m by (auto simp: edunic_hw_set_mac_def Let_def edunic_hw_reset_def)
  define as where "as = [D_pci_enable, D_set_master, D_request_regions, D_iomap, D_alloc_netdev, D_aux (A_carrier False)]
    @ snd (edunic_hw_reset (fresh_adapter (pe_chip e))) @ mac"
  have led: "ledger {#} as = Some probe_base"
    unfolding as_def by (rule ledger_then [OF _ ledger_neutral [OF n]]) (simp add: probe_base_def add_mset_commute)
  consider (en) "pe_enable e \<noteq> 0" | (rg) "pe_enable e = 0" "pe_regions e \<noteq> 0"
    | (io) "pe_enable e = 0" "pe_regions e = 0" "\<not> pe_iomap e"
    | (mk) "pe_enable e = 0" "pe_regions e = 0" "pe_iomap e" "pe_mask64 e \<noteq> 0" "pe_mask32 e \<noteq> 0"
    | (nd) "pe_enable e = 0" "pe_regions e = 0" "pe_iomap e" "pe_mask64 e = 0 \<or> pe_mask32 e = 0" "\<not> pe_netdev e"
    | (go) "pe_enable e = 0" "pe_regions e = 0" "pe_iomap e" "pe_mask64 e = 0 \<or> pe_mask32 e = 0" "pe_netdev e"
    by blast
  then show ?thesis
  proof cases
    case go
    have "\<not> (pe_mask64 e \<noteq> 0 \<and> pe_mask32 e \<noteq> 0)" using go by blast
    with go m have "edunic_probe e = map_option (\<lambda>(ret, a, st). (ret, a, as @ st)) (edunic_probe_rings e a)"
      by (auto simp: edunic_probe_def as_def b_def Let_def split: prod.splits)
    with go probe_result_prefix [OF probe_rings_result [OF a] led] show ?thesis by (simp add: probe_good_def)
  qed (auto simp: edunic_probe_def probe_result_def probe_good_def ed_err_iounmap_def ed_err_release_regions_def ed_err_disable_device_def EIO_def ENOMEM_def)
qed

section \<open>The claims\<close>

text \<open>
  Claim C33: \<open>edunic_probe\<close> is all or nothing. Whatever the kernel answers to each of its
  requests, it returns; it succeeds exactly when every request that matters did (for the
  initial fill of the receive ring one buffer is enough, and one of the two DMA masks); a
  probe that fails returns a non-zero code and releases, through the chain of error labels,
  exactly what it took, each once; one that succeeds returns 0 with both rings in order, the
  carrier off, and holding what \<open>edunic_remove\<close> will give back.
\<close>
theorem edunic_probe_all_or_nothing:
  "\<exists>ret ans as. edunic_probe e = Some (ret, ans, as) \<and> (ret = 0 \<longleftrightarrow> probe_good e) \<and>
     (case ans of None \<Rightarrow> ret \<noteq> 0 \<and> ledger {#} as = Some {#}
      | Some a \<Rightarrow> ret = 0 \<and> ed_ok a \<and> \<not> ad_carrier a \<and> ledger {#} as = Some (ed_held False a))"
  using edunic_probe_result [of e] by (auto simp: probe_result_def split: option.splits)

text \<open>
  Claim C5: the life of the edunic driver leaks nothing. After a successful probe, any
  sequence of calls the kernel can make (transmissions, runs of the engine, polls,
  interrupts, link changes, opens and stops that alternate, changes of MTU and address, with
  any answers of the allocator and the DMA mapping) runs without a fault, and removing the
  device afterwards, up or down, leaves the account empty. The account has every packet the
  stack handed over, freed on completion, at once, or by the removal when it is still in the
  ring; every mapping; every receive buffer, freed or given to the stack; the copies of the
  loopback; the rings and their metadata; the interrupt with its vectors, NAPI, the work queue and the
  registrations of the device. Each is given back exactly once: a release of what is not held
  would make the account undefined.
\<close>
theorem edunic_lifecycle:
  assumes "edunic_probe e = Some (ret, Some a, as0)" "run_up False ops = Some up"
  shows "\<exists>t sent as. ed_run a ops = Some (t, sent, as) \<and> ed_ok t \<and> ledger {#} (as0 @ as @ edunic_remove up t) = Some {#}"
proof -
  have "ed_ok a" "ledger {#} as0 = Some (ed_held False a)"
    using edunic_probe_result [of e] assms(1) by (simp_all add: probe_result_def)
  with ed_run_held [OF _ assms(2), of a] show ?thesis by (auto simp: ledger_append dest: edunic_remove_all)
qed

definition probe_demo :: edunic_env where
  "probe_demo = \<lparr>pe_enable = 0, pe_regions = 0, pe_iomap = True, pe_mask64 = - 5, pe_mask32 = 0, pe_netdev = True,
     pe_addr = [2, 0, 0, 0, 0, 1], pe_tx_ring = Some 4096, pe_tx_buf = Some 11, pe_rx_ring = Some 8192, pe_rx_buf = Some 12,
     pe_rx_alloc = (\<lambda>i. Posted i (\<lambda>n. 0) (of_nat (i + 1))), pe_wq = True, pe_register = 0,
     pe_chip = \<lparr>ch_reg = (\<lambda>r. 0), ch_icr = 0, ch_mask = 0\<rparr>\<rparr>"

text \<open>The second packet is still in the ring when the device is removed.\<close>
theorem edunic_lifecycle_witness:
  "\<exists>ret a as0 t sent as. edunic_probe probe_demo = Some (ret, Some a, as0) \<and>
     ed_run a [E_open \<lparr>ie_vectors = 1, ie_msi = True, ie_irq = 5, ie_request = 0\<rparr>, E_link True, E_xmit 64 False (ed_skb 1),
       E_work (\<lambda>n. Some 9) True, E_poll (\<lambda>n. No_skb) True 64, E_xmit 128 False (ed_skb 2)] = Some (t, sent, as) \<and>
     ledger {#} (as0 @ as @ edunic_remove True t) = Some {#}"
proof -
  have "probe_good probe_demo" by (simp add: probe_good_def start_good_def probe_demo_def)
  then obtain ret a as0 where p: "edunic_probe probe_demo = Some (ret, Some a, as0)"
    using edunic_probe_result [of probe_demo] by (auto simp: probe_result_def split: option.splits)
  have u: "run_up False [E_open \<lparr>ie_vectors = 1, ie_msi = True, ie_irq = 5, ie_request = 0\<rparr>, E_link True, E_xmit 64 False (ed_skb 1),
      E_work (\<lambda>n. Some 9) True, E_poll (\<lambda>n. No_skb) True 64, E_xmit 128 False (ed_skb 2)] = Some True" by simp
  from edunic_lifecycle [OF p u] p show ?thesis by blast
qed

end
