(* ===== verification/Group_Main.thy ===== *)
theory Group_Main
  imports Framing Posix
begin

text \<open>
  The group chat server \<open>chat/server_group.c\<close>: its client slots, the texts it sends, the login,
  the group messages, and the event loop with accept, receive and the framing of lines.
\<close>

section \<open>Constants and data\<close>

definition MAX_CLIENTS_g :: nat where "MAX_CLIENTS_g = 100"
definition USERNAME_SIZE_g :: nat where "USERNAME_SIZE_g = 32"
definition BUFFER_SIZE_g :: nat where "BUFFER_SIZE_g = 4096"

text \<open>\<open>g_input\<close> is the first \<open>input_len\<close> bytes of the input buffer; the rest is never read.\<close>

record group_client =
  g_fd :: int
  g_active :: bool
  g_logged_in :: bool
  g_username :: string
  g_input :: string

datatype group_act =
    G_send int string        \<comment> \<open>text for a client; no caller acts on a failure of \<open>send\<close>\<close>
  | G_epoll_add int
  | G_epoll_del int
  | G_close int

record group_server =
  gs_clients :: "group_client list"
  gs_out :: "group_act list"

definition zero_group_client :: group_client where
  "zero_group_client = \<lparr>g_fd = 0, g_active = False, g_logged_in = False, g_username = [], g_input = []\<rparr>"

definition g_log :: "group_act list \<Rightarrow> group_server \<Rightarrow> group_server" where
  "g_log as s = s\<lparr>gs_out := gs_out s @ as\<rparr>"

definition g_upd :: "nat \<Rightarrow> (group_client \<Rightarrow> group_client) \<Rightarrow> group_server \<Rightarrow> group_server" where
  "g_upd ci f s = s\<lparr>gs_clients := (gs_clients s)[ci := f (gs_clients s ! ci)]\<rparr>"

section \<open>Sending and lookups\<close>

definition send_text_g :: "int \<Rightarrow> string \<Rightarrow> group_server \<Rightarrow> group_server" where
  "send_text_g fd text s = g_log [G_send fd (cstr text)] s"

definition find_free_client :: "group_client list \<Rightarrow> nat option" where
  "find_free_client cs = first_index (\<lambda>c. \<not> g_active c) cs"

definition find_client_by_fd_g :: "group_client list \<Rightarrow> int \<Rightarrow> nat option" where
  "find_client_by_fd_g cs fd = first_index (\<lambda>c. g_active c \<and> g_fd c = fd) cs"

definition username_in_use :: "string \<Rightarrow> group_client list \<Rightarrow> bool" where
  "username_in_use n cs = list_ex (\<lambda>c. g_active c \<and> g_logged_in c \<and> g_username c = n) cs"

definition broadcast_message :: "string \<Rightarrow> int \<Rightarrow> group_server \<Rightarrow> group_server" where
  "broadcast_message msg except_fd s =
     fold (\<lambda>c s. if g_active c \<and> g_logged_in c \<and> g_fd c \<noteq> except_fd then send_text_g (g_fd c) msg s else s)
       (gs_clients s) s"

definition disconnect_client_g :: "nat \<Rightarrow> group_server \<Rightarrow> group_server" where
  "disconnect_client_g ci s =
     (if ci \<ge> MAX_CLIENTS_g then s
      else if \<not> g_active (gs_clients s ! ci) then s
      else let fd = g_fd (gs_clients s ! ci)
        in g_upd ci (\<lambda>c. zero_group_client\<lparr>g_fd := -1\<rparr>) (g_log [G_epoll_del fd, G_close fd] s))"

text \<open>\<open>line\<close> has 128 bytes, as have the notices below.\<close>

fun user_list_lines :: "nat \<Rightarrow> nat \<Rightarrow> nat \<Rightarrow> group_client list \<Rightarrow> string list" where
  "user_list_lines number i ci [] = []"
| "user_list_lines number i ci (c # cs) =
     (if g_active c \<and> g_logged_in c
      then take 127 (dec (int number) @ ''. '' @ g_username c @ (if i = ci then '' (you)'' else []) @ [NL])
             # user_list_lines (number + 1) (i + 1) ci cs
      else user_list_lines number (i + 1) ci cs)"

definition show_user_list :: "nat \<Rightarrow> group_server \<Rightarrow> group_server" where
  "show_user_list ci s =
     (let fd = g_fd (gs_clients s ! ci);
          s = send_text_g fd ([NL] @ ''===== ONLINE USERS ====='' @ [NL]) s;
          s = fold (send_text_g fd) (user_list_lines 1 0 ci (gs_clients s)) s
      in send_text_g fd (''========================'' @ [NL]) s)"

section \<open>Login and messages\<close>

definition cut_cr :: "string \<Rightarrow> string" where
  "cut_cr line = takeWhile (\<lambda>c. c \<noteq> CR) line"

definition welcome_text :: string where
  "welcome_text = [NL] @ ''Login successful.'' @ [NL] @ ''Welcome to the GROUP CHAT.'' @ [NL] @ [NL] @ ''Commands:'' @ [NL]
     @ ''/users  -> show online users'' @ [NL] @ ''/quit   -> leave server'' @ [NL] @ [NL]
     @ ''Start typing your messages.'' @ [NL] @ ''============================'' @ [NL]"

definition system_notice :: "string \<Rightarrow> string \<Rightarrow> string" where
  "system_notice name what = take 127 ([NL] @ ''[SYSTEM] '' @ name @ what @ [NL])"

definition process_login_g :: "nat \<Rightarrow> string \<Rightarrow> group_server \<Rightarrow> group_server" where
  "process_login_g ci line s =
     (let line = cut_cr line; fd = g_fd (gs_clients s ! ci) in
      if line = [] then send_text_g fd (''Username cannot be empty.'' @ [NL] @ ''Enter your username: '') s
      else if length line \<ge> USERNAME_SIZE_g then send_text_g fd (''Username too long.'' @ [NL] @ ''Enter your username: '') s
      else if username_in_use line (gs_clients s) then
        send_text_g fd (''This username is already online.'' @ [NL] @ ''Enter another username: '') s
      else
        let s = g_upd ci (\<lambda>c. c\<lparr>g_username := take (USERNAME_SIZE_g - 1) line, g_logged_in := True\<rparr>) s;
            s = send_text_g fd welcome_text s;
            s = show_user_list ci s
        in broadcast_message (system_notice (g_username (gs_clients s ! ci)) '' joined the group.'') fd s)"

definition process_group_message :: "nat \<Rightarrow> string \<Rightarrow> group_server \<Rightarrow> int \<times> group_server" where
  "process_group_message ci line s =
     (let fd = g_fd (gs_clients s ! ci); name = g_username (gs_clients s ! ci) in
      if line = ''/users'' then (1, show_user_list ci s)
      else if line = ''/quit'' then
        (0, disconnect_client_g ci
              (send_text_g fd (''Goodbye.'' @ [NL]) (broadcast_message (system_notice name '' left the group.'') fd s)))
      else if line = [] then (1, s)
      else (1, broadcast_message
                 (take (BUFFER_SIZE_g + USERNAME_SIZE_g + 16 - 1) (name @ '': '' @ line @ [NL])) fd s))"

definition process_line_g :: "nat \<Rightarrow> string \<Rightarrow> group_server \<Rightarrow> int \<times> group_server" where
  "process_line_g ci line s =
     (let line = cut_cr line in
      if \<not> g_logged_in (gs_clients s ! ci) then (1, process_login_g ci line s)
      else process_group_message ci line s)"

section \<open>The slot of a client across a line\<close>

lemma g_upd_simps [simp]:
  "length (gs_clients (g_upd ci f s)) = length (gs_clients s)" "gs_out (g_upd ci f s) = gs_out s"
  "ci < length (gs_clients s) \<Longrightarrow> gs_clients (g_upd ci f s) ! ci = f (gs_clients s ! ci)"
  "j \<noteq> ci \<Longrightarrow> gs_clients (g_upd ci f s) ! j = gs_clients s ! j"
  by (simp_all add: g_upd_def)

lemma g_log_simps [simp]: "gs_clients (g_log as s) = gs_clients s" "gs_out (g_log as s) = gs_out s @ as"
  by (simp_all add: g_log_def)

lemma send_text_g_simps [simp]:
  "gs_clients (send_text_g fd t s) = gs_clients s" "gs_out (send_text_g fd t s) = gs_out s @ [G_send fd (cstr t)]"
  by (simp_all add: send_text_g_def)

lemma fold_send_simps [simp]:
  "gs_clients (fold (send_text_g fd) ts s) = gs_clients s"
  "gs_out (fold (send_text_g fd) ts s) = gs_out s @ map (\<lambda>t. G_send fd (cstr t)) ts"
  by (induction ts arbitrary: s) simp_all

lemma broadcast_fold:
  "fold (\<lambda>c s. if g_active c \<and> g_logged_in c \<and> g_fd c \<noteq> x then send_text_g (g_fd c) msg s else s) cs s =
     g_log (map (\<lambda>c. G_send (g_fd c) (cstr msg)) (filter (\<lambda>c. g_active c \<and> g_logged_in c \<and> g_fd c \<noteq> x) cs)) s"
  by (induction cs arbitrary: s) (simp_all add: send_text_g_def g_log_def)

lemma broadcast_simps [simp]:
  "gs_clients (broadcast_message msg x s) = gs_clients s"
  "gs_out (broadcast_message msg x s) = gs_out s @
     map (\<lambda>c. G_send (g_fd c) (cstr msg)) (filter (\<lambda>c. g_active c \<and> g_logged_in c \<and> g_fd c \<noteq> x) (gs_clients s))"
  unfolding broadcast_message_def broadcast_fold by simp_all

lemma show_user_list_clients [simp]: "gs_clients (show_user_list ci s) = gs_clients s"
  by (simp add: show_user_list_def Let_def)

text \<open>A line leaves the input of its client as it was, or empties the slot.\<close>

lemma process_line_g_input:
  assumes "ci < length (gs_clients s)"
  shows "length (gs_clients (snd (process_line_g ci line s))) = length (gs_clients s) \<and>
    g_input (gs_clients (snd (process_line_g ci line s)) ! ci) \<in> {g_input (gs_clients s ! ci), []}"
  using assms
  by (auto simp: process_line_g_def process_login_g_def process_group_message_def disconnect_client_g_def Let_def
      zero_group_client_def)

section \<open>Lines and events\<close>

definition drop_line_g :: "nat \<Rightarrow> group_server \<Rightarrow> group_server" where
  "drop_line_g ci s = g_upd ci (\<lambda>c. c\<lparr>g_input := after_line (g_input c)\<rparr>) s"

text \<open>The C string of a line ends at its first \<open>NUL\<close>.\<close>

function process_lines_g :: "nat \<Rightarrow> group_server \<Rightarrow> group_server" where
  "process_lines_g ci s =
     (if \<not> (ci < length (gs_clients s) \<and> g_active (gs_clients s ! ci)) then s
      else if NL \<notin> set (g_input (gs_clients s ! ci)) then s
      else case process_line_g ci (cstr (first_line (g_input (gs_clients s ! ci)))) (drop_line_g ci s) of (r, s') \<Rightarrow>
        if r = 0 then s' else process_lines_g ci s')"
  by pat_completeness auto
termination
proof (relation "measure (\<lambda>(ci, s). length (g_input (gs_clients s ! ci)))")
  fix ci :: nat and s s' :: group_server and r :: int
  assume a: "\<not> \<not> (ci < length (gs_clients s) \<and> g_active (gs_clients s ! ci))" "\<not> NL \<notin> set (g_input (gs_clients s ! ci))"
    and x: "(r, s') = process_line_g ci (cstr (first_line (g_input (gs_clients s ! ci)))) (drop_line_g ci s)"
  let ?n = "length (g_input (gs_clients s ! ci))" and ?d = "drop_line_g ci s"
  have l: "length (after_line (g_input (gs_clients s ! ci))) < ?n" using a(2) by (simp add: length_after_line)
  have d: "ci < length (gs_clients ?d)" "length (g_input (gs_clients ?d ! ci)) < ?n"
    using a(1) l by (simp_all add: drop_line_g_def)
  from process_line_g_input [OF d(1)] x [symmetric] have "g_input (gs_clients s' ! ci) \<in> {g_input (gs_clients ?d ! ci), []}"
    by (metis snd_conv)
  with d(2) show "((ci, s'), ci, s) \<in> measure (\<lambda>(ci, s). length (g_input (gs_clients s ! ci)))" by auto
qed simp

declare process_lines_g.simps [simp del]

datatype group_event =
    G_accept int bool             \<comment> \<open>what \<open>accept\<close> returns; whether \<open>epoll_ctl\<close> works\<close>
  | G_recv int string             \<comment> \<open>a ready descriptor and what \<open>recv\<close> of 1024 bytes returns\<close>
  | G_recv_err int errno

definition handle_accept_g :: "int \<Rightarrow> bool \<Rightarrow> group_server \<Rightarrow> group_server" where
  "handle_accept_g fd add_ok s =
     (if fd < 0 then s
      else case find_free_client (gs_clients s) of
        None \<Rightarrow> g_log [G_close fd] (send_text_g fd (''Server is full.'' @ [NL]) s)
      | Some ci \<Rightarrow>
        let s = g_upd ci (\<lambda>c. zero_group_client\<lparr>g_fd := fd, g_active := True\<rparr>) s in
        if \<not> add_ok then disconnect_client_g ci s
        else send_text_g fd ''Enter your username: '' (g_log [G_epoll_add fd] s))"

definition handle_recv_g :: "int \<Rightarrow> string \<Rightarrow> group_server \<Rightarrow> group_server" where
  "handle_recv_g fd bytes s =
     (case find_client_by_fd_g (gs_clients s) fd of None \<Rightarrow> s
      | Some ci \<Rightarrow>
        let c = gs_clients s ! ci in
        if bytes = [] then
          disconnect_client_g ci
            (if g_logged_in c then broadcast_message (system_notice (g_username c) '' disconnected.'') fd s else s)
        else if length (g_input c) + length bytes \<ge> BUFFER_SIZE_g then
          g_upd ci (\<lambda>c. c\<lparr>g_input := []\<rparr>) (send_text_g fd (''Input too long.'' @ [NL]) s)
        else process_lines_g ci (g_upd ci (\<lambda>c. c\<lparr>g_input := g_input c @ bytes\<rparr>) s))"

definition handle_recv_err_g :: "int \<Rightarrow> errno \<Rightarrow> group_server \<Rightarrow> group_server" where
  "handle_recv_err_g fd e s =
     (case find_client_by_fd_g (gs_clients s) fd of None \<Rightarrow> s
      | Some ci \<Rightarrow> if e = EINTR then s else disconnect_client_g ci s)"

fun group_step :: "group_event \<Rightarrow> group_server \<Rightarrow> group_server" where
  "group_step (G_accept fd ok) s = handle_accept_g fd ok s"
| "group_step (G_recv fd bytes) s = handle_recv_g fd bytes s"
| "group_step (G_recv_err fd e) s = handle_recv_err_g fd e s"

definition group_run :: "group_event list \<Rightarrow> group_server \<Rightarrow> group_server" where
  "group_run evs s = fold group_step evs s"

text \<open>
  The start of \<open>main\<close>; a failure of \<open>setsockopt\<close> is only reported.  \<open>Inl\<close> is the exit status with
  the descriptors closed on the way out.
\<close>

definition group_setup :: "int \<Rightarrow> int \<Rightarrow> int \<Rightarrow> int \<Rightarrow> int \<Rightarrow> (int \<times> group_act list) + group_server" where
  "group_setup sock bindr listenr ep addr =
     (let s = \<lparr>gs_clients = replicate MAX_CLIENTS_g (zero_group_client\<lparr>g_fd := -1\<rparr>), gs_out = []\<rparr> in
      if sock < 0 then Inl (1, [])
      else if bindr < 0 then Inl (1, [G_close sock])
      else if listenr < 0 then Inl (1, [G_close sock])
      else if ep < 0 then Inl (1, [G_close sock])
      else if addr < 0 then Inl (1, [G_close ep, G_close sock])
      else Inr (g_log [G_epoll_add sock] s))"

end
