(* ===== verification/Group_Room.thy ===== *)
theory Group_Room
  imports Group_Main
begin

text \<open>
  The abstract chat room that \<open>chat/server_group.c\<close> implements, and the invariant and the
  abstraction function of the simulation.  The room knows neither slots nor searches: it is a map
  from connections to the name of their user, if they gave one, and the unfinished line.
\<close>

section \<open>The room\<close>

type_synonym room = "int \<rightharpoonup> string option \<times> string"

definition member :: "room \<Rightarrow> int \<Rightarrow> bool" where
  "member R fd \<longleftrightarrow> (case R fd of Some (Some n, p) \<Rightarrow> True | _ \<Rightarrow> False)"

definition name_taken :: "string \<Rightarrow> room \<Rightarrow> bool" where
  "name_taken n R \<longleftrightarrow> (\<exists>fd p. R fd = Some (Some n, p))"

definition notice :: "string \<Rightarrow> string \<Rightarrow> string" where
  "notice name what = [NL] @ ''[SYSTEM] '' @ name @ what @ [NL]"

definition said :: "string \<Rightarrow> string \<Rightarrow> string" where
  "said name line = name @ '': '' @ line @ [NL]"

text \<open>A line of the user behind \<open>fd\<close>: the new room, and what the other members get to hear.\<close>

definition room_line :: "int \<Rightarrow> string \<Rightarrow> room \<Rightarrow> room \<times> string list" where
  "room_line fd l R =
     (case R fd of
        None \<Rightarrow> (R, [])
      | Some (None, p) \<Rightarrow>
          if l \<noteq> [] \<and> length l < 32 \<and> \<not> name_taken l R
          then (R(fd \<mapsto> (Some l, p)), [notice l '' joined the group.'']) else (R, [])
      | Some (Some n, p) \<Rightarrow>
          if l = ''/quit'' then (R(fd := None), [notice n '' left the group.''])
          else if l = ''/users'' \<or> l = [] then (R, []) else (R, [said n l]))"

fun room_lines :: "int \<Rightarrow> string list \<Rightarrow> room \<Rightarrow> room \<times> string list" where
  "room_lines fd [] R = (R, [])"
| "room_lines fd (l # ls) R =
     (if R fd = None then (R, [])
      else case room_line fd (cut_cr (cstr l)) R of (R, a) \<Rightarrow>
           case room_lines fd ls R of (R, b) \<Rightarrow> (R, a @ b))"

text \<open>The complete lines of a text, and the unfinished one.\<close>

function split_lines :: "string \<Rightarrow> string list \<times> string" where
  "split_lines p =
     (if NL \<in> set p then (case split_lines (after_line p) of (ls, rest) \<Rightarrow> (first_line p # ls, rest)) else ([], p))"
  by pat_completeness auto
termination by (relation "measure length") (auto simp: length_after_line)

declare split_lines.simps [simp del]

fun room_step :: "group_event \<Rightarrow> room \<Rightarrow> room \<times> string list" where
  "room_step (G_accept fd ok) R =
     (if fd < 0 \<or> card (dom R) \<ge> 100 \<or> \<not> ok then (R, []) else (R(fd \<mapsto> (None, [])), []))"
| "room_step (G_recv fd bytes) R =
     (case R fd of None \<Rightarrow> (R, [])
      | Some (nm, p) \<Rightarrow>
          if bytes = [] then (R(fd := None), case nm of None \<Rightarrow> [] | Some n \<Rightarrow> [notice n '' disconnected.''])
          else if length p + length bytes \<ge> 4096 then (R(fd \<mapsto> (nm, [])), [])
          else case split_lines (p @ bytes) of (ls, rest) \<Rightarrow> room_lines fd ls (R(fd \<mapsto> (nm, rest))))"
| "room_step (G_recv_err fd e) R = (if e = EINTR then (R, []) else (R(fd := None), []))"

definition room_run :: "group_event list \<Rightarrow> room \<Rightarrow> room" where
  "room_run evs R = fold (\<lambda>e R. fst (room_step e R)) evs R"

fun event_fd :: "group_event \<Rightarrow> int" where
  "event_fd (G_accept fd ok) = fd"
| "event_fd (G_recv fd bytes) = fd"
| "event_fd (G_recv_err fd e) = fd"

text \<open>The kernel never gives \<open>accept\<close> a descriptor that is still open.\<close>

fun fresh_accepts :: "group_event list \<Rightarrow> room \<Rightarrow> bool" where
  "fresh_accepts [] R \<longleftrightarrow> True"
| "fresh_accepts (e # evs) R \<longleftrightarrow>
     (case e of G_accept fd ok \<Rightarrow> R fd = None | _ \<Rightarrow> True) \<and> fresh_accepts evs (fst (room_step e R))"

section \<open>Abstraction and invariant\<close>

definition client_view :: "group_client \<Rightarrow> string option \<times> string" where
  "client_view c = (if g_logged_in c then Some (g_username c) else None, g_input c)"

definition room_of :: "group_server \<Rightarrow> room" where
  "room_of s fd = map_option (\<lambda>i. client_view (gs_clients s ! i)) (find_client_by_fd_g (gs_clients s) fd)"

definition name_ok :: "string \<Rightarrow> bool" where
  "name_ok n \<longleftrightarrow> n \<noteq> [] \<and> length n < 32 \<and> NUL \<notin> set n"

definition group_ok :: "group_server \<Rightarrow> bool" where
  "group_ok s \<longleftrightarrow> length (gs_clients s) = 100 \<and>
     (\<forall>i < 100. \<forall>j < 100. g_active (gs_clients s ! i) \<longrightarrow> g_active (gs_clients s ! j) \<longrightarrow>
        g_fd (gs_clients s ! i) = g_fd (gs_clients s ! j) \<longrightarrow> i = j) \<and>
     (\<forall>c \<in> set (gs_clients s). g_active c \<longrightarrow> length (g_input c) < 4096 \<and> (g_logged_in c \<longrightarrow> name_ok (g_username c)))"

text \<open>The texts that went to a connection.\<close>

definition heard :: "int \<Rightarrow> group_act list \<Rightarrow> string list" where
  "heard g as = concat (map (\<lambda>a. case a of G_send fd t \<Rightarrow> if fd = g then [t] else [] | _ \<Rightarrow> []) as)"

lemma heard_simps [simp]:
  "heard g [] = []" "heard g (as @ bs) = heard g as @ heard g bs"
  "heard g (G_send fd t # as) = (if fd = g then t # heard g as else heard g as)"
  "heard g (G_epoll_add fd # as) = heard g as" "heard g (G_epoll_del fd # as) = heard g as"
  "heard g (G_close fd # as) = heard g as"
  by (simp_all add: heard_def)

lemma heard_other [simp]: "g \<noteq> fd \<Longrightarrow> heard g (map (\<lambda>t. G_send fd (f t)) ts) = []"
  by (induction ts) simp_all

section \<open>One connection of the room\<close>

lemma group_okD:
  assumes "group_ok s"
  shows "length (gs_clients s) = 100"
    "\<And>i j. i < 100 \<Longrightarrow> j < 100 \<Longrightarrow> g_active (gs_clients s ! i) \<Longrightarrow> g_active (gs_clients s ! j) \<Longrightarrow>
       g_fd (gs_clients s ! i) = g_fd (gs_clients s ! j) \<Longrightarrow> i = j"
    "\<And>i. i < 100 \<Longrightarrow> g_active (gs_clients s ! i) \<Longrightarrow> length (g_input (gs_clients s ! i)) < 4096"
    "\<And>i. i < 100 \<Longrightarrow> g_active (gs_clients s ! i) \<Longrightarrow> g_logged_in (gs_clients s ! i) \<Longrightarrow> name_ok (g_username (gs_clients s ! i))"
  using assms unfolding group_ok_def by (auto simp: all_set_conv_all_nth)

lemma group_okI:
  assumes "length (gs_clients s) = 100"
    "\<And>i j. i < 100 \<Longrightarrow> j < 100 \<Longrightarrow> g_active (gs_clients s ! i) \<Longrightarrow> g_active (gs_clients s ! j) \<Longrightarrow>
       g_fd (gs_clients s ! i) = g_fd (gs_clients s ! j) \<Longrightarrow> i = j"
    "\<And>i. i < 100 \<Longrightarrow> g_active (gs_clients s ! i) \<Longrightarrow> length (g_input (gs_clients s ! i)) < 4096 \<and>
       (g_logged_in (gs_clients s ! i) \<longrightarrow> name_ok (g_username (gs_clients s ! i)))"
  shows "group_ok s"
  using assms unfolding group_ok_def by (auto simp: all_set_conv_all_nth)

lemma group_ok_out [simp]: "group_ok (g_log as s) = group_ok s" "room_of (g_log as s) = room_of s"
  by (simp_all add: group_ok_def room_of_def fun_eq_iff)

lemma same_clients: "gs_clients t = gs_clients s \<Longrightarrow> group_ok t = group_ok s \<and> room_of t = room_of s"
  by (simp add: group_ok_def room_of_def fun_eq_iff)

lemma find_active:
  assumes "group_ok s" "ci < 100" "g_active (gs_clients s ! ci)"
  shows "find_client_by_fd_g (gs_clients s) (g_fd (gs_clients s ! ci)) = Some ci"
  unfolding find_client_by_fd_g_def
  by (rule first_index_unique) (use assms group_okD(1,2) [OF assms(1)] in auto)

lemma room_active:
  assumes "group_ok s" "ci < 100" "g_active (gs_clients s ! ci)"
  shows "room_of s (g_fd (gs_clients s ! ci)) = Some (client_view (gs_clients s ! ci))"
  by (simp add: room_of_def find_active [OF assms])

lemma find_Some:
  assumes "find_client_by_fd_g (gs_clients s) fd = Some ci" "group_ok s"
  shows "ci < 100" "g_active (gs_clients s ! ci)" "g_fd (gs_clients s ! ci) = fd"
  using assms group_okD(1) unfolding find_client_by_fd_g_def by (auto dest: first_index_SomeD)

lemma room_Some:
  assumes "room_of s fd = Some v" "group_ok s"
  obtains ci where "find_client_by_fd_g (gs_clients s) fd = Some ci" "ci < 100" "g_active (gs_clients s ! ci)"
    "g_fd (gs_clients s ! ci) = fd" "client_view (gs_clients s ! ci) = v"
  using assms find_Some [OF _ assms(2)] by (auto simp: room_of_def)

lemma find_other:
  assumes "\<not> (g_active c \<and> g_fd c = fd)" "\<not> (g_active (cs ! i) \<and> g_fd (cs ! i) = fd)"
  shows "find_client_by_fd_g (cs[i := c]) fd = find_client_by_fd_g cs fd"
  unfolding find_client_by_fd_g_def by (rule first_index_update) (use assms in auto)

lemma room_other:
  assumes "find_client_by_fd_g (gs_clients t) x = find_client_by_fd_g (gs_clients s) x"
    "\<And>i. find_client_by_fd_g (gs_clients s) x = Some i \<Longrightarrow> gs_clients t ! i = gs_clients s ! i"
  shows "room_of t x = room_of s x"
  using assms by (cases "find_client_by_fd_g (gs_clients s) x") (simp_all add: room_of_def)

text \<open>The three ways a slot changes: an update in place, a departure, an arrival.\<close>

lemma slot_change:
  assumes ok: "group_ok s" and ci: "ci < 100" "g_active (gs_clients s ! ci)"
    and f: "g_active (f (gs_clients s ! ci))" "g_fd (f (gs_clients s ! ci)) = g_fd (gs_clients s ! ci)"
    and good: "length (g_input (f (gs_clients s ! ci))) < 4096"
      "g_logged_in (f (gs_clients s ! ci)) \<longrightarrow> name_ok (g_username (f (gs_clients s ! ci)))"
  shows "group_ok (g_upd ci f s)"
    "room_of (g_upd ci f s) = (room_of s)(g_fd (gs_clients s ! ci) \<mapsto> client_view (f (gs_clients s ! ci)))"
proof -
  note d = group_okD [OF ok]
  have l: "ci < length (gs_clients s)" using ci d(1) by simp
  show ok': "group_ok (g_upd ci f s)"
  proof (rule group_okI)
    fix i j assume "i < 100" "j < 100" "g_active (gs_clients (g_upd ci f s) ! i)" "g_active (gs_clients (g_upd ci f s) ! j)"
      "g_fd (gs_clients (g_upd ci f s) ! i) = g_fd (gs_clients (g_upd ci f s) ! j)"
    then show "i = j" using d(2) [of i j] d(2) [of ci j] d(2) [of i ci] ci f l by (cases "i = ci"; cases "j = ci") auto
  next
    fix i assume "i < 100" "g_active (gs_clients (g_upd ci f s) ! i)"
    then show "length (g_input (gs_clients (g_upd ci f s) ! i)) < 4096 \<and>
       (g_logged_in (gs_clients (g_upd ci f s) ! i) \<longrightarrow> name_ok (g_username (gs_clients (g_upd ci f s) ! i)))"
      using d(3,4) [of i] good l by (cases "i = ci") auto
  qed (simp add: d(1))
  show "room_of (g_upd ci f s) = (room_of s)(g_fd (gs_clients s ! ci) \<mapsto> client_view (f (gs_clients s ! ci)))"
  proof
    fix x
    show "room_of (g_upd ci f s) x = ((room_of s)(g_fd (gs_clients s ! ci) \<mapsto> client_view (f (gs_clients s ! ci)))) x"
    proof (cases "x = g_fd (gs_clients s ! ci)")
      case True
      then show ?thesis using room_active [OF ok' ci(1)] f l by simp
    next
      case False
      then have "find_client_by_fd_g (gs_clients (g_upd ci f s)) x = find_client_by_fd_g (gs_clients s) x"
        using f by (simp add: g_upd_def find_other)
      moreover have "i \<noteq> ci" if "find_client_by_fd_g (gs_clients s) x = Some i" for i
        using find_Some(3) [OF that ok] False by blast
      ultimately show ?thesis using False room_other [of "g_upd ci f s" x s] by simp
    qed
  qed
qed

lemma slot_leave:
  assumes ok: "group_ok s" and ci: "ci < 100" "g_active (gs_clients s ! ci)"
  shows "group_ok (disconnect_client_g ci s)"
    "room_of (disconnect_client_g ci s) = (room_of s)(g_fd (gs_clients s ! ci) := None)"
    "\<not> g_active (gs_clients (disconnect_client_g ci s) ! ci)"
    "heard g (gs_out (disconnect_client_g ci s)) = heard g (gs_out s)"
proof -
  note d = group_okD [OF ok]
  have l: "ci < length (gs_clients s)" using ci d(1) by simp
  let ?z = "zero_group_client\<lparr>g_fd := -1\<rparr>"
  have cs: "gs_clients (disconnect_client_g ci s) = (gs_clients s)[ci := ?z]"
    using ci by (simp add: disconnect_client_g_def Let_def MAX_CLIENTS_g_def g_upd_def)
  have z: "\<not> g_active ?z" by (simp add: zero_group_client_def)
  show "group_ok (disconnect_client_g ci s)"
  proof (rule group_okI)
    fix i j assume "i < 100" "j < 100" "g_active (gs_clients (disconnect_client_g ci s) ! i)"
      "g_active (gs_clients (disconnect_client_g ci s) ! j)"
      "g_fd (gs_clients (disconnect_client_g ci s) ! i) = g_fd (gs_clients (disconnect_client_g ci s) ! j)"
    then show "i = j" using d(2) [of i j] z l unfolding cs by (cases "i = ci"; cases "j = ci") auto
  next
    fix i assume "i < 100" "g_active (gs_clients (disconnect_client_g ci s) ! i)"
    then show "length (g_input (gs_clients (disconnect_client_g ci s) ! i)) < 4096 \<and>
       (g_logged_in (gs_clients (disconnect_client_g ci s) ! i) \<longrightarrow> name_ok (g_username (gs_clients (disconnect_client_g ci s) ! i)))"
      using d(3,4) [of i] z l unfolding cs by (cases "i = ci") auto
  qed (simp add: cs d(1))
  show "\<not> g_active (gs_clients (disconnect_client_g ci s) ! ci)" using z l by (simp add: cs)
  show "heard g (gs_out (disconnect_client_g ci s)) = heard g (gs_out s)"
    by (simp add: disconnect_client_g_def Let_def)
  show "room_of (disconnect_client_g ci s) = (room_of s)(g_fd (gs_clients s ! ci) := None)"
  proof
    fix x
    show "room_of (disconnect_client_g ci s) x = ((room_of s)(g_fd (gs_clients s ! ci) := None)) x"
    proof (cases "x = g_fd (gs_clients s ! ci)")
      case True
      have "find_client_by_fd_g ((gs_clients s)[ci := ?z]) x = None"
        unfolding find_client_by_fd_g_def first_index_None_iff all_set_conv_all_nth
        using d(1) d(2) [of _ ci] ci z True by (auto simp: nth_list_update)
      then show ?thesis using True by (simp add: room_of_def cs)
    next
      case False
      then have "find_client_by_fd_g ((gs_clients s)[ci := ?z]) x = find_client_by_fd_g (gs_clients s) x"
        using z by (simp add: find_other)
      moreover have "ci \<noteq> i" if "find_client_by_fd_g (gs_clients s) x = Some i" for i
        using find_Some(3) [OF that ok] False by blast
      ultimately show ?thesis using False room_other [of "disconnect_client_g ci s" x s] by (simp add: cs)
    qed
  qed
qed

lemma slot_enter:
  assumes ok: "group_ok s" and free: "find_free_client (gs_clients s) = Some ci" and new: "room_of s fd = None"
  shows "group_ok (g_upd ci (\<lambda>c. zero_group_client\<lparr>g_fd := fd, g_active := True\<rparr>) s)"
    "room_of (g_upd ci (\<lambda>c. zero_group_client\<lparr>g_fd := fd, g_active := True\<rparr>) s) = (room_of s)(fd \<mapsto> (None, []))"
    "ci < 100"
proof -
  note d = group_okD [OF ok]
  have ci: "ci < length (gs_clients s)" "\<not> g_active (gs_clients s ! ci)"
    using free unfolding find_free_client_def by (auto dest: first_index_SomeD)
  then show ci': "ci < 100" using d(1) by simp
  let ?c = "zero_group_client\<lparr>g_fd := fd, g_active := True\<rparr>"
  let ?t = "g_upd ci (\<lambda>c. ?c) s"
  have no: "\<not> (g_active (gs_clients s ! i) \<and> g_fd (gs_clients s ! i) = fd)" if "i < 100" for i
    using room_active [OF ok that] new by force
  have c: "g_active ?c" "g_fd ?c = fd" "client_view ?c = (None, [])" "g_input ?c = []" "\<not> g_logged_in ?c"
    by (simp_all add: zero_group_client_def client_view_def)
  show ok': "group_ok ?t"
  proof (rule group_okI)
    fix i j assume "i < 100" "j < 100" "g_active (gs_clients ?t ! i)" "g_active (gs_clients ?t ! j)"
      "g_fd (gs_clients ?t ! i) = g_fd (gs_clients ?t ! j)"
    then show "i = j" using d(2) [of i j] no [of i] no [of j] ci c by (cases "i = ci"; cases "j = ci") auto
  next
    fix i assume "i < 100" "g_active (gs_clients ?t ! i)"
    then show "length (g_input (gs_clients ?t ! i)) < 4096 \<and>
       (g_logged_in (gs_clients ?t ! i) \<longrightarrow> name_ok (g_username (gs_clients ?t ! i)))"
      using d(3,4) [of i] ci c by (cases "i = ci") auto
  qed (simp add: d(1))
  show "room_of ?t = (room_of s)(fd \<mapsto> (None, []))"
  proof
    fix x
    show "room_of ?t x = ((room_of s)(fd \<mapsto> (None, []))) x"
    proof (cases "x = fd")
      case True
      then show ?thesis using room_active [OF ok' ci'] ci c by simp
    next
      case False
      then have "find_client_by_fd_g (gs_clients ?t) x = find_client_by_fd_g (gs_clients s) x"
        using c ci by (simp add: g_upd_def find_other)
      moreover have "i \<noteq> ci" if "find_client_by_fd_g (gs_clients s) x = Some i" for i
        using find_Some(2) [OF that ok] ci by blast
      ultimately show ?thesis using False room_other [of ?t x s] by simp
    qed
  qed
qed

end
