(* ===== verification/Group_Sim.thy ===== *)
theory Group_Sim
  imports Group_Room
begin

text \<open>
  The simulation: every event of \<open>chat/server_group.c\<close> does to the room what the room's own step
  does, and the other members hear exactly what that step announces.
\<close>

section \<open>Broadcast and names\<close>

lemma filter_single:
  "i < length xs \<Longrightarrow> P (xs ! i) \<Longrightarrow> (\<And>j. j < length xs \<Longrightarrow> P (xs ! j) \<Longrightarrow> j = i) \<Longrightarrow> filter P xs = [xs ! i]"
proof (induction xs arbitrary: i)
  case (Cons x xs)
  show ?case
  proof (cases i)
    case 0
    then have "\<forall>y \<in> set xs. \<not> P y" using Cons.prems(3) [of "Suc _"] by (auto simp: all_set_conv_all_nth)
    with 0 Cons.prems(2) show ?thesis by simp
  next
    case (Suc k)
    then have "\<not> P x" using Cons.prems(3) [of 0] by auto
    moreover have "filter P xs = [xs ! k]"
      using Cons.IH [of k] Cons.prems Suc by fastforce
    ultimately show ?thesis using Suc by simp
  qed
qed simp

lemma cstr_same: "NUL \<notin> set t \<Longrightarrow> cstr t = t"
  unfolding cstr_def by (rule takeWhile_eq_all_conv [THEN iffD2]) auto

lemma heard_map_filter:
  "heard g (map (\<lambda>c. G_send (g_fd c) m) (filter P cs)) = map (\<lambda>_. m) (filter (\<lambda>c. P c \<and> g_fd c = g) cs)"
  by (induction cs) simp_all

lemma member_iff:
  assumes "group_ok s"
  shows "member (room_of s) g \<longleftrightarrow>
    (\<exists>i < 100. g_active (gs_clients s ! i) \<and> g_logged_in (gs_clients s ! i) \<and> g_fd (gs_clients s ! i) = g)"
proof
  assume m: "member (room_of s) g"
  then obtain n p where "room_of s g = Some (Some n, p)" by (auto simp: member_def split: option.splits)
  then show "\<exists>i < 100. g_active (gs_clients s ! i) \<and> g_logged_in (gs_clients s ! i) \<and> g_fd (gs_clients s ! i) = g"
    using assms by (auto elim!: room_Some simp: client_view_def split: if_splits)
qed (use room_active [OF assms] in \<open>auto simp: member_def client_view_def\<close>)

lemma heard_broadcast:
  assumes ok: "group_ok s"
  shows "heard g (gs_out (broadcast_message msg x s)) =
    heard g (gs_out s) @ (if g \<noteq> x \<and> member (room_of s) g then [cstr msg] else [])"
proof -
  note d = group_okD [OF ok]
  let ?P = "\<lambda>c. (g_active c \<and> g_logged_in c \<and> g_fd c \<noteq> x) \<and> g_fd c = g"
  show ?thesis
  proof (cases "g \<noteq> x \<and> member (room_of s) g")
    case True
    then obtain i where i: "i < 100" "?P (gs_clients s ! i)" using member_iff [OF ok] by auto
    have "filter ?P (gs_clients s) = [gs_clients s ! i]"
      by (rule filter_single) (use i d(1,2) in auto)
    with True show ?thesis by (simp add: heard_map_filter)
  next
    case False
    then have "\<forall>c \<in> set (gs_clients s). \<not> ?P c"
      using member_iff [OF ok, of g] d(1) by (auto simp: all_set_conv_all_nth)
    then have "filter ?P (gs_clients s) = []" by simp
    with False show ?thesis by (auto simp: heard_map_filter)
  qed
qed

lemma name_taken_iff: "group_ok s \<Longrightarrow> name_taken n (room_of s) \<longleftrightarrow> username_in_use n (gs_clients s)"
proof
  assume ok: "group_ok s" and "name_taken n (room_of s)"
  then obtain fd p where "room_of s fd = Some (Some n, p)" by (auto simp: name_taken_def)
  then obtain ci where "ci < 100" "g_active (gs_clients s ! ci)" "client_view (gs_clients s ! ci) = (Some n, p)"
    using ok by (rule room_Some)
  then show "username_in_use n (gs_clients s)" using group_okD(1) [OF ok]
    by (auto simp: username_in_use_def client_view_def list_ex_length intro!: exI [of _ ci] split: if_splits)
next
  assume ok: "group_ok s" and "username_in_use n (gs_clients s)"
  then obtain i where "i < 100" "g_active (gs_clients s ! i)" "g_logged_in (gs_clients s ! i)" "g_username (gs_clients s ! i) = n"
    using group_okD(1) [OF ok] by (auto simp: username_in_use_def list_ex_length)
  with room_active [OF ok, of i] have "room_of s (g_fd (gs_clients s ! i)) = Some (Some n, g_input (gs_clients s ! i))"
    by (simp add: client_view_def)
  then show "name_taken n (room_of s)" unfolding name_taken_def by blast
qed

section \<open>One step of the simulation\<close>

definition step_sim :: "group_server \<Rightarrow> int \<Rightarrow> group_server \<Rightarrow> room \<times> string list \<Rightarrow> bool" where
  "step_sim s fd t x \<longleftrightarrow> group_ok t \<and> room_of t = fst x \<and>
     (\<forall>g. g \<noteq> fd \<longrightarrow> room_of t g = room_of s g \<and>
        heard g (gs_out t) = heard g (gs_out s) @ (if member (room_of s) g then snd x else []))"

lemma step_simI:
  assumes "group_ok t" "room_of t = R" "\<And>g. g \<noteq> fd \<Longrightarrow> R g = room_of s g"
    "\<And>g. g \<noteq> fd \<Longrightarrow> heard g (gs_out t) = heard g (gs_out s) @ (if member (room_of s) g then a else [])"
  shows "step_sim s fd t (R, a)"
  using assms by (simp add: step_sim_def)

lemma step_sim_quiet:
  assumes "group_ok s" "gs_clients t = gs_clients s" "\<And>g. g \<noteq> fd \<Longrightarrow> heard g (gs_out t) = heard g (gs_out s)"
  shows "step_sim s fd t (room_of s, [])"
  using assms same_clients [of t s] by (simp add: step_sim_def)

lemma step_sim_then:
  assumes "step_sim s fd t (R, a)" "step_sim t fd u (R', b)"
  shows "step_sim s fd u (R', a @ b)"
  using assms by (auto simp: step_sim_def member_def)

lemma notice_same: "name_ok n \<Longrightarrow> length w \<le> 30 \<Longrightarrow> NUL \<notin> set w \<Longrightarrow> cstr (system_notice n w) = notice n w"
  by (subst cstr_same) (auto simp: system_notice_def notice_def name_ok_def)

lemma said_same:
  "name_ok n \<Longrightarrow> length l < 4096 \<Longrightarrow> NUL \<notin> set l \<Longrightarrow>
   cstr (take (BUFFER_SIZE_g + USERNAME_SIZE_g + 16 - 1) (n @ '': '' @ l @ [NL])) = said n l"
  by (subst cstr_same) (auto simp: said_def name_ok_def BUFFER_SIZE_g_def USERNAME_SIZE_g_def)

lemma heard_user_list [simp]:
  "g \<noteq> g_fd (gs_clients s ! ci) \<Longrightarrow> heard g (gs_out (show_user_list ci s)) = heard g (gs_out s)"
  by (simp add: show_user_list_def Let_def)

lemma cut_cr_facts:
  "cut_cr (cut_cr l) = cut_cr l" "length (cut_cr l) \<le> length l" "NUL \<notin> set l \<Longrightarrow> NUL \<notin> set (cut_cr l)"
  by (auto simp: cut_cr_def length_takeWhile_le dest: set_takeWhileD)

text \<open>Where the line leaves its own client.\<close>

definition stays :: "nat \<Rightarrow> int \<Rightarrow> group_server \<Rightarrow> bool" where
  "stays ci fd t \<longleftrightarrow> g_active (gs_clients t ! ci) \<and> g_fd (gs_clients t ! ci) = fd"

definition line_sim :: "group_server \<Rightarrow> nat \<Rightarrow> int \<Rightarrow> int \<times> group_server \<Rightarrow> room \<times> string list \<Rightarrow> bool" where
  "line_sim s ci fd x y \<longleftrightarrow> step_sim s fd (snd x) y \<and>
     (if fst y fd = None then \<not> g_active (gs_clients (snd x) ! ci) else fst x \<noteq> 0 \<and> stays ci fd (snd x))"

lemma login_sim:
  assumes ok: "group_ok s" and ci: "ci < 100" "g_active (gs_clients s ! ci)" "\<not> g_logged_in (gs_clients s ! ci)"
    and fd: "fd = g_fd (gs_clients s ! ci)" and l: "NUL \<notin> set l"
  shows "line_sim s ci fd (1, process_login_g ci l s) (room_line fd (cut_cr l) (room_of s))"
proof -
  let ?l = "cut_cr l"
  have R: "room_of s fd = Some (None, g_input (gs_clients s ! ci))"
    using room_active [OF ok ci(1,2)] ci(3) fd by (simp add: client_view_def)
  note d = group_okD [OF ok]
  have n: "NUL \<notin> set ?l" using l by (rule cut_cr_facts(3))
  show ?thesis
  proof (cases "?l \<noteq> [] \<and> length ?l < 32 \<and> \<not> name_taken ?l (room_of s)")
    case False
    then have "\<exists>t. process_login_g ci l s = send_text_g fd t s"
      by (auto simp: process_login_g_def Let_def fd USERNAME_SIZE_g_def name_taken_iff [OF ok])
    then obtain t where "process_login_g ci l s = send_text_g fd t s" by blast
    moreover have "room_line fd ?l (room_of s) = (room_of s, [])" using False by (simp add: room_line_def R)
    ultimately show ?thesis using R ci fd step_sim_quiet [OF ok, of "send_text_g fd t s" fd]
      by (simp add: line_sim_def stays_def)
  next
    case True
    let ?f = "\<lambda>c. c\<lparr>g_username := ?l, g_logged_in := True\<rparr>"
    have tk: "take 31 ?l = ?l" using True by simp
    define s1 where "s1 = g_upd ci ?f s"
    have nm: "name_ok ?l" using True n by (simp add: name_ok_def)
    have c1: "gs_clients s1 ! ci = ?f (gs_clients s ! ci)" using ci d(1) by (simp add: s1_def)
    have s1: "group_ok s1" "room_of s1 = (room_of s)(fd \<mapsto> (Some ?l, g_input (gs_clients s ! ci)))"
      using slot_change [OF ok ci(1,2), of ?f] d(3) [OF ci(1,2)] ci nm
      by (simp_all add: s1_def fd client_view_def)
    define s2 where "s2 = show_user_list ci (send_text_g fd welcome_text s1)"
    have s2: "gs_clients s2 = gs_clients s1" by (simp add: s2_def)
    then have r2: "group_ok s2" "room_of s2 = room_of s1" using same_clients [of s2 s1] s1 by simp_all
    have h2: "heard g (gs_out s2) = heard g (gs_out s)" if "g \<noteq> fd" for g
      using that c1 fd by (simp add: s2_def s1_def)
    have p: "process_login_g ci l s = broadcast_message (system_notice ?l '' joined the group.'') fd s2"
      using True c1 fd tk by (simp add: process_login_g_def Let_def USERNAME_SIZE_g_def name_taken_iff [OF ok] s2_def s1_def)
    define t where "t = broadcast_message (system_notice ?l '' joined the group.'') fd s2"
    have t: "gs_clients t = gs_clients s1" by (simp add: t_def s2)
    have "step_sim s fd t (room_of s1, [notice ?l '' joined the group.''])"
    proof (rule step_simI)
      fix g assume g: "g \<noteq> fd"
      then have "member (room_of s2) g = member (room_of s) g" by (simp add: r2 s1 member_def)
      with g show "heard g (gs_out t) = heard g (gs_out s) @
          (if member (room_of s) g then [notice ?l '' joined the group.''] else [])"
        unfolding t_def heard_broadcast [OF r2(1)] h2 [OF g] by (simp add: notice_same [OF nm])
    qed (use same_clients [OF t] s1 in simp_all)
    moreover have "room_line fd ?l (room_of s) = (room_of s1, [notice ?l '' joined the group.''])"
      using True by (simp add: room_line_def R s1)
    moreover have "stays ci fd t" using t c1 ci fd by (simp add: stays_def)
    ultimately show ?thesis using s1 by (simp add: line_sim_def p t_def)
  qed
qed

lemma message_sim:
  assumes ok: "group_ok s" and ci: "ci < 100" "g_active (gs_clients s ! ci)" "g_logged_in (gs_clients s ! ci)"
    and fd: "fd = g_fd (gs_clients s ! ci)" and l: "NUL \<notin> set l" "length l < 4096"
  shows "line_sim s ci fd (process_group_message ci l s) (room_line fd l (room_of s))"
proof -
  let ?n = "g_username (gs_clients s ! ci)"
  have R: "room_of s fd = Some (Some ?n, g_input (gs_clients s ! ci))"
    using room_active [OF ok ci(1,2)] ci(3) fd by (simp add: client_view_def)
  have nm: "name_ok ?n" using group_okD(4) [OF ok ci] .
  note [simp] = fd [symmetric]
  consider (quit) "l = ''/quit''" | (users) "l = ''/users''" | (empty) "l = []" | (talk) "l \<noteq> ''/quit''" "l \<noteq> ''/users''" "l \<noteq> []" by blast
  then show ?thesis
  proof cases
    case quit
    define s1 where "s1 = send_text_g fd (''Goodbye.'' @ [NL]) (broadcast_message (system_notice ?n '' left the group.'') fd s)"
    have c: "gs_clients s1 = gs_clients s" by (simp add: s1_def)
    then have ok1: "group_ok s1" "room_of s1 = room_of s" using same_clients [of s1 s] ok by simp_all
    have h1: "heard g (gs_out s1) = heard g (gs_out s) @ (if member (room_of s) g then [notice ?n '' left the group.''] else [])"
      if "g \<noteq> fd" for g
      using that by (simp add: s1_def heard_broadcast [OF ok] notice_same [OF nm] del: broadcast_simps(2))
    note lv = slot_leave [OF ok1(1) ci(1)]
    have a: "g_active (gs_clients s1 ! ci)" using ci c by simp
    have "step_sim s fd (disconnect_client_g ci s1) ((room_of s)(fd := None), [notice ?n '' left the group.''])"
      by (rule step_simI) (simp_all add: lv(1,2,4) [OF a] c ok1 h1)
    moreover have "process_group_message ci l s = (0, disconnect_client_g ci s1)"
      using quit by (simp add: process_group_message_def Let_def s1_def)
    moreover have "room_line fd l (room_of s) = ((room_of s)(fd := None), [notice ?n '' left the group.''])"
      using quit by (simp add: room_line_def R)
    ultimately show ?thesis using lv(3) [OF a] by (simp add: line_sim_def)
  next
    case users
    then show ?thesis using R ci step_sim_quiet [OF ok, of "show_user_list ci s" fd]
      by (simp add: line_sim_def stays_def process_group_message_def Let_def room_line_def)
  next
    case empty
    then show ?thesis using R ci step_sim_quiet [OF ok, of s fd]
      by (simp add: line_sim_def stays_def process_group_message_def Let_def room_line_def)
  next
    case talk
    define t where "t = broadcast_message (take (BUFFER_SIZE_g + USERNAME_SIZE_g + 16 - 1) (?n @ '': '' @ l @ [NL])) fd s"
    have c: "gs_clients t = gs_clients s" by (simp add: t_def)
    have "step_sim s fd t (room_of s, [said ?n l])"
      by (rule step_simI) (use same_clients [OF c] ok in \<open>simp_all add: t_def heard_broadcast [OF ok] said_same [OF nm l(2,1), simplified]
        del: broadcast_simps(2)\<close>)
    moreover have "process_group_message ci l s = (1, t)" using talk by (simp add: process_group_message_def Let_def t_def)
    moreover have "room_line fd l (room_of s) = (room_of s, [said ?n l])" using talk by (simp add: room_line_def R)
    moreover have "stays ci fd t" using c ci by (simp add: stays_def)
    ultimately show ?thesis using R by (simp add: line_sim_def)
  qed
qed

lemma process_line_sim:
  assumes ok: "group_ok s" and ci: "ci < 100" "g_active (gs_clients s ! ci)"
    and fd: "fd = g_fd (gs_clients s ! ci)" and l: "NUL \<notin> set l" "length l < 4096"
  shows "line_sim s ci fd (process_line_g ci l s) (room_line fd (cut_cr l) (room_of s))"
proof (cases "g_logged_in (gs_clients s ! ci)")
  case False
  with login_sim [OF ok ci False fd, of "cut_cr l"] l show ?thesis
    by (simp add: process_line_g_def cut_cr_facts)
next
  case True
  with message_sim [OF ok ci True fd, of "cut_cr l"] l cut_cr_facts(2) [of l] show ?thesis
    by (simp add: process_line_g_def cut_cr_facts)
qed

end
