(* ===== verification/Group_Props.thy ===== *)
theory Group_Props
  imports Group_Sim
begin

text \<open>
  The properties of \<open>chat/server_group.c\<close>: it refines the room, over every sequence of events;
  and what the members hear.
\<close>

section \<open>The lines of one receive\<close>

lemma name_taken_pending: "R fd = Some (nm, y) \<Longrightarrow> name_taken n (R(fd \<mapsto> (nm, x))) = name_taken n R"
proof -
  assume R: "R fd = Some (nm, y)"
  have "(\<exists>p. (R(fd \<mapsto> (nm, x))) g = Some (Some n, p)) \<longleftrightarrow> (\<exists>p. R g = Some (Some n, p))" for g
    using R by (cases "g = fd") auto
  then show ?thesis by (simp only: name_taken_def)
qed

lemma room_line_pending:
  assumes "R fd = Some (nm, y)" "room_line fd l R = (R1, a)"
  shows "(R1 fd = None \<and> room_line fd l (R(fd \<mapsto> (nm, x))) = (R1, a)) \<or>
    (\<exists>nm'. R1 fd = Some (nm', y) \<and> room_line fd l (R(fd \<mapsto> (nm, x))) = (R1(fd \<mapsto> (nm', x)), a))"
  using assms by (cases nm) (auto simp: room_line_def name_taken_pending fun_upd_idem split: if_splits)

lemma cstr_facts: "NUL \<notin> set (cstr t)" "length (cstr t) \<le> length t"
  by (auto simp: cstr_def length_takeWhile_le dest: set_takeWhileD)

lemma lines_sim:
  assumes "group_ok s" "ci < 100" "g_active (gs_clients s ! ci)" "fd = g_fd (gs_clients s ! ci)" "room_of s fd = Some (nm, p)"
    "split_lines p = (ls, rest)"
  shows "step_sim s fd (process_lines_g ci s) (room_lines fd ls ((room_of s)(fd \<mapsto> (nm, rest))))"
  using assms
proof (induction "length p" arbitrary: s nm p ls rule: less_induct)
  case less
  note ok = less.prems(1) and ci = less.prems(2,3) and fd = less.prems(4) and R = less.prems(5)
  have inp: "g_input (gs_clients s ! ci) = p" using room_active [OF ok ci] R fd by (simp add: client_view_def)
  have len: "ci < length (gs_clients s)" "length p < 4096" using group_okD(1,3) [OF ok] ci inp by auto
  show ?case
  proof (cases "NL \<in> set p")
    case False
    then have "process_lines_g ci s = s" "ls = []" "rest = p"
      using inp less.prems(6) by (simp_all add: process_lines_g.simps split_lines.simps [of p])
    then show ?thesis using ok R step_sim_quiet [OF ok, of s fd] by (simp add: fun_upd_idem)
  next
    case True
    obtain ls' where sp: "split_lines (after_line p) = (ls', rest)" "ls = first_line p # ls'"
      using less.prems(6) True by (auto simp: split_lines.simps [of p] split: prod.splits)
    define d where "d = drop_line_g ci s"
    let ?l = "cstr (first_line p)"
    have dc: "gs_clients d ! ci = (gs_clients s ! ci)\<lparr>g_input := after_line p\<rparr>" using len inp by (simp add: d_def drop_line_g_def)
    have sh: "length (after_line p) < length p" using True by (rule length_after_line)
    have v: "client_view ((gs_clients s ! ci)\<lparr>g_input := after_line p\<rparr>) = (nm, after_line p)"
      using room_active [OF ok ci] R fd by (auto simp: client_view_def)
    have okd: "group_ok d" "room_of d = (room_of s)(fd \<mapsto> (nm, after_line p))"
      using slot_change [OF ok ci, of "\<lambda>c. c\<lparr>g_input := after_line (g_input c)\<rparr>"] ci group_okD(4) [OF ok ci] sh len inp fd v
      by (simp_all add: d_def drop_line_g_def)
    have sd: "step_sim s fd d (room_of d, [])"
      by (rule step_simI) (simp_all add: okd, simp add: d_def drop_line_g_def)
    obtain r t where pl: "process_line_g ci ?l d = (r, t)" by fastforce
    obtain R1 a where rl: "room_line fd (cut_cr ?l) (room_of d) = (R1, a)" by fastforce
    have "length ?l < 4096" using cstr_facts(2) [of "first_line p"] length_first_line [OF True] len by linarith
    with process_line_sim [OF okd(1) ci(1), of fd ?l] dc ci fd pl rl cstr_facts(1)
    have ps: "line_sim d ci fd (r, t) (R1, a)" by simp
    then have st: "step_sim d fd t (R1, a)" by (simp add: line_sim_def)
    then have okt: "group_ok t" "room_of t = R1" by (simp_all add: step_sim_def)
    have pu: "process_lines_g ci s = (if r = 0 then t else process_lines_g ci t)"
      using len ci True inp pl by (simp add: process_lines_g.simps [of ci s] d_def [symmetric])
    have Rd: "room_of d fd = Some (nm, after_line p)" by (simp add: okd)
    have up: "(room_of d)(fd \<mapsto> (nm, rest)) = (room_of s)(fd \<mapsto> (nm, rest))" by (simp add: okd)
    show ?thesis
    proof (cases "R1 fd")
      case None
      then have "\<not> g_active (gs_clients t ! ci)" using ps by (simp add: line_sim_def)
      then have "process_lines_g ci s = t" by (simp add: pu process_lines_g.simps [of ci t])
      moreover have "room_line fd (cut_cr ?l) ((room_of s)(fd \<mapsto> (nm, rest))) = (R1, a)"
        using room_line_pending [OF Rd rl, of rest] None up by simp
      then have "room_lines fd ls ((room_of s)(fd \<mapsto> (nm, rest))) = (R1, a)"
        using None by (cases ls') (simp_all add: sp)
      ultimately show ?thesis using step_sim_then [OF sd st] by simp
    next
      case (Some v)
      then have ac: "r \<noteq> 0" "g_active (gs_clients t ! ci)" "fd = g_fd (gs_clients t ! ci)"
        using ps by (simp_all add: line_sim_def stays_def)
      obtain nm' where nm': "R1 fd = Some (nm', after_line p)"
        "room_line fd (cut_cr ?l) ((room_of s)(fd \<mapsto> (nm, rest))) = (R1(fd \<mapsto> (nm', rest)), a)"
        using room_line_pending [OF Rd rl, of rest] Some up by auto
      have IH: "step_sim t fd (process_lines_g ci t) (room_lines fd ls' (R1(fd \<mapsto> (nm', rest))))"
        using less.hyps [OF sh okt(1) ci(1) ac(2,3) _ sp(1), of nm'] nm' okt(2) by simp
      obtain R2 b where x: "room_lines fd ls' (R1(fd \<mapsto> (nm', rest))) = (R2, b)" by fastforce
      have "room_lines fd ls ((room_of s)(fd \<mapsto> (nm, rest))) = (R2, a @ b)" using nm' x by (simp add: sp)
      with step_sim_then [OF step_sim_then [OF sd st] IH [unfolded x]] ac(1) show ?thesis by (simp add: pu)
    qed
  qed
qed

section \<open>Events\<close>

lemma dom_room: "group_ok s \<Longrightarrow> dom (room_of s) = (\<lambda>i. g_fd (gs_clients s ! i)) ` {i. i < 100 \<and> g_active (gs_clients s ! i)}"
  using room_active by (fastforce elim: room_Some)

lemma room_full:
  assumes ok: "group_ok s"
  shows "find_free_client (gs_clients s) = None \<longleftrightarrow> card (dom (room_of s)) \<ge> 100"
proof -
  let ?A = "{i. i < 100 \<and> g_active (gs_clients s ! i)}"
  have "inj_on (\<lambda>i. g_fd (gs_clients s ! i)) ?A" using group_okD(2) [OF ok] by (auto intro!: inj_onI)
  then have c: "card (dom (room_of s)) = card ?A" unfolding dom_room [OF ok] by (rule card_image)
  have f: "find_free_client (gs_clients s) = None \<longleftrightarrow> (\<forall>i < 100. g_active (gs_clients s ! i))"
    using group_okD(1) [OF ok] by (auto simp: find_free_client_def first_index_None_iff all_set_conv_all_nth)
  show ?thesis
  proof (cases "\<forall>i < 100. g_active (gs_clients s ! i)")
    case True
    then have "?A = {..<100}" by auto
    with c f True show ?thesis by simp
  next
    case False
    then have "?A \<subset> {..<100}" by auto
    then have "card ?A < 100" using psubset_card_mono [of "{..<100::nat}" ?A] by simp
    with c f False show ?thesis by simp
  qed
qed

lemma leave_sim:
  assumes ok: "group_ok s" and ci: "ci < 100" "g_active (gs_clients s ! ci)" and fd: "g_fd (gs_clients s ! ci) = fd"
  shows "step_sim s fd (disconnect_client_g ci s) ((room_of s)(fd := None), [])"
  by (rule step_simI) (use slot_leave [OF ok ci] fd in simp_all)

lemma accept_sim:
  assumes ok: "group_ok s" and new: "room_of s fd = None"
  shows "step_sim s fd (handle_accept_g fd add s) (room_step (G_accept fd add) (room_of s))"
proof (cases "find_free_client (gs_clients s)")
  case None
  then show ?thesis using room_full [OF ok] step_sim_quiet [OF ok, of "handle_accept_g fd add s" fd]
    by (simp add: handle_accept_g_def)
next
  case (Some ci)
  let ?t = "g_upd ci (\<lambda>c. zero_group_client\<lparr>g_fd := fd, g_active := True\<rparr>) s"
  note e = slot_enter [OF ok Some new]
  have ct: "gs_clients ?t ! ci = zero_group_client\<lparr>g_fd := fd, g_active := True\<rparr>" using e(3) group_okD(1) [OF ok] by simp
  have c: "\<not> card (dom (room_of s)) \<ge> 100" using Some room_full [OF ok] by auto
  have st: "step_sim s fd ?t ((room_of s)(fd \<mapsto> (None, [])), [])"
    by (rule step_simI) (simp_all add: e)
  consider (neg) "fd < 0" | (drop) "fd \<ge> 0" "\<not> add" | (enter) "fd \<ge> 0" "add" by linarith
  then show ?thesis
  proof cases
    case neg
    then show ?thesis using step_sim_quiet [OF ok, of s fd] by (simp add: handle_accept_g_def)
  next
    case drop
    have "step_sim ?t fd (disconnect_client_g ci ?t) ((room_of ?t)(fd := None), [])"
      by (rule leave_sim [OF e(1,3)]) (simp_all add: ct)
    from step_sim_then [OF st this] have "step_sim s fd (disconnect_client_g ci ?t) (room_of s, [])"
      using new by (simp add: e(2) fun_upd_idem)
    then show ?thesis using drop Some by (simp add: handle_accept_g_def Let_def)
  next
    case enter
    let ?u = "send_text_g fd ''Enter your username: '' (g_log [G_epoll_add fd] ?t)"
    have "step_sim s fd ?u ((room_of s)(fd \<mapsto> (None, [])), [])"
      using step_sim_then [OF st step_sim_quiet [OF e(1), of ?u fd]] by (simp add: e(2))
    then show ?thesis using enter Some c by (simp add: handle_accept_g_def Let_def)
  qed
qed

lemma recv_sim:
  assumes ok: "group_ok s"
  shows "step_sim s fd (handle_recv_g fd bytes s) (room_step (G_recv fd bytes) (room_of s))"
proof (cases "find_client_by_fd_g (gs_clients s) fd")
  case None
  then show ?thesis using step_sim_quiet [OF ok, of s fd] by (simp add: handle_recv_g_def room_of_def)
next
  case (Some ci)
  note ci = find_Some [OF Some ok]
  let ?c = "gs_clients s ! ci"
  obtain nm p where v: "client_view ?c = (nm, p)" by fastforce
  then have p: "g_input ?c = p" "nm = (if g_logged_in ?c then Some (g_username ?c) else None)" by (simp_all add: client_view_def)
  have R: "room_of s fd = Some (nm, p)" using room_active [OF ok ci(1,2)] ci(3) v by simp
  have nmok: "g_logged_in ?c \<longrightarrow> name_ok (g_username ?c)" using group_okD(4) [OF ok ci(1,2)] by simp
  have lp: "length p < 4096" using group_okD(3) [OF ok ci(1,2)] p by simp
  note chg = slot_change [OF ok ci(1,2)]
  consider (fin) "bytes = []" | (long) "bytes \<noteq> []" "length p + length bytes \<ge> 4096" | (data) "bytes \<noteq> []" "length p + length bytes < 4096"
    by linarith
  then show ?thesis
  proof cases
    case fin
    define t where "t = (if g_logged_in ?c then broadcast_message (system_notice (g_username ?c) '' disconnected.'') fd s else s)"
    define a where "a = (case nm of None \<Rightarrow> [] | Some n \<Rightarrow> [notice n '' disconnected.''])"
    have c: "gs_clients t = gs_clients s" by (simp add: t_def)
    have okt: "group_ok t" "room_of t = room_of s" using same_clients [OF c] ok by simp_all
    have "step_sim s fd t (room_of s, a)"
      by (rule step_simI) (use okt nmok in \<open>simp_all add: t_def a_def p heard_broadcast [OF ok] notice_same del: broadcast_simps(2)\<close>)
    moreover have "step_sim t fd (disconnect_client_g ci t) ((room_of s)(fd := None), [])"
      using leave_sim [OF okt(1) ci(1)] ci c okt(2) by simp
    ultimately have "step_sim s fd (disconnect_client_g ci t) ((room_of s)(fd := None), a)"
      using step_sim_then by fastforce
    then show ?thesis using fin Some R by (simp add: handle_recv_g_def Let_def t_def a_def)
  next
    case long
    let ?f = "\<lambda>c::group_client. c\<lparr>g_input := []\<rparr>"
    define t where "t = send_text_g fd (''Input too long.'' @ [NL]) s"
    have c: "gs_clients t = gs_clients s" by (simp add: t_def)
    have okt: "group_ok t" "room_of t = room_of s" using same_clients [OF c] ok by simp_all
    have "g_active (gs_clients t ! ci)" using ci c by simp
    note u = slot_change [OF okt(1) ci(1) this, of ?f]
    have "step_sim s fd (g_upd ci ?f t) ((room_of s)(fd \<mapsto> (nm, [])), [])"
      by (rule step_simI) (use u c ci nmok okt(2) p(2) in \<open>simp_all add: client_view_def\<close>, simp add: t_def)
    then show ?thesis using long Some R p(1) by (simp add: handle_recv_g_def Let_def BUFFER_SIZE_g_def t_def)
  next
    case data
    let ?f = "\<lambda>c. c\<lparr>g_input := g_input c @ bytes\<rparr>"
    let ?t = "g_upd ci ?f s"
    have t: "group_ok ?t" "room_of ?t = (room_of s)(fd \<mapsto> (nm, p @ bytes))"
      using chg [of ?f] ci nmok p data by (simp_all add: client_view_def)
    have ct: "gs_clients ?t ! ci = ?f ?c" using ci(1) group_okD(1) [OF ok] by simp
    obtain ls rest where sp: "split_lines (p @ bytes) = (ls, rest)" by fastforce
    have st: "step_sim s fd ?t (room_of ?t, [])" by (rule step_simI) (simp_all add: t)
    have "step_sim ?t fd (process_lines_g ci ?t) (room_lines fd ls ((room_of ?t)(fd \<mapsto> (nm, rest))))"
      by (rule lines_sim [OF t(1) ci(1) _ _ _ sp]) (simp_all add: ct ci t(2))
    moreover obtain R' b where rl: "room_lines fd ls ((room_of s)(fd \<mapsto> (nm, rest))) = (R', b)" by fastforce
    ultimately have "step_sim s fd (process_lines_g ci ?t) (R', b)"
      using step_sim_then [OF st, of "process_lines_g ci ?t" R' b] by (simp add: t(2))
    then show ?thesis using data Some R sp rl p(1) by (simp add: handle_recv_g_def Let_def BUFFER_SIZE_g_def)
  qed
qed

lemma recv_err_sim:
  assumes ok: "group_ok s"
  shows "step_sim s fd (handle_recv_err_g fd e s) (room_step (G_recv_err fd e) (room_of s))"
proof (cases "find_client_by_fd_g (gs_clients s) fd")
  case None
  then have "room_of s fd = None" by (simp add: room_of_def)
  with None show ?thesis using step_sim_quiet [OF ok, of s fd] by (simp add: handle_recv_err_g_def fun_upd_idem)
next
  case (Some ci)
  note ci = find_Some [OF Some ok]
  show ?thesis using Some leave_sim [OF ok ci] step_sim_quiet [OF ok, of s fd] by (simp add: handle_recv_err_g_def)
qed

lemma group_step_sim:
  assumes "group_ok s" "fresh_accepts [e] (room_of s)"
  shows "step_sim s (event_fd e) (group_step e s) (room_step e (room_of s))"
  using assms accept_sim recv_sim recv_err_sim by (cases e) (simp_all del: room_step.simps)

section \<open>The room by itself\<close>

definition one_user :: "room \<Rightarrow> bool" where
  "one_user R \<longleftrightarrow> (\<forall>g g' n p p'. R g = Some (Some n, p) \<longrightarrow> R g' = Some (Some n, p') \<longrightarrow> g = g')"

lemma one_user_upd: "one_user R \<Longrightarrow> (\<And>n. nm = Some n \<Longrightarrow> (\<exists>p. R fd = Some (nm, p)) \<or> \<not> name_taken n R) \<Longrightarrow>
    one_user (R(fd \<mapsto> (nm, x)))"
  unfolding one_user_def name_taken_def by (fastforce split: if_splits)

lemma one_user_del: "one_user R \<Longrightarrow> one_user (R(fd := None))"
  unfolding one_user_def by (auto split: if_splits)

lemma one_user_line: "one_user R \<Longrightarrow> one_user (fst (room_line fd l R))"
  by (auto simp: room_line_def intro: one_user_upd one_user_del split: option.splits)

lemma one_user_lines: "one_user R \<Longrightarrow> one_user (fst (room_lines fd ls R))"
proof (induction ls arbitrary: R)
  case (Cons l ls)
  then show ?case using one_user_line [OF Cons.prems, of fd "cut_cr (cstr l)"]
    by (auto split: prod.splits) (metis Cons.IH fst_conv)
qed simp

lemma one_user_step: "one_user R \<Longrightarrow> one_user (fst (room_step e R))"
proof (cases e)
  case (G_recv fd bytes)
  assume R: "one_user R"
  have "one_user (fst (room_lines fd ls (R(fd \<mapsto> (nm, rest)))))" if "R fd = Some (nm, p)" for ls nm p rest
    by (rule one_user_lines [OF one_user_upd [OF R]]) (use that in auto)
  moreover have "one_user (R(fd \<mapsto> (nm, [])))" if "R fd = Some (nm, p)" for nm p
    by (rule one_user_upd [OF R]) (use that in auto)
  ultimately show ?thesis using G_recv R one_user_del by (auto split: option.splits prod.splits)
qed (auto intro: one_user_upd one_user_del)

lemma one_user_run: "one_user R \<Longrightarrow> one_user (room_run evs R)"
  unfolding room_run_def by (induction evs arbitrary: R) (simp_all add: one_user_step del: room_step.simps)

section \<open>The claims\<close>

lemma start_ok:
  assumes "group_setup sock bindr listenr ep addr = Inr s"
  shows "group_ok s" "room_of s = Map.empty"
proof -
  have cs: "gs_clients s = replicate 100 (zero_group_client\<lparr>g_fd := -1\<rparr>)"
    using assms by (auto simp: group_setup_def Let_def MAX_CLIENTS_g_def split: if_splits)
  have n: "\<not> g_active (gs_clients s ! i)" if "i < 100" for i using that by (simp add: cs zero_group_client_def)
  show ok: "group_ok s" by (rule group_okI) (use n in \<open>auto simp: cs\<close>)
  show "room_of s = Map.empty"
  proof
    fix x
    show "room_of s x = None" using n by (cases "room_of s x") (auto elim: room_Some [OF _ ok])
  qed
qed

lemma room_of_run: "group_ok s \<Longrightarrow> fresh_accepts evs (room_of s) \<Longrightarrow>
  group_ok (group_run evs s) \<and> room_of (group_run evs s) = room_run evs (room_of s)"
proof (induction evs arbitrary: s)
  case (Cons e evs)
  have "step_sim s (event_fd e) (group_step e s) (room_step e (room_of s))"
    by (rule group_step_sim [OF Cons.prems(1)]) (use Cons.prems(2) in simp)
  then have "group_ok (group_step e s)" "room_of (group_step e s) = fst (room_step e (room_of s))"
    by (simp_all add: step_sim_def)
  with Cons show ?case by (simp add: group_run_def room_run_def del: room_step.simps)
qed (simp add: group_run_def room_run_def)

lemma fresh_append: "fresh_accepts (evs @ evs') R \<longleftrightarrow> fresh_accepts evs R \<and> fresh_accepts evs' (room_run evs R)"
  by (induction evs arbitrary: R) (simp_all add: room_run_def del: room_step.simps)

text \<open>
  Claim C2: the group chat server refines the chat room. From a successful start, over every
  sequence of connections, receives of any bytes and receive errors, the slots, linear searches and
  input buffers of the code represent exactly the room the abstract machine computes (who is
  connected, under which name, with which unfinished line), whatever slots are reused; no
  two users have the same name, and the invariant of the slots holds. The kernel is only
  asked not to hand out a descriptor that is still open.
\<close>
theorem group_refines_room:
  assumes "group_setup sock bindr listenr ep addr = Inr s" "fresh_accepts evs Map.empty"
  shows "room_of (group_run evs s) = room_run evs Map.empty \<and> group_ok (group_run evs s) \<and> one_user (room_run evs Map.empty)"
  using room_of_run [OF start_ok(1) [OF assms(1)], of evs] assms(2) start_ok(2) [OF assms(1)] one_user_run [of Map.empty evs]
  by (simp add: one_user_def)

theorem group_refines_room_witness:
  "\<exists>s. group_setup 3 0 0 4 0 = Inr s \<and>
     room_of (group_run [G_accept 5 True, G_accept 6 True, G_recv 5 (''ali'' @ [NL] @ ''he''), G_recv_err 6 EAGAIN] s) =
       [5 \<mapsto> (Some ''ali'', ''he'')]"
proof -
  let ?evs = "[G_accept 5 True, G_accept 6 True, G_recv 5 (''ali'' @ [NL] @ ''he''), G_recv_err 6 EAGAIN]"
  obtain s where s: "group_setup 3 0 0 4 0 = Inr s" by (simp add: group_setup_def Let_def)
  have n: "\<not> name_taken ''ali'' [5 \<mapsto> (None, ''he''), 6 \<mapsto> (None, [])]" by (auto simp: name_taken_def split: if_splits)
  have r: "room_lines 5 [''ali''] [5 \<mapsto> (None, ''he''), 6 \<mapsto> (None, [])] =
      ([5 \<mapsto> (Some ''ali'', ''he''), 6 \<mapsto> (None, [])], [notice ''ali'' '' joined the group.''])"
    using n by (simp add: room_line_def cut_cr_def cstr_def fun_upd_twist)
  have run: "room_run ?evs Map.empty = [5 \<mapsto> (Some ''ali'', ''he'')]"
    using r by (simp add: room_run_def split_lines.simps first_line_def after_line_def fun_upd_twist)
  have "fresh_accepts ?evs Map.empty" by simp
  from group_refines_room [OF s this] s run show ?thesis by auto
qed

text \<open>
  Claim C34: what the members hear. Whatever happened before, an event of one connection
  sends every other logged-in member exactly the announcements of the room's step, in order
  and complete: the joining of a user, each non-empty line \<open>name: text\<close>, the leaving or the
  disconnection; and nothing to connections that have not logged in.
\<close>
theorem group_hears:
  assumes "group_setup sock bindr listenr ep addr = Inr s" "fresh_accepts (evs @ [e]) Map.empty" "g \<noteq> event_fd e"
    and R: "R = room_run evs Map.empty" and t: "t = group_run evs s"
  shows "heard g (gs_out (group_step e t)) = heard g (gs_out t) @ (if member R g then snd (room_step e R) else [])"
proof -
  note r = room_of_run [OF start_ok(1) [OF assms(1)], of evs, unfolded start_ok(2) [OF assms(1)]]
  have "step_sim t (event_fd e) (group_step e t) (room_step e (room_of t))"
    using r assms(2) group_step_sim [of t e] by (simp add: t fresh_append)
  with assms(2,3) r show ?thesis by (simp add: step_sim_def t R fresh_append)
qed

theorem group_hears_witness:
  "\<exists>s. group_setup 3 0 0 4 0 = Inr s \<and>
    (let t = group_run [G_accept 5 True, G_recv 5 (''ali'' @ [NL]), G_accept 6 True] s in
     heard 5 (gs_out (group_step (G_recv 6 (''veli'' @ [NL] @ ''hi'' @ [NL])) t)) =
       heard 5 (gs_out t) @ [notice ''veli'' '' joined the group.'', said ''veli'' ''hi''])"
proof -
  let ?evs = "[G_accept 5 True, G_recv 5 (''ali'' @ [NL]), G_accept 6 True]" and ?e = "G_recv 6 (''veli'' @ [NL] @ ''hi'' @ [NL])"
  let ?R = "[5 \<mapsto> (Some ''ali'', []), 6 \<mapsto> (None, [])] :: room"
  obtain s where s: "group_setup 3 0 0 4 0 = Inr s" by (simp add: group_setup_def Let_def)
  have n: "\<not> name_taken ''ali'' [5 \<mapsto> (None, [])]" "\<not> name_taken ''veli'' ?R"
    by (auto simp: name_taken_def split: if_splits)
  have run: "room_run ?evs Map.empty = ?R"
    using n by (simp add: room_run_def split_lines.simps first_line_def after_line_def room_line_def cut_cr_def cstr_def)
  have f: "fresh_accepts (?evs @ [?e]) Map.empty"
    using n by (simp add: split_lines.simps first_line_def after_line_def room_line_def cut_cr_def cstr_def)
  have x: "snd (room_step ?e ?R) = [notice ''veli'' '' joined the group.'', said ''veli'' ''hi'']"
    using n by (simp add: split_lines.simps first_line_def after_line_def room_line_def cut_cr_def cstr_def)
  have m: "member ?R 5" by (simp add: member_def)
  from group_hears [OF s f _ refl refl, of 5] s run x m show ?thesis by (simp del: room_step.simps)
qed

end
