(* ===== verification/Group_Chunks.thy ===== *)
theory Group_Chunks
  imports Group_Props
begin

text \<open>
  Handling a line in \<open>chat/server_group.c\<close> does not look at the input buffer of any client, so the
  group server is a second provider of the framing contract, and how the bytes of a client were
  cut into receives changes nothing at all.
\<close>

section \<open>Nothing depends on an input buffer\<close>

definition strip :: "group_client \<Rightarrow> group_client" where
  "strip c = c\<lparr>g_input := []\<rparr>"

lemma strip_simps [simp]:
  "g_active (strip c) = g_active c" "g_fd (strip c) = g_fd c" "g_logged_in (strip c) = g_logged_in c"
  "g_username (strip c) = g_username c"
  by (simp_all add: strip_def)

definition g_put :: "nat \<Rightarrow> string \<Rightarrow> group_server \<Rightarrow> group_server" where
  "g_put ci x s = g_upd ci (\<lambda>c. c\<lparr>g_input := x\<rparr>) s"

definition g_here :: "nat \<Rightarrow> group_server \<Rightarrow> bool" where
  "g_here ci s \<longleftrightarrow> ci < MAX_CLIENTS_g \<and> ci < length (gs_clients s) \<and> g_active (gs_clients s ! ci)"

definition g_put_if :: "nat \<Rightarrow> string \<Rightarrow> group_server \<Rightarrow> group_server" where
  "g_put_if ci x s = (if g_here ci s then g_put ci x s else s)"

lemma strip_put: "map strip (gs_clients (g_put ci x s)) = map strip (gs_clients s)"
proof (cases "ci < length (gs_clients s)")
  case True
  have "strip ((gs_clients s ! ci)\<lparr>g_input := x\<rparr>) = strip (gs_clients s ! ci)" by (simp add: strip_def)
  moreover have "(map strip (gs_clients s))[ci := strip (gs_clients s ! ci)] = map strip (gs_clients s)"
    using list_update_id [of "map strip (gs_clients s)" ci] True by (simp del: list_update_id)
  ultimately show ?thesis using True by (simp add: g_put_def g_upd_def map_update)
qed (simp add: g_put_def g_upd_def list_update_beyond)

lemma g_put_simps [simp]:
  "length (gs_clients (g_put ci x s)) = length (gs_clients s)" "gs_out (g_put ci x s) = gs_out s"
  "g_here ci (g_put ci y s) = g_here ci s"
  by (simp add: g_put_def, simp add: g_put_def, cases "ci < length (gs_clients s)") (simp_all add: g_put_def g_here_def)

lemma g_put_nth: "j < length (gs_clients s) \<Longrightarrow> strip (gs_clients (g_put ci x s) ! j) = strip (gs_clients s ! j)"
  using arg_cong [OF strip_put [of ci x s], of "\<lambda>xs. xs ! j"] by simp

lemma g_put_fields:
  assumes "j < length (gs_clients s)"
  shows "g_fd (gs_clients (g_put ci x s) ! j) = g_fd (gs_clients s ! j)"
    "g_username (gs_clients (g_put ci x s) ! j) = g_username (gs_clients s ! j)"
    "g_logged_in (gs_clients (g_put ci x s) ! j) = g_logged_in (gs_clients s ! j)"
    "g_active (gs_clients (g_put ci x s) ! j) = g_active (gs_clients s ! j)"
  using g_put_nth [OF assms, of ci x] by (metis strip_simps)+

lemma receivers_strip:
  "map (\<lambda>c. G_send (g_fd c) m) (filter (\<lambda>c. g_active c \<and> g_logged_in c \<and> g_fd c \<noteq> x) cs) =
   map (\<lambda>c. G_send (g_fd c) m) (filter (\<lambda>c. g_active c \<and> g_logged_in c \<and> g_fd c \<noteq> x) (map strip cs))"
  by (induction cs) simp_all

lemma in_use_strip: "username_in_use n cs = username_in_use n (map strip cs)"
  by (induction cs) (simp_all add: username_in_use_def)

lemma user_list_strip: "user_list_lines k i ci cs = user_list_lines k i ci (map strip cs)"
  by (induction cs arbitrary: k i) simp_all

lemma in_use_put [simp]: "username_in_use n (gs_clients (g_put ci x s)) = username_in_use n (gs_clients s)"
  by (subst (1 2) in_use_strip) (simp add: strip_put)

lemma put_sends [simp]:
  "send_text_g fd t (g_put ci x s) = g_put ci x (send_text_g fd t s)"
  "broadcast_message m fd (g_put ci x s) = g_put ci x (broadcast_message m fd s)"
proof -
  show "send_text_g fd t (g_put ci x s) = g_put ci x (send_text_g fd t s)"
    by (simp add: send_text_g_def g_log_def g_put_def g_upd_def)
  have "gs_out (broadcast_message m fd (g_put ci x s)) = gs_out (broadcast_message m fd s)"
    unfolding broadcast_simps by (subst (1 2) receivers_strip) (simp add: strip_put)
  then show "broadcast_message m fd (g_put ci x s) = g_put ci x (broadcast_message m fd s)"
    by (intro group_server.equality) (simp_all add: g_put_def, simp add: g_upd_def)
qed

lemma put_fold_sends: "fold (send_text_g fd) ts (g_put ci x s) = g_put ci x (fold (send_text_g fd) ts s)"
  by (induction ts arbitrary: s) simp_all

lemma put_user_list [simp]:
  "cj < length (gs_clients s) \<Longrightarrow> show_user_list cj (g_put ci x s) = g_put ci x (show_user_list cj s)"
proof -
  assume l: "cj < length (gs_clients s)"
  have "user_list_lines 1 0 cj (gs_clients (g_put ci x t)) = user_list_lines 1 0 cj (gs_clients t)" for t
    by (subst (1 2) user_list_strip) (simp add: strip_put)
  then show "show_user_list cj (g_put ci x s) = g_put ci x (show_user_list cj s)"
    using l by (simp add: show_user_list_def Let_def g_put_fields put_fold_sends)
qed

lemma g_here_same:
  "g_here ci (send_text_g fd t s) = g_here ci s" "g_here ci (broadcast_message m fd s) = g_here ci s"
  "g_here ci (show_user_list cj s) = g_here ci s"
  by (simp_all add: g_here_def)

lemma put_disconnect_g: "g_here ci s \<Longrightarrow> disconnect_client_g ci (g_put ci x s) = disconnect_client_g ci s"
  by (simp add: disconnect_client_g_def Let_def g_here_def g_put_def g_upd_def g_log_def)

lemma gone_disconnect: "g_here ci s \<Longrightarrow> \<not> g_here ci (disconnect_client_g ci s)"
  by (simp add: disconnect_client_g_def Let_def g_here_def zero_group_client_def)

section \<open>The handlers\<close>

lemma g_put_upd:
  assumes "ci < length (gs_clients s)" "\<And>c :: group_client. f (c\<lparr>g_input := x\<rparr>) = (f c)\<lparr>g_input := x\<rparr>"
  shows "g_upd ci f (g_put ci x s) = g_put ci x (g_upd ci f s)"
  using assms by (simp add: g_put_def g_upd_def)

lemma put_login_g:
  assumes h: "g_here ci s"
  shows "process_login_g ci l (g_put ci x s) = g_put ci x (process_login_g ci l s) \<and> g_here ci (process_login_g ci l s) \<and>
    g_input (gs_clients (process_login_g ci l s) ! ci) = g_input (gs_clients s ! ci)"
proof -
  have ci: "ci < length (gs_clients s)" using h by (simp add: g_here_def)
  let ?f = "\<lambda>c. c\<lparr>g_username := take (USERNAME_SIZE_g - 1) (cut_cr l), g_logged_in := True\<rparr>"
  have u: "g_upd ci ?f (g_put ci x s) = g_put ci x (g_upd ci ?f s)" by (rule g_put_upd [OF ci]) simp
  have hu: "g_here ci (g_upd ci ?f s)" using h by (simp add: g_here_def)
  show ?thesis
    using h ci hu u by (auto simp: process_login_g_def Let_def g_put_fields g_here_same)
qed

lemma put_message_g:
  assumes h: "g_here ci s" and p: "process_group_message ci l s = (r, t)"
  shows "process_group_message ci l (g_put ci x s) = (r, g_put_if ci x t)"
    "g_here ci t \<Longrightarrow> g_input (gs_clients t ! ci) = g_input (gs_clients s ! ci)" "r = 0 \<Longrightarrow> \<not> g_here ci t"
proof -
  have ci: "ci < length (gs_clients s)" using h by (simp add: g_here_def)
  consider (quit) "l = ''/quit''" | (other) "l \<noteq> ''/quit''" by blast
  then have all: "process_group_message ci l (g_put ci x s) = (r, g_put_if ci x t) \<and>
    (g_here ci t \<longrightarrow> g_input (gs_clients t ! ci) = g_input (gs_clients s ! ci)) \<and> (r = 0 \<longrightarrow> \<not> g_here ci t)"
  proof cases
    case quit
    then have "r = 0" "\<not> g_here ci t"
      using p h gone_disconnect by (auto simp: process_group_message_def Let_def g_here_same)
    with quit p h ci show ?thesis
      by (auto simp: process_group_message_def Let_def g_put_fields g_put_if_def put_disconnect_g g_here_same)
  next
    case other
    with p h ci show ?thesis
      by (auto simp: process_group_message_def Let_def g_put_fields g_put_if_def g_here_same split: if_splits)
  qed
  then show "process_group_message ci l (g_put ci x s) = (r, g_put_if ci x t)"
    "g_here ci t \<Longrightarrow> g_input (gs_clients t ! ci) = g_input (gs_clients s ! ci)" "r = 0 \<Longrightarrow> \<not> g_here ci t" by simp_all
qed

lemma put_line_g:
  assumes h: "g_here ci s" and p: "process_line_g ci l s = (r, t)"
  shows "process_line_g ci l (g_put ci x s) = (r, g_put_if ci x t)"
    "g_here ci t \<Longrightarrow> g_input (gs_clients t ! ci) = g_input (gs_clients s ! ci)" "r = 0 \<Longrightarrow> \<not> g_here ci t"
proof -
  have ci: "ci < length (gs_clients s)" using h by (simp add: g_here_def)
  have all: "process_line_g ci l (g_put ci x s) = (r, g_put_if ci x t) \<and>
    (g_here ci t \<longrightarrow> g_input (gs_clients t ! ci) = g_input (gs_clients s ! ci)) \<and> (r = 0 \<longrightarrow> \<not> g_here ci t)"
  proof (cases "g_logged_in (gs_clients s ! ci)")
    case False
    with p put_login_g [OF h, of "cut_cr l" x] ci show ?thesis
      by (auto simp: process_line_g_def Let_def g_put_fields g_put_if_def)
  next
    case True
    with p have "process_group_message ci (cut_cr l) s = (r, t)" by (simp add: process_line_g_def)
    from put_message_g(1) [OF h this, of x] put_message_g(2,3) [OF h this] True ci show ?thesis by (simp add: process_line_g_def g_put_fields)
  qed
  then show "process_line_g ci l (g_put ci x s) = (r, g_put_if ci x t)"
    "g_here ci t \<Longrightarrow> g_input (gs_clients t ! ci) = g_input (gs_clients s ! ci)" "r = 0 \<Longrightarrow> \<not> g_here ci t" by simp_all
qed

section \<open>The contract\<close>

definition run_lines_g :: "nat \<Rightarrow> group_server \<Rightarrow> group_server" where
  "run_lines_g ci s = (if g_here ci s then process_lines_g ci s else s)"

lemma run_lines_g_unfold:
  assumes h: "g_here ci s"
  shows "run_lines_g ci s =
      (if NL \<notin> set (g_input (gs_clients s ! ci)) then s
       else case process_line_g ci (cstr (first_line (g_input (gs_clients s ! ci))))
              (g_put ci (after_line (g_input (gs_clients s ! ci))) s) of (r, t) \<Rightarrow>
         if r = 0 then t else run_lines_g ci t)"
proof -
  have d: "drop_line_g ci s = g_put ci (after_line (g_input (gs_clients s ! ci))) s"
    by (simp add: drop_line_g_def g_put_def g_upd_def)
  have t: "process_lines_g ci t = run_lines_g ci t" for t
  proof (cases "g_here ci t")
    case False
    moreover have "ci < MAX_CLIENTS_g" using h by (simp add: g_here_def)
    ultimately have "\<not> (ci < length (gs_clients t) \<and> g_active (gs_clients t ! ci))" by (simp add: g_here_def)
    with False show ?thesis unfolding run_lines_g_def by (subst process_lines_g.simps) simp
  qed (simp add: run_lines_g_def)
  show ?thesis
    using h unfolding run_lines_g_def [of ci s] process_lines_g.simps [of ci s] d
    by (auto simp: g_here_def t split: prod.splits)
qed

interpretation group: line_server "g_here ci" "\<lambda>s. g_input (gs_clients s ! ci)" "g_put ci" "process_line_g ci" "run_lines_g ci"
  for ci
proof unfold_locales
  show "g_here ci s \<Longrightarrow> g_input (gs_clients (g_put ci x s) ! ci) = x" for s x by (simp add: g_put_def g_here_def)
  show "g_put ci y (g_put ci x s) = g_put ci y s" for s x y
    by (cases "ci < length (gs_clients s)") (simp_all add: g_put_def g_upd_def list_update_beyond)
  show "g_here ci s \<Longrightarrow> process_line_g ci l s = (r, t) \<Longrightarrow>
      process_line_g ci l (g_put ci x s) = (r, if g_here ci t then g_put ci x t else t)" for s l r t x
    by (simp add: put_line_g g_put_if_def)
qed (auto simp: run_lines_g_unfold dest: put_line_g(2,3), simp_all add: run_lines_g_def)

section \<open>Receiving in pieces\<close>

lemma handle_bytes_g:
  assumes "find_client_by_fd_g (gs_clients s) fd = Some ci" "ci < MAX_CLIENTS_g" "bs \<noteq> []"
    "length (g_input (gs_clients s ! ci)) + length bs < 4096"
  shows "handle_recv_g fd bs s = run_lines_g ci (g_put ci (g_input (gs_clients s ! ci) @ bs) s)"
proof -
  have h: "g_here ci s" using assms(1,2) unfolding find_client_by_fd_g_def g_here_def by (auto dest: first_index_SomeD)
  have "g_upd ci (\<lambda>c. c\<lparr>g_input := g_input c @ bs\<rparr>) s = g_put ci (g_input (gs_clients s ! ci) @ bs) s"
    by (simp add: g_put_def g_upd_def)
  with assms h show ?thesis by (simp add: handle_recv_g_def Let_def BUFFER_SIZE_g_def run_lines_g_def)
qed

text \<open>No line moves a connection to another slot.\<close>

definition g_kept :: "group_server \<Rightarrow> group_server \<Rightarrow> bool" where
  "g_kept s t \<longleftrightarrow> length (gs_clients t) = length (gs_clients s) \<and>
     (\<forall>j < length (gs_clients s). g_active (gs_clients t ! j) \<longrightarrow>
        g_active (gs_clients s ! j) \<and> g_fd (gs_clients t ! j) = g_fd (gs_clients s ! j))"

lemma g_kept_trans: "g_kept s t \<Longrightarrow> g_kept t u \<Longrightarrow> g_kept s u"
  by (simp add: g_kept_def)

lemma g_kept_same: "gs_clients t = gs_clients s \<Longrightarrow> g_kept s t"
  by (simp add: g_kept_def)

lemma g_kept_upd: "(\<And>c. g_active (f c) \<Longrightarrow> g_active c \<and> g_fd (f c) = g_fd c) \<Longrightarrow> g_kept s (g_upd ci f s)"
  by (cases "ci < length (gs_clients s)") (auto simp: g_kept_def g_upd_def nth_list_update list_update_beyond split: if_splits)

lemma g_kept_disconnect: "g_kept s (disconnect_client_g ci s)"
proof -
  have "g_kept s (g_log as s)" "g_kept t (g_upd ci (\<lambda>c. zero_group_client\<lparr>g_fd := -1\<rparr>) t)" for as t
    by (rule g_kept_same, simp) (rule g_kept_upd, simp add: zero_group_client_def)
  then show ?thesis by (auto simp: disconnect_client_g_def Let_def intro: g_kept_trans g_kept_same)
qed

lemma g_kept_login: "g_kept s (process_login_g ci l s)"
proof -
  let ?f = "\<lambda>c. c\<lparr>g_username := take (USERNAME_SIZE_g - 1) (cut_cr l), g_logged_in := True\<rparr>"
  have "g_kept s (g_upd ci ?f s)" by (rule g_kept_upd) simp
  moreover have "gs_clients (process_login_g ci l s) \<in> {gs_clients s, gs_clients (g_upd ci ?f s)}"
    by (simp add: process_login_g_def Let_def)
  ultimately show ?thesis by (auto intro: g_kept_same g_kept_trans)
qed

lemma g_kept_line: "g_kept s (snd (process_line_g ci l s))"
proof -
  have "g_kept s (snd (process_group_message ci m s))" for m
    by (simp add: process_group_message_def Let_def g_kept_same) (intro impI g_kept_trans [OF _ g_kept_disconnect] g_kept_same, simp)
  then show ?thesis by (simp add: process_line_g_def Let_def g_kept_login)
qed

lemma g_kept_lines: "g_kept s (process_lines_g ci s)"
proof (induction ci s rule: process_lines_g.induct)
  case (1 ci s)
  let ?l = "cstr (first_line (g_input (gs_clients s ! ci)))"
  obtain r t where p: "process_line_g ci ?l (drop_line_g ci s) = (r, t)" by fastforce
  have "g_kept s (drop_line_g ci s)" unfolding drop_line_g_def by (rule g_kept_upd) simp
  moreover have "g_kept (drop_line_g ci s) t" using g_kept_line [of "drop_line_g ci s" ci ?l] p by simp
  ultimately have k: "g_kept s t" by (rule g_kept_trans)
  have "g_kept t (process_lines_g ci t)"
    if "ci < length (gs_clients s) \<and> g_active (gs_clients s ! ci)" "NL \<in> set (g_input (gs_clients s ! ci))" "r \<noteq> 0"
    using 1 [OF _ _ p [symmetric]] that by simp
  with k p show ?case
    by (subst process_lines_g.simps) (auto intro: g_kept_trans simp: g_kept_same)
qed

lemma find_kept:
  assumes ok: "group_ok s" and ci: "ci < 100" "g_active (gs_clients s ! ci)" and k: "g_kept s t"
  shows "find_client_by_fd_g (gs_clients t) (g_fd (gs_clients s ! ci)) = (if g_here ci t then Some ci else None)"
proof -
  let ?fd = "g_fd (gs_clients s ! ci)"
  have len: "length (gs_clients t) = 100" "length (gs_clients s) = 100" using k group_okD(1) [OF ok] by (simp_all add: g_kept_def)
  have own: "j = ci" if "j < 100" "g_active (gs_clients t ! j)" "g_fd (gs_clients t ! j) = ?fd" for j
    using k that group_okD(2) [OF ok that(1) ci(1)] ci(2) len by (simp add: g_kept_def)
  show ?thesis
  proof (cases "g_here ci t")
    case True
    then have "g_fd (gs_clients t ! ci) = ?fd" using k ci(1) len by (simp add: g_kept_def g_here_def)
    then have "find_client_by_fd_g (gs_clients t) ?fd = Some ci"
      unfolding find_client_by_fd_g_def by (intro first_index_unique) (use True own len in \<open>auto simp: g_here_def\<close>)
    with True show ?thesis by simp
  next
    case False
    then have "\<not> (g_active c \<and> g_fd c = ?fd)" if "c \<in> set (gs_clients t)" for c
      using that own len ci(1) by (auto simp: in_set_conv_nth g_here_def MAX_CLIENTS_g_def)
    with False show ?thesis by (simp add: find_client_by_fd_g_def first_index_None_iff)
  qed
qed

text \<open>
  Claim C35: to the group chat TCP is a byte stream. Receiving \<open>a\<close> and then \<open>b\<close> from a client
  leaves the server (slots, names, unfinished lines and everything sent to anybody) exactly as
  receiving both at once, also when a line in \<open>a\<close> was \<open>/quit\<close>, as long as the input buffer does
  not overflow.
\<close>
theorem group_chunks:
  assumes ok: "group_ok s" and R: "room_of s fd = Some (nm, p)"
    and ab: "a \<noteq> []" "b \<noteq> []" "length p + length a + length b < 4096"
  shows "group_step (G_recv fd (a @ b)) s = group_step (G_recv fd b) (group_step (G_recv fd a) s)"
proof -
  obtain ci where f: "find_client_by_fd_g (gs_clients s) fd = Some ci" and ci: "ci < 100" "g_active (gs_clients s ! ci)"
    and fd: "g_fd (gs_clients s ! ci) = fd" and p: "g_input (gs_clients s ! ci) = p"
    using R ok by (auto elim!: room_Some simp: client_view_def)
  have M: "ci < MAX_CLIENTS_g" using ci by (simp add: MAX_CLIENTS_g_def)
  define s1 where "s1 = g_put ci (p @ a) s"
  define t where "t = run_lines_g ci s1"
  have h1: "g_here ci s1" using ci M group_okD(1) [OF ok] by (simp add: s1_def g_here_def del: g_put_simps(1)) (simp add: g_put_def)
  then have in1: "g_input (gs_clients s1 ! ci) = p @ a" by (simp add: s1_def group.input_set)
  have l: "handle_recv_g fd (a @ b) s = run_lines_g ci (g_put ci (p @ a @ b) s)"
    using handle_bytes_g [OF f M, of "a @ b"] ab p by simp
  have m: "handle_recv_g fd a s = t" using handle_bytes_g [OF f M, of a] ab p by (simp add: t_def s1_def)
  have "group.feed ci b s1 = g_put ci (p @ a @ b) s" unfolding group.feed_def in1 by (simp add: s1_def group.set_set)
  with group.run_feed [OF h1, of b] have all: "run_lines_g ci (g_put ci (p @ a @ b) s) =
      (if g_here ci t then run_lines_g ci (group.feed ci b t) else t)" by (simp add: t_def)
  have "g_kept s s1" unfolding s1_def g_put_def by (rule g_kept_upd) simp
  then have "g_kept s t" using h1 g_kept_lines by (simp add: t_def run_lines_g_def g_kept_trans)
  then have ft: "find_client_by_fd_g (gs_clients t) fd = (if g_here ci t then Some ci else None)"
    using find_kept [OF ok ci] fd by simp
  show ?thesis
  proof (cases "g_here ci t")
    case True
    have "length (g_input (gs_clients t ! ci)) + length b < 4096"
      using group.run_input [OF h1] True ab(3) in1 by (simp add: t_def)
    with handle_bytes_g [OF _ M ab(2), of t fd] ft True l m all show ?thesis by (simp add: group.feed_def)
  next
    case False
    with ft l m all show ?thesis by (simp add: handle_recv_g_def)
  qed
qed

theorem group_chunks_witness:
  "\<exists>s. group_setup 3 0 0 4 0 = Inr s \<and> (let s1 = group_run [G_accept 5 True, G_accept 6 True] s in
     group_step (G_recv 5 (''al'' @ ''i'' @ [NL])) s1 = group_step (G_recv 5 (''i'' @ [NL])) (group_step (G_recv 5 ''al'') s1))"
proof -
  obtain s where s: "group_setup 3 0 0 4 0 = Inr s" by (simp add: group_setup_def Let_def)
  have r: "room_run [G_accept 5 True, G_accept 6 True] Map.empty 5 = Some (None, [])" by (simp add: room_run_def)
  note k = room_of_run [OF start_ok(1) [OF s], of "[G_accept 5 True, G_accept 6 True]", unfolded start_ok(2) [OF s]]
  from group_chunks [of "group_run [G_accept 5 True, G_accept 6 True] s" 5 None "[]" "''al''" "''i'' @ [NL]"]
    k r s show ?thesis by (simp del: group_step.simps)
qed

end
