(* ===== verification/Sockets.thy ===== *)
theory Sockets
  imports Posix
begin

text \<open>
  What the small socket programs share: a log of what a program does to its descriptors and of
  the bytes it moves, and the account of descriptors. \<open>fds\<close> runs a log on the sets of open and of
  epoll-watched descriptors and fails at the first call on a descriptor that is not there:
  a double close, a transfer after a close, a descriptor registered twice. Closing a descriptor
  takes it out of the epoll set.
\<close>

datatype sock_act =
    K_open int
  | K_close int
  | K_watch int
  | K_unwatch int
  | K_recv int "u8 list"
  | K_send int "u8 list"          \<comment> \<open>the bytes the kernel took\<close>
  | K_print "u8 list"

fun fd_act :: "sock_act \<Rightarrow> int set \<times> int set \<Rightarrow> (int set \<times> int set) option" where
  "fd_act (K_open fd) (F, W) = (if fd \<notin> F then Some (insert fd F, W) else None)"
| "fd_act (K_close fd) (F, W) = (if fd \<in> F then Some (F - {fd}, W - {fd}) else None)"
| "fd_act (K_watch fd) (F, W) = (if fd \<in> F \<and> fd \<notin> W then Some (F, insert fd W) else None)"
| "fd_act (K_unwatch fd) (F, W) = (if fd \<in> W then Some (F, W - {fd}) else None)"
| "fd_act (K_recv fd bs) (F, W) = (if fd \<in> F then Some (F, W) else None)"
| "fd_act (K_send fd bs) (F, W) = (if fd \<in> F then Some (F, W) else None)"
| "fd_act (K_print bs) FW = Some FW"

fun fds :: "int set \<times> int set \<Rightarrow> sock_act list \<Rightarrow> (int set \<times> int set) option" where
  "fds FW [] = Some FW"
| "fds FW (a # as) = (case fd_act a FW of None \<Rightarrow> None | Some FW' \<Rightarrow> fds FW' as)"

lemma fds_append: "fds FW (as @ bs) = (case fds FW as of None \<Rightarrow> None | Some FW' \<Rightarrow> fds FW' bs)"
  by (induction as arbitrary: FW) (simp_all split: option.splits)

lemma fds_then: "fds A as = Some B \<Longrightarrow> fds B bs = C \<Longrightarrow> fds A (as @ bs) = C"
  by (simp add: fds_append)

text \<open>The bytes a log moved on one descriptor, call by call.\<close>

definition recvs :: "int \<Rightarrow> sock_act list \<Rightarrow> u8 list list" where
  "recvs fd as = concat (map (\<lambda>a. case a of K_recv f bs \<Rightarrow> if f = fd then [bs] else [] | _ \<Rightarrow> []) as)"

definition sends :: "int \<Rightarrow> sock_act list \<Rightarrow> u8 list list" where
  "sends fd as = concat (map (\<lambda>a. case a of K_send f bs \<Rightarrow> if f = fd then [bs] else [] | _ \<Rightarrow> []) as)"

definition printed :: "sock_act list \<Rightarrow> u8 list" where
  "printed as = concat (map (\<lambda>a. case a of K_print bs \<Rightarrow> bs | _ \<Rightarrow> []) as)"

lemma moved_append [simp]:
  "recvs fd (as @ bs) = recvs fd as @ recvs fd bs" "sends fd (as @ bs) = sends fd as @ sends fd bs"
  "printed (as @ bs) = printed as @ printed bs"
  by (simp_all add: recvs_def sends_def printed_def)

lemma moved_simps [simp]:
  "recvs fd [] = []" "sends fd [] = []" "printed [] = []"
  "recvs fd (K_recv f bs # as) = (if f = fd then bs # recvs fd as else recvs fd as)"
  "sends fd (K_send f bs # as) = (if f = fd then bs # sends fd as else sends fd as)"
  "printed (K_print bs # as) = bs @ printed as"
  "recvs fd (K_send f bs # as) = recvs fd as" "recvs fd (K_open f # as) = recvs fd as"
  "recvs fd (K_close f # as) = recvs fd as" "recvs fd (K_watch f # as) = recvs fd as"
  "recvs fd (K_unwatch f # as) = recvs fd as" "recvs fd (K_print bs # as) = recvs fd as"
  "sends fd (K_recv f bs # as) = sends fd as" "sends fd (K_open f # as) = sends fd as"
  "sends fd (K_close f # as) = sends fd as" "sends fd (K_watch f # as) = sends fd as"
  "sends fd (K_unwatch f # as) = sends fd as" "sends fd (K_print bs # as) = sends fd as"
  "printed (K_recv f bs # as) = printed as" "printed (K_send f bs # as) = printed as" "printed (K_open f # as) = printed as"
  "printed (K_close f # as) = printed as" "printed (K_watch f # as) = printed as" "printed (K_unwatch f # as) = printed as"
  by (simp_all add: recvs_def sends_def printed_def)

text \<open>
  What the kernel documents of a receive into a buffer of \<open>n\<close> bytes: a datagram is cut to the
  buffer and its rest discarded; a stream gives what is there, here \<open>k\<close> bytes of its queue \<open>q\<close>, up
  to the size asked for.
\<close>

definition datagram :: "u8 list \<Rightarrow> nat \<Rightarrow> recv_ans" where
  "datagram d n = Recv (take n d)"

definition stream_of :: "nat \<Rightarrow> u8 list \<Rightarrow> nat \<Rightarrow> recv_ans" where
  "stream_of k q n = Recv (take (min k n) q)"

text \<open>The bytes of a C string constant, and what \<open>printf("%s")\<close> shows of a buffer.\<close>

definition bytes_of :: "string \<Rightarrow> u8 list" where
  "bytes_of s = map of_char s"

definition until_nul :: "u8 list \<Rightarrow> u8 list" where
  "until_nul bs = takeWhile (\<lambda>b. b \<noteq> 0) bs"

end
