(* ===== verification/Echo_Server.thy ===== *)
theory Echo_Server
  imports Sockets "HOL-Library.Sublist"
begin

text \<open>
  The epoll echo server \<open>epoll_server/epoll_server.c\<close>: its start, the accept loop on the
  non-blocking listening socket, and the handling of a client's event. Its state is which
  descriptors are open and watched, which is what the log says.
\<close>

section \<open>Start\<close>

text \<open>\<open>fcntl\<close> answers \<open>-1\<close> on failure, the flags on \<open>F_GETFL\<close>.\<close>

definition set_nonblocking_e :: "int \<Rightarrow> int \<Rightarrow> int" where
  "set_nonblocking_e getfl setfl = (if getfl = -1 then -1 else if setfl = -1 then -1 else 0)"

record echo_env =
  ee_socket :: int
  ee_setsockopt :: int
  ee_bind :: int
  ee_listen :: int
  ee_getfl :: int
  ee_setfl :: int
  ee_epoll :: int
  ee_add :: int

text \<open>\<open>Some status\<close> is an early return of \<open>main\<close>; with \<open>None\<close> the loop is entered.\<close>

definition echo_setup :: "echo_env \<Rightarrow> int option \<times> sock_act list" where
  "echo_setup e =
     (let lfd = ee_socket e; ep = ee_epoll e in
      if lfd < 0 then (Some 1, [])
      else if ee_setsockopt e < 0 then (Some 1, [K_open lfd, K_close lfd])
      else if ee_bind e < 0 then (Some 1, [K_open lfd, K_close lfd])
      else if ee_listen e < 0 then (Some 1, [K_open lfd, K_close lfd])
      else if set_nonblocking_e (ee_getfl e) (ee_setfl e) < 0 then (Some 1, [K_open lfd, K_close lfd])
      else if ep < 0 then (Some 1, [K_open lfd, K_close lfd])
      else if ee_add e < 0 then (Some 1, [K_open lfd, K_open ep, K_close ep, K_close lfd])
      else (None, [K_open lfd, K_open ep, K_watch lfd]))"

section \<open>Events\<close>

text \<open>
  The answers to one turn of the accept loop: the new descriptor with those of \<open>fcntl\<close> and
  \<open>epoll_ctl\<close>, or an error. \<open>accept\<close> does not block, so the answers end with an error; a list
  that does not is a loop that still runs (\<open>None\<close>).
\<close>

datatype accept_ans_e = Accepted int int int bool | Accept_err errno

fun accept_loop_e :: "accept_ans_e list \<Rightarrow> sock_act list option" where
  "accept_loop_e [] = None"
| "accept_loop_e (Accept_err e # ks) = Some []"
| "accept_loop_e (Accepted cfd getfl setfl add_ok # ks) =
     map_option (\<lambda>as.
       if set_nonblocking_e getfl setfl < 0 then K_open cfd # K_close cfd # as
       else if \<not> add_ok then K_open cfd # K_close cfd # as
       else K_open cfd # K_watch cfd # as) (accept_loop_e ks)"

definition drop_client_e :: "int \<Rightarrow> sock_act list" where
  "drop_client_e fd = [K_unwatch fd, K_close fd]"

definition client_event_e :: "u32 \<Rightarrow> recv_ans \<Rightarrow> (u8 list \<Rightarrow> send_ans) \<Rightarrow> int \<Rightarrow> sock_act list" where
  "client_event_e evs rd wr fd =
     (if has evs (EPOLLRDHUP OR EPOLLHUP OR EPOLLERR) then drop_client_e fd
      else case rd of
        Recv_err e \<Rightarrow> if e \<noteq> EAGAIN \<and> e \<noteq> EWOULDBLOCK then drop_client_e fd else []
      | Recv buf \<Rightarrow>
          if buf = [] then drop_client_e fd
          else K_recv fd buf #
            (case wr buf of
               Sent n \<Rightarrow> [K_send fd (take n buf)]
             | Send_err e \<Rightarrow> K_send fd [] # (if e \<noteq> EAGAIN \<and> e \<noteq> EWOULDBLOCK then drop_client_e fd else [])))"

datatype echo_event =
    Ev_listen "accept_ans_e list"
  | Ev_client int u32 recv_ans "u8 list \<Rightarrow> send_ans"

fun echo_step :: "echo_event \<Rightarrow> sock_act list option" where
  "echo_step (Ev_listen ks) = accept_loop_e ks"
| "echo_step (Ev_client fd evs rd wr) = Some (client_event_e evs rd wr fd)"

fun echo_run :: "echo_event list \<Rightarrow> sock_act list option" where
  "echo_run [] = Some []"
| "echo_run (ev # evs) = (case echo_step ev of None \<Rightarrow> None
     | Some as \<Rightarrow> map_option (\<lambda>bs. as @ bs) (echo_run evs))"

text \<open>After a failing \<open>epoll_wait\<close> (other than \<open>EINTR\<close>) \<open>main\<close> closes its own two descriptors.\<close>

definition echo_main :: "echo_env \<Rightarrow> echo_event list \<Rightarrow> (int \<times> sock_act list) option" where
  "echo_main e evs =
     (case echo_setup e of
        (Some status, as) \<Rightarrow> Some (status, as)
      | (None, as) \<Rightarrow>
          map_option (\<lambda>bs. (0, as @ bs @ [K_close (ee_epoll e), K_close (ee_socket e)])) (echo_run evs))"

section \<open>What the kernel promises\<close>

text \<open>
  \<open>accept\<close> gives descriptors that are not open and ends with an error; an event is reported for
  a watched client only. \<open>C\<close> is the set of connected clients, \<open>L\<close> the program's own descriptors.
\<close>

fun accepts_ok :: "int set \<Rightarrow> int set \<Rightarrow> accept_ans_e list \<Rightarrow> bool" where
  "accepts_ok L C [] \<longleftrightarrow> False"
| "accepts_ok L C (Accept_err e # ks) \<longleftrightarrow> ks = []"
| "accepts_ok L C (Accepted fd getfl setfl add_ok # ks) \<longleftrightarrow> fd \<notin> L \<union> C \<and>
     accepts_ok L (if set_nonblocking_e getfl setfl < 0 \<or> \<not> add_ok then C else insert fd C) ks"

definition clients_after :: "int set \<Rightarrow> int set \<Rightarrow> sock_act list \<Rightarrow> int set" where
  "clients_after L C as = (case fds (L \<union> C, C) as of None \<Rightarrow> {} | Some (F, W) \<Rightarrow> W)"

fun kernel_ok :: "int set \<Rightarrow> int set \<Rightarrow> echo_event list \<Rightarrow> bool" where
  "kernel_ok L C [] \<longleftrightarrow> True"
| "kernel_ok L C (ev # evs) \<longleftrightarrow>
     (case ev of Ev_listen ks \<Rightarrow> accepts_ok L C ks | Ev_client fd e rd wr \<Rightarrow> fd \<in> C) \<and>
     (case echo_step ev of None \<Rightarrow> False | Some as \<Rightarrow> kernel_ok L (clients_after L C as) evs)"

section \<open>Descriptors\<close>

text \<open>\<open>L\<close> are the program's own descriptors, \<open>V\<close> those of them it watches.\<close>

definition moves_clients :: "int set \<Rightarrow> int set \<Rightarrow> sock_act list \<Rightarrow> int set \<Rightarrow> bool" where
  "moves_clients L C as D \<longleftrightarrow> L \<inter> D = {} \<and> (\<forall>V \<subseteq> L. fds (L \<union> C, V \<union> C) as = Some (L \<union> D, V \<union> D))"

lemma clients_after_eq: "moves_clients L C as D \<Longrightarrow> clients_after L C as = D"
  using Un_empty_left [of C] by (auto simp: moves_clients_def clients_after_def dest: spec [of _ "{}"])

lemma moves_clients_Nil: "L \<inter> C = {} \<Longrightarrow> moves_clients L C [] C"
  by (simp add: moves_clients_def)

lemma accept_loop_clients:
  "accepts_ok L C ks \<Longrightarrow> L \<inter> C = {} \<Longrightarrow> \<exists>as D. accept_loop_e ks = Some as \<and> moves_clients L C as D"
proof (induction L C ks rule: accepts_ok.induct)
  case (2 L C e ks)
  then show ?case using moves_clients_Nil by auto
next
  case (3 L C fd getfl setfl add_ok ks)
  define bad where "bad \<longleftrightarrow> set_nonblocking_e getfl setfl < 0 \<or> \<not> add_ok"
  let ?C = "if bad then C else insert fd C"
  have fd: "fd \<notin> L" "fd \<notin> C" and ok: "accepts_ok L ?C ks" using 3(2) by (simp_all add: bad_def)
  then have "L \<inter> ?C = {}" using 3(3) by simp
  with 3(1) ok obtain as D where r: "accept_loop_e ks = Some as" "moves_clients L ?C as D"
    unfolding bad_def by blast
  have rem: "insert fd (L \<union> C) - {fd} = L \<union> C" "fd \<notin> V \<Longrightarrow> V \<union> C - {fd} = V \<union> C" for V using fd by blast+
  show ?case
  proof (cases bad)
    case True
    then have "accept_loop_e (Accepted fd getfl setfl add_ok # ks) = Some (K_open fd # K_close fd # as)"
      using r(1) by (simp add: bad_def) blast
    moreover have "moves_clients L C (K_open fd # K_close fd # as) D"
      unfolding moves_clients_def
    proof (intro conjI allI impI)
      fix V assume V: "V \<subseteq> L"
      then have "fd \<notin> V" using fd by blast
      with V r(2) True fd rem show "fds (L \<union> C, V \<union> C) (K_open fd # K_close fd # as) = Some (L \<union> D, V \<union> D)"
        by (simp add: moves_clients_def)
    qed (use r(2) in \<open>simp add: moves_clients_def\<close>)
    ultimately show ?thesis by blast
  next
    case False
    then have "accept_loop_e (Accepted fd getfl setfl add_ok # ks) = Some (K_open fd # K_watch fd # as)"
      using r(1) by (simp add: bad_def)
    moreover have "moves_clients L C (K_open fd # K_watch fd # as) D"
      unfolding moves_clients_def
    proof (intro conjI allI impI)
      fix V assume V: "V \<subseteq> L"
      then have "fd \<notin> V" using fd by blast
      with V r(2) False fd show "fds (L \<union> C, V \<union> C) (K_open fd # K_watch fd # as) = Some (L \<union> D, V \<union> D)"
        by (simp add: moves_clients_def)
    qed (use r(2) in \<open>simp add: moves_clients_def\<close>)
    ultimately show ?thesis by blast
  qed
qed simp

lemma client_event_clients:
  assumes "fd \<in> C" "L \<inter> C = {}"
  shows "\<exists>D. moves_clients L C (client_event_e evs rd wr fd) D"
proof -
  have k: "moves_clients L C [] C" using assms by (simp add: moves_clients_def)
  have x: "L \<union> C - {fd} = L \<union> (C - {fd})" "V \<subseteq> L \<Longrightarrow> V \<union> C - {fd} = V \<union> (C - {fd})" for V using assms by auto
  have d: "moves_clients L C (drop_client_e fd) (C - {fd})"
    using assms x by (auto simp: moves_clients_def drop_client_e_def)
  have rs: "moves_clients L C (K_recv fd bs # as) D = moves_clients L C as D"
    "moves_clients L C (K_send fd bs # as) D = moves_clients L C as D" for bs as D
    using assms(1) by (simp_all add: moves_clients_def)
  show ?thesis
    using k d by (auto simp: client_event_e_def rs split: recv_ans.split send_ans.split)
qed

lemma echo_run_clients:
  "kernel_ok L C evs \<Longrightarrow> L \<inter> C = {} \<Longrightarrow> \<exists>as D. echo_run evs = Some as \<and> moves_clients L C as D"
proof (induction evs arbitrary: C)
  case Nil
  then show ?case using moves_clients_Nil by auto
next
  case (Cons ev evs)
  obtain as D where e: "echo_step ev = Some as" "moves_clients L C as D"
  proof (cases ev)
    case (Ev_listen ks)
    with Cons.prems have "accepts_ok L C ks" by simp
    from accept_loop_clients [OF this Cons.prems(2)] Ev_listen that show thesis by auto
  next
    case (Ev_client fd flags rd wr)
    with Cons.prems have "fd \<in> C" by simp
    from client_event_clients [OF this Cons.prems(2)] Ev_client that show thesis by fastforce
  qed
  have "kernel_ok L D evs" using Cons.prems(1) e(1) clients_after_eq [OF e(2)] by simp
  moreover have "L \<inter> D = {}" using e(2) by (simp add: moves_clients_def)
  ultimately obtain bs E where r: "echo_run evs = Some bs" "moves_clients L D bs E" using Cons.IH by blast
  then have "moves_clients L C (as @ bs) E" using e(2) by (simp add: moves_clients_def fds_append)
  with e r show ?case by auto
qed

section \<open>The echo\<close>

lemma accept_moves_nothing: "accept_loop_e ks = Some as \<Longrightarrow> recvs fd as = [] \<and> sends fd as = []"
  by (induction ks arbitrary: as rule: accept_loop_e.induct) (auto split: if_splits)

lemma drop_moves_nothing [simp]: "recvs fd (drop_client_e f) = []" "sends fd (drop_client_e f) = []"
  by (simp_all add: drop_client_e_def)

lemma client_event_echo:
  "list_all2 prefix (sends fd (client_event_e evs rd wr f)) (recvs fd (client_event_e evs rd wr f))"
  by (auto simp: client_event_e_def take_is_prefix split: recv_ans.split send_ans.split)

lemma client_event_full:
  "(\<And>bs. wr bs = Sent (length bs)) \<Longrightarrow> sends fd (client_event_e evs rd wr f) = recvs fd (client_event_e evs rd wr f)"
  by (auto simp: client_event_e_def split: recv_ans.split)

fun full_writes :: "echo_event \<Rightarrow> bool" where
  "full_writes (Ev_listen ks) \<longleftrightarrow> True"
| "full_writes (Ev_client fd evs rd wr) \<longleftrightarrow> (\<forall>bs. wr bs = Sent (length bs))"

lemma echo_run_echo:
  "echo_run evs = Some as \<Longrightarrow> list_all2 prefix (sends fd as) (recvs fd as) \<and>
     (list_all full_writes evs \<longrightarrow> sends fd as = recvs fd as)"
proof (induction evs arbitrary: as)
  case (Cons ev evs)
  then obtain a b where s: "echo_step ev = Some a" "echo_run evs = Some b" "as = a @ b" by (auto split: option.splits)
  have "list_all2 prefix (sends fd a) (recvs fd a) \<and> (full_writes ev \<longrightarrow> sends fd a = recvs fd a)"
    using s(1) accept_moves_nothing [of _ a fd] client_event_echo client_event_full by (cases ev) auto
  with Cons.IH [OF s(2)] s(3) show ?case by (auto intro: list_all2_appendI)
qed simp

text \<open>
  A client that sends and at once ends its writing side is reported with both bits set, and is
  closed with what it sent unread: nothing is echoed.
\<close>

lemma half_close_unread:
  "client_event_e (EPOLLIN OR EPOLLRDHUP) rd wr fd = drop_client_e fd"
  by (simp add: client_event_e_def has_def epoll_bits)

section \<open>The claim\<close>

text \<open>
  Claim C36: the epoll echo server. Over every sequence of accepts and client events the kernel
  can report, whatever it answers to each call, the server leaks no connection and uses none
  after its end: at each return to \<open>epoll_wait\<close> the open descriptors are its own two and the
  connected clients, all clients watched, none closed twice; leaving the loop closes its own.
  What it sends a client is, receive by receive, a prefix of what the client sent, and all
  of it if the kernel takes every write whole.
\<close>
theorem echo_server_correct:
  assumes "echo_setup e = (None, start)" "ee_socket e \<noteq> ee_epoll e" "kernel_ok {ee_socket e, ee_epoll e} {} evs"
  shows "\<exists>as C. echo_run evs = Some as \<and>
     fds ({}, {}) (start @ as) = Some ({ee_socket e, ee_epoll e} \<union> C, {ee_socket e} \<union> C) \<and>
     {ee_socket e, ee_epoll e} \<inter> C = {} \<and>
     (\<exists>log. echo_main e evs = Some (0, log) \<and> fds ({}, {}) log = Some (C, C)) \<and>
     (\<forall>fd. list_all2 prefix (sends fd as) (recvs fd as) \<and> (list_all full_writes evs \<longrightarrow> sends fd as = recvs fd as))"
proof -
  let ?l = "ee_socket e" and ?p = "ee_epoll e"
  obtain as C where r: "echo_run evs = Some as" "moves_clients {?l, ?p} {} as C"
    using echo_run_clients [OF assms(3)] by auto
  have st: "start = [K_open ?l, K_open ?p, K_watch ?l]" using assms(1) by (simp add: echo_setup_def Let_def split: if_splits)
  have dis: "{?l, ?p} \<inter> C = {}" using r(2) by (simp add: moves_clients_def)
  have "fds ({?l, ?p}, {?l}) as = Some ({?l, ?p} \<union> C, {?l} \<union> C)"
    using r(2) unfolding moves_clients_def by (metis Un_empty_right empty_subsetI insert_mono)
  then have run: "fds ({}, {}) (start @ as) = Some ({?l, ?p} \<union> C, {?l} \<union> C)"
    using assms(2) by (simp add: st insert_commute)
  have "fds ({?l, ?p} \<union> C, {?l} \<union> C) [K_close ?p, K_close ?l] = Some (C, C)"
    using dis assms(2) by auto
  with fds_then [OF run] have "fds ({}, {}) (start @ as @ [K_close ?p, K_close ?l]) = Some (C, C)" by simp
  moreover have "echo_main e evs = Some (0, start @ as @ [K_close ?p, K_close ?l])"
    using assms(1) r(1) by (simp add: echo_main_def)
  ultimately show ?thesis using r(1) run dis echo_run_echo [OF r(1)] by blast
qed

theorem echo_server_correct_witness:
  "\<exists>as. echo_run [Ev_listen [Accepted 7 2 0 True, Accept_err EAGAIN], Ev_client 7 EPOLLIN (Recv [104, 105]) (\<lambda>bs. Sent (length bs)),
     Ev_client 7 (EPOLLIN OR EPOLLRDHUP) (Recv [1]) (\<lambda>bs. Sent (length bs))] = Some as \<and> sends 7 as = recvs 7 as \<and> recvs 7 as = [[104, 105]]"
proof -
  define e where "e = \<lparr>ee_socket = 3, ee_setsockopt = 0, ee_bind = 0, ee_listen = 0, ee_getfl = 2, ee_setfl = 0, ee_epoll = 4, ee_add = 0\<rparr>"
  define evs where "evs = [Ev_listen [Accepted 7 2 0 True, Accept_err EAGAIN], Ev_client 7 EPOLLIN (Recv [104, 105]) (\<lambda>bs. Sent (length bs)),
     Ev_client 7 (EPOLLIN OR EPOLLRDHUP) (Recv [1]) (\<lambda>bs. Sent (length bs))]"
  have h: "has EPOLLIN (EPOLLRDHUP OR EPOLLHUP OR EPOLLERR) = False"
    "has (EPOLLIN OR EPOLLRDHUP) (EPOLLRDHUP OR EPOLLHUP OR EPOLLERR) = True"
    by (simp_all add: has_def epoll_bits)
  have s: "echo_setup e = (None, [K_open 3, K_open 4, K_watch 3])" "ee_socket e = 3" "ee_epoll e = 4"
    by (simp_all add: e_def echo_setup_def set_nonblocking_e_def)
  have k: "kernel_ok {3, 4} {} evs"
    by (simp add: evs_def set_nonblocking_e_def clients_after_def client_event_e_def h)
  have f: "list_all full_writes evs" by (simp add: evs_def)
  obtain as where r: "echo_run evs = Some as" "sends 7 as = recvs 7 as"
    using echo_server_correct [OF s(1), of evs] s(2,3) k f by auto
  moreover have "recvs 7 as = [[104, 105]]"
    using r(1) by (auto simp: evs_def client_event_e_def h set_nonblocking_e_def)
  ultimately show ?thesis by (auto simp: evs_def)
qed

end
