(* ===== verification/Programs.thy ===== *)
theory Programs
  imports Sockets Chat_Data
begin

text \<open>
  The single-socket programs: \<open>tcp/\<close>, \<open>udp/\<close>, \<open>linux_nic_lab/userspace/\<close> and the chat client
  \<open>chat/client.c\<close>. Each is a function of the answers of the system calls, in the order of the
  calls, to its exit status and its log. The answer to a \<open>recv\<close>, a \<open>read\<close> or a \<open>recvfrom\<close> is a
  function of the size the program asks for. A printed buffer is what \<open>%s\<close> shows of it.
\<close>

text \<open>\<open>BUFFER_SIZE\<close> of \<open>tcp/\<close> and \<open>udp/\<close>; \<open>BUF_SIZE\<close> of the TCP and of the UDP programs of the lab.\<close>

definition BUFFER_SIZE :: nat where "BUFFER_SIZE = 1024"
definition TCP_BUF_SIZE :: nat where "TCP_BUF_SIZE = 4096"
definition UDP_BUF_SIZE :: nat where "UDP_BUF_SIZE = 1500"

section \<open>\<open>tcp/tcp_server.c\<close> and \<open>tcp/tcp_client.c\<close>\<close>

record tcp_server_env =
  ts_socket :: int
  ts_bind :: int
  ts_listen :: int
  ts_accept :: int
  ts_ntop :: bool
  ts_recv :: "nat \<Rightarrow> recv_ans"
  ts_send :: "u8 list \<Rightarrow> send_ans"

definition tcp_server_main :: "tcp_server_env \<Rightarrow> int \<times> sock_act list" where
  "tcp_server_main e =
     (let l = ts_socket e; c = ts_accept e; reply = bytes_of ''zdravo tcp client'' in
      if l < 0 then (1, [])
      else if ts_bind e < 0 then (1, [K_open l, K_close l])
      else if ts_listen e < 0 then (1, [K_open l, K_close l])
      else if c < 0 then (1, [K_open l, K_close l])
      else if \<not> ts_ntop e then (1, [K_open l, K_open c, K_close c, K_close l])
      else case ts_recv e (BUFFER_SIZE - 1) of
        Recv_err _ \<Rightarrow> (1, [K_open l, K_open c, K_close c, K_close l])
      | Recv buf \<Rightarrow>
          if buf = [] then (0, [K_open l, K_open c, K_close c, K_close l])
          else case ts_send e reply of
            Send_err _ \<Rightarrow> (1, [K_open l, K_open c, K_recv c buf, K_print (until_nul buf), K_close c, K_close l])
          | Sent n \<Rightarrow> (0, [K_open l, K_open c, K_recv c buf, K_print (until_nul buf), K_send c (take n reply),
                            K_close c, K_close l]))"

record tcp_client_env =
  tc_socket :: int
  tc_pton :: int
  tc_connect :: int
  tc_sockname :: int
  tc_ntop :: bool
  tc_send :: "u8 list \<Rightarrow> send_ans"
  tc_recv :: "nat \<Rightarrow> recv_ans"

definition tcp_client_main :: "tcp_client_env \<Rightarrow> int \<times> sock_act list" where
  "tcp_client_main e =
     (let s = tc_socket e; msg = bytes_of ''merhaba tcp server'' in
      if s < 0 then (1, [])
      else if tc_pton e \<noteq> 1 then (1, [K_open s, K_close s])
      else if tc_connect e < 0 then (1, [K_open s, K_close s])
      else if tc_sockname e < 0 then (1, [K_open s, K_close s])
      else if \<not> tc_ntop e then (1, [K_open s, K_close s])
      else case tc_send e msg of
        Send_err _ \<Rightarrow> (1, [K_open s, K_close s])
      | Sent n \<Rightarrow>
        (case tc_recv e (BUFFER_SIZE - 1) of
           Recv_err _ \<Rightarrow> (1, [K_open s, K_send s (take n msg), K_close s])
         | Recv buf \<Rightarrow>
             if buf = [] then (0, [K_open s, K_send s (take n msg), K_close s])
             else (0, [K_open s, K_send s (take n msg), K_recv s buf, K_print (until_nul buf), K_close s])))"

section \<open>\<open>udp/udp_server.c\<close> and \<open>udp/udp_client.c\<close>\<close>

record udp_server_env =
  us_socket :: int
  us_bind :: int
  us_recv :: "nat \<Rightarrow> recv_ans"
  us_ntop :: bool
  us_send :: "u8 list \<Rightarrow> send_ans"

definition udp_server_main :: "udp_server_env \<Rightarrow> int \<times> sock_act list" where
  "udp_server_main e =
     (let s = us_socket e; reply = bytes_of ''zdravo client'' in
      if s < 0 then (1, [])
      else if us_bind e < 0 then (1, [K_open s, K_close s])
      else case us_recv e (BUFFER_SIZE - 1) of
        Recv_err _ \<Rightarrow> (1, [K_open s, K_close s])
      | Recv buf \<Rightarrow>
          if \<not> us_ntop e then (1, [K_open s, K_recv s buf, K_close s])
          else case us_send e reply of
            Send_err _ \<Rightarrow> (1, [K_open s, K_recv s buf, K_print (until_nul buf), K_close s])
          | Sent n \<Rightarrow> (0, [K_open s, K_recv s buf, K_print (until_nul buf), K_send s (take n reply), K_close s]))"

text \<open>\<open>uc_poll\<close> is what \<open>poll\<close> returned, \<open>uc_in\<close> whether \<open>POLLIN\<close> is among the reported events.\<close>

record udp_client_env =
  uc_socket :: int
  uc_pton :: int
  uc_connect :: int
  uc_peername :: int
  uc_ntop_peer :: bool
  uc_sockname :: int
  uc_ntop_local :: bool
  uc_getfl :: int
  uc_setfl :: int
  uc_send :: "u8 list \<Rightarrow> send_ans"
  uc_poll :: int
  uc_in :: bool
  uc_recv :: "nat \<Rightarrow> recv_ans"

definition udp_client_main :: "udp_client_env \<Rightarrow> int \<times> sock_act list" where
  "udp_client_main e =
     (let s = uc_socket e; msg = bytes_of ''merhaba'' in
      if s < 0 then (1, [])
      else if uc_pton e \<noteq> 1 then (1, [K_open s, K_close s])
      else if uc_connect e < 0 then (1, [K_open s, K_close s])
      else if uc_peername e < 0 then (1, [K_open s, K_close s])
      else if \<not> uc_ntop_peer e then (1, [K_open s, K_close s])
      else if uc_sockname e < 0 then (1, [K_open s, K_close s])
      else if \<not> uc_ntop_local e then (1, [K_open s, K_close s])
      else if uc_getfl e < 0 then (1, [K_open s, K_close s])
      else if uc_setfl e < 0 then (1, [K_open s, K_close s])
      else case uc_send e msg of
        Send_err _ \<Rightarrow> (1, [K_open s, K_close s])
      | Sent n \<Rightarrow>
          if uc_poll e < 0 then (1, [K_open s, K_send s (take n msg), K_close s])
          else if uc_poll e = 0 then (1, [K_open s, K_send s (take n msg), K_close s])
          else if uc_in e then
            (case uc_recv e (BUFFER_SIZE - 1) of
               Recv_err _ \<Rightarrow> (1, [K_open s, K_send s (take n msg), K_close s])
             | Recv buf \<Rightarrow> (0, [K_open s, K_send s (take n msg), K_recv s buf, K_print (until_nul buf), K_close s]))
          else (0, [K_open s, K_send s (take n msg), K_close s]))"

section \<open>\<open>linux_nic_lab/userspace\<close>\<close>

text \<open>
  The echo of one connection of \<open>tcp_server.c\<close> over the answers to its reads and writes; \<open>None\<close>
  while it still waits.
\<close>

type_synonym io_step = "(nat \<Rightarrow> recv_ans) \<times> (u8 list \<Rightarrow> send_ans)"

fun echo_session :: "int \<Rightarrow> io_step list \<Rightarrow> sock_act list option" where
  "echo_session c [] = None"
| "echo_session c ((rd, wr) # io) =
     (case rd TCP_BUF_SIZE of
        Recv_err _ \<Rightarrow> Some []
      | Recv buf \<Rightarrow>
          if buf = [] then Some []
          else case wr buf of
            Send_err _ \<Rightarrow> Some [K_recv c buf]
          | Sent n \<Rightarrow> map_option (\<lambda>as. K_recv c buf # K_send c (take n buf) # as) (echo_session c io))"

text \<open>
  A turn of the accept loop: a connection with its input and output, or an error. The list ends
  where \<open>running\<close> was found 0.
\<close>

datatype accept_round = Round int "io_step list" | Round_err errno

fun serve_rounds :: "accept_round list \<Rightarrow> sock_act list option" where
  "serve_rounds [] = Some []"
| "serve_rounds (Round_err e # rs) = (if e = EINTR then serve_rounds rs else Some [])"
| "serve_rounds (Round c io # rs) =
     (case echo_session c io of None \<Rightarrow> None
      | Some as \<Rightarrow> map_option (\<lambda>bs. K_open c # as @ K_close c # bs) (serve_rounds rs))"

record lab_tcp_server_env =
  lts_socket :: int
  lts_bind :: int
  lts_listen :: int
  lts_rounds :: "accept_round list"

definition lab_tcp_server :: "lab_tcp_server_env \<Rightarrow> (int \<times> sock_act list) option" where
  "lab_tcp_server e =
     (let l = lts_socket e in
      if l < 0 then Some (1, [])
      else if lts_bind e < 0 then Some (1, [K_open l, K_close l])
      else if lts_listen e < 0 then Some (1, [K_open l, K_close l])
      else map_option (\<lambda>as. (0, K_open l # as @ [K_close l])) (serve_rounds (lts_rounds e)))"

text \<open>Datagrams of \<open>udp_server.c\<close> with the answer of \<open>sendto\<close>, whose failure is only reported.\<close>

fun serve_datagrams :: "int \<Rightarrow> io_step list \<Rightarrow> sock_act list" where
  "serve_datagrams s [] = []"
| "serve_datagrams s ((rd, wr) # io) =
     (case rd (UDP_BUF_SIZE - 1) of
        Recv_err e \<Rightarrow> if e = EINTR then serve_datagrams s io else []
      | Recv buf \<Rightarrow>
          K_recv s buf # K_print (until_nul buf) #
          (case wr buf of Send_err _ \<Rightarrow> [] | Sent n \<Rightarrow> [K_send s (take n buf)]) @ serve_datagrams s io)"

record lab_udp_server_env =
  lus_socket :: int
  lus_bind :: int
  lus_io :: "io_step list"

definition lab_udp_server :: "lab_udp_server_env \<Rightarrow> int \<times> sock_act list" where
  "lab_udp_server e =
     (let s = lus_socket e in
      if s < 0 then (1, [])
      else if lus_bind e < 0 then (1, [K_open s, K_close s])
      else (0, K_open s # serve_datagrams s (lus_io e) @ [K_close s]))"

text \<open>The clients; the arguments are those after the program name.\<close>

record lab_client_env =
  lc_args :: "string list"
  lc_socket :: int
  lc_pton :: int
  lc_connect :: int
  lc_send :: "u8 list \<Rightarrow> send_ans"
  lc_recv :: "nat \<Rightarrow> recv_ans"

definition lab_message :: "string \<Rightarrow> string list \<Rightarrow> u8 list" where
  "lab_message usual args = bytes_of (if length args > 2 then args ! 2 else usual)"

definition lab_tcp_client :: "lab_client_env \<Rightarrow> int \<times> sock_act list" where
  "lab_tcp_client e =
     (let s = lc_socket e; msg = lab_message ''hello from tcp_client'' (lc_args e) in
      if lc_args e = [] then (1, [])
      else if s < 0 then (1, [])
      else if lc_pton e \<noteq> 1 then (1, [K_open s, K_close s])
      else if lc_connect e < 0 then (1, [K_open s, K_close s])
      else case lc_send e msg of
        Send_err _ \<Rightarrow> (1, [K_open s, K_close s])
      | Sent n \<Rightarrow>
        (case lc_recv e (TCP_BUF_SIZE - 1) of
           Recv_err _ \<Rightarrow> (1, [K_open s, K_send s (take n msg), K_close s])
         | Recv buf \<Rightarrow>
             if buf = [] then (0, [K_open s, K_send s (take n msg), K_close s])
             else (0, [K_open s, K_send s (take n msg), K_recv s buf, K_print (until_nul buf), K_close s])))"

definition lab_udp_client :: "lab_client_env \<Rightarrow> int \<times> sock_act list" where
  "lab_udp_client e =
     (let s = lc_socket e; msg = lab_message ''hello from udp_client'' (lc_args e) in
      if lc_args e = [] then (1, [])
      else if s < 0 then (1, [])
      else if lc_pton e \<noteq> 1 then (1, [K_open s, K_close s])
      else case lc_send e msg of
        Send_err _ \<Rightarrow> (1, [K_open s, K_close s])
      | Sent n \<Rightarrow>
        (case lc_recv e (UDP_BUF_SIZE - 1) of
           Recv_err _ \<Rightarrow> (1, [K_open s, K_send s (take n msg), K_close s])
         | Recv buf \<Rightarrow> (0, [K_open s, K_send s (take n msg), K_recv s buf, K_print (until_nul buf), K_close s])))"

section \<open>\<open>chat/client.c\<close>\<close>

text \<open>
  One turn of the poll loop: what \<open>poll\<close> reports for the keyboard and the socket, what \<open>fgets\<close>
  reads into a buffer of a given size with the kernel's answers to its sending, and what \<open>recv\<close>
  gives for the size asked.
\<close>

record chat_round =
  cr_keyboard :: bool
  cr_line :: "nat \<Rightarrow> string option"
  cr_sends :: "send_ans list"
  cr_socket_in :: bool
  cr_recv :: "nat \<Rightarrow> recv_ans"
  cr_hup :: bool

datatype poll_round = Poll_err errno | Poll chat_round

fun chat_rounds :: "int \<Rightarrow> poll_round list \<Rightarrow> sock_act list option" where
  "chat_rounds s [] = None"
| "chat_rounds s (Poll_err e # rs) = (if e = EINTR then chat_rounds s rs else Some [])"
| "chat_rounds s (Poll r # rs) =
     (let socket_part = (\<lambda>rest.
            if cr_socket_in r then
              (case cr_recv r 4095 of
                 Recv_err _ \<Rightarrow> Some []
               | Recv buf \<Rightarrow>
                   if buf = [] then Some []
                   else map_option (\<lambda>as. K_recv s buf # K_print (until_nul buf) # as) (if cr_hup r then Some [] else rest))
            else if cr_hup r then Some [] else rest)
      in if cr_keyboard r then
           (case cr_line r 1024 of
              None \<Rightarrow> Some []
            | Some line \<Rightarrow>
                (case send_all (cr_sends r) (cstr line) of
                   None \<Rightarrow> None
                 | Some (ret, out) \<Rightarrow>
                     if ret < 0 then Some [K_send s (bytes_of out)]
                     else map_option (\<lambda>as. K_send s (bytes_of out) # as) (socket_part (chat_rounds s rs))))
         else socket_part (chat_rounds s rs))"

record chat_client_env =
  ce_socket :: int
  ce_pton :: int
  ce_connect :: int
  ce_rounds :: "poll_round list"

definition chat_client_main :: "chat_client_env \<Rightarrow> (int \<times> sock_act list) option" where
  "chat_client_main e =
     (let s = ce_socket e in
      if s < 0 then Some (1, [])
      else if ce_pton e \<noteq> 1 then Some (1, [K_open s, K_close s])
      else if ce_connect e < 0 then Some (1, [K_open s, K_close s])
      else map_option (\<lambda>as. (0, K_open s # as @ [K_close s])) (chat_rounds s (ce_rounds e)))"

section \<open>\<open>ebpf/xdp_pass.c\<close>\<close>

datatype xdp_action = XDP_ABORTED | XDP_PASS

definition xdp_pass_all :: "u64 \<Rightarrow> u64 \<Rightarrow> xdp_action" where
  "xdp_pass_all data data_end = (if data \<ge> data_end then XDP_ABORTED else XDP_PASS)"

end
