(* ===== verification/Capture.thy ===== *)
theory Capture
  imports Firewall Sockets
begin

text \<open>
  The one-packet capture \<open>packet_capture/packet_capture.c\<close>: a raw socket, one \<open>recv\<close>, and the
  decoding of its Ethernet, IPv4, TCP and UDP headers. A byte of the buffer that \<open>recv\<close> did not
  write has no determined value; using one is \<open>None\<close>.
\<close>

section \<open>What is reported\<close>

definition ETH_P_IP :: u16 where "ETH_P_IP = 0x0800"
definition IPPROTO_ICMP :: u8 where "IPPROTO_ICMP = 1"

datatype report =
    Rep_captured nat
  | Rep_dst_mac "u8 list"
  | Rep_src_mac "u8 list"
  | Rep_ethertype u16
  | Rep_ipv4
  | Rep_src_ip "u8 list"        \<comment> \<open>the four bytes \<open>inet_ntop\<close> prints\<close>
  | Rep_dst_ip "u8 list"
  | Rep_protocol u8
  | Rep_tcp
  | Rep_udp
  | Rep_icmp
  | Rep_src_port u16
  | Rep_dst_port u16
  | Rep_flags "bool list"       \<comment> \<open>FIN, SYN, RST, PSH, ACK, URG\<close>

section \<open>Reading the buffer\<close>

definition byte_at :: "u8 list \<Rightarrow> nat \<Rightarrow> u8 option" where
  "byte_at buf i = (if i < length buf then Some (buf ! i) else None)"

definition be16_at :: "u8 list \<Rightarrow> nat \<Rightarrow> u16 option" where
  "be16_at buf i = (case (byte_at buf i, byte_at buf (i + 1)) of
     (Some b0, Some b1) \<Rightarrow> Some (load_be16 b0 b1) | _ \<Rightarrow> None)"

definition ip_header_len :: "u8 \<Rightarrow> nat" where
  "ip_header_len first = unat (first AND 0x0F) * 4"

definition tcp_flags :: "u8 \<Rightarrow> bool list" where
  "tcp_flags f = [f AND 0x01 \<noteq> 0, f AND 0x02 \<noteq> 0, f AND 0x04 \<noteq> 0, f AND 0x08 \<noteq> 0, f AND 0x10 \<noteq> 0, f AND 0x20 \<noteq> 0]"

section \<open>The decoder\<close>

definition report_tcp :: "u8 list \<Rightarrow> nat \<Rightarrow> report list option" where
  "report_tcp buf off =
     (case (byte_at buf (off + 13), be16_at buf off, be16_at buf (off + 2)) of
        (Some flags, Some src, Some dst) \<Rightarrow>
          Some [Rep_tcp, Rep_src_port (ntohs src), Rep_dst_port (ntohs dst), Rep_flags (tcp_flags flags)]
      | _ \<Rightarrow> None)"

text \<open>Both ports printed for UDP are read from \<open>udp->dest\<close>.\<close>

definition report_udp :: "u8 list \<Rightarrow> nat \<Rightarrow> report list option" where
  "report_udp buf off =
     (case be16_at buf (off + 2) of
        Some dst \<Rightarrow> Some [Rep_udp, Rep_src_port (ntohs dst), Rep_dst_port (ntohs dst)]
      | None \<Rightarrow> None)"

text \<open>The exit status and the reports; \<open>ntop1\<close> and \<open>ntop2\<close> say whether \<open>inet_ntop\<close> succeeds.\<close>

definition report_ip :: "bool \<Rightarrow> bool \<Rightarrow> u8 list \<Rightarrow> (int \<times> report list) option" where
  "report_ip ntop1 ntop2 buf =
     (if length buf < 14 + 20 then Some (1, [Rep_ipv4])
      else
        let ip = drop 14 buf;
            off = 14 + ip_header_len (ip ! 0);
            proto = ip ! 9;
            head = [Rep_ipv4, Rep_src_ip (take 4 (drop 12 ip)), Rep_dst_ip (take 4 (drop 16 ip)), Rep_protocol proto]
        in
        if \<not> ntop1 then Some (1, [Rep_ipv4])
        else if \<not> ntop2 then Some (1, [Rep_ipv4])
        else if proto = IPPROTO_TCP then map_option (\<lambda>r. (0, head @ r)) (report_tcp buf off)
        else if proto = IPPROTO_UDP then map_option (\<lambda>r. (0, head @ r)) (report_udp buf off)
        else if proto = IPPROTO_ICMP then Some (0, head @ [Rep_icmp])
        else Some (0, head))"

definition report_frame :: "bool \<Rightarrow> bool \<Rightarrow> u8 list \<Rightarrow> (int \<times> report list) option" where
  "report_frame ntop1 ntop2 buf =
     (if length buf < 14 then Some (1, [])
      else
        let proto = ntohs (load_be16 (buf ! 12) (buf ! 13));
            head = [Rep_captured (length buf), Rep_dst_mac (take 6 buf), Rep_src_mac (take 6 (drop 6 buf)), Rep_ethertype proto]
        in if proto = ETH_P_IP then map_option (\<lambda>(st, r). (st, head @ r)) (report_ip ntop1 ntop2 buf)
           else Some (0, head))"

definition packet_capture :: "int \<Rightarrow> recv_ans \<Rightarrow> bool \<Rightarrow> bool \<Rightarrow> (int \<times> report list \<times> sock_act list) option" where
  "packet_capture sock ans ntop1 ntop2 =
     (if sock < 0 then Some (1, [], [])
      else case ans of
        Recv_err e \<Rightarrow> Some (1, [], [K_open sock, K_close sock])
      | Recv buf \<Rightarrow> map_option (\<lambda>(st, r). (st, r, [K_open sock, K_recv sock buf, K_close sock])) (report_frame ntop1 ntop2 buf))"

section \<open>Facts\<close>

lemma byte_at_simps [simp]:
  "i < length buf \<Longrightarrow> byte_at buf i = Some (buf ! i)" "length buf \<le> i \<Longrightarrow> byte_at buf i = None"
  by (simp_all add: byte_at_def)

lemma be16_None: "be16_at buf i = None \<longleftrightarrow> length buf \<le> i + 1"
  by (auto simp: be16_at_def byte_at_def)

lemma be16_Some: "i + 1 < length buf \<Longrightarrow> be16_at buf i = Some (load_be16 (buf ! i) (buf ! (i + 1)))"
  by (simp add: be16_at_def)

lemma report_tcp_None: "report_tcp buf off = None \<longleftrightarrow> length buf < off + 14"
proof (cases "length buf < off + 14")
  case True
  then show ?thesis by (simp add: report_tcp_def)
next
  case False
  then show ?thesis by (simp add: report_tcp_def be16_Some)
qed

lemma report_udp_None: "report_udp buf off = None \<longleftrightarrow> length buf < off + 4"
  using be16_None [of buf "off + 2"] by (cases "be16_at buf (off + 2)") (auto simp: report_udp_def)

text \<open>The bytes of a frame, as they are on the wire.\<close>

definition be16 :: "u8 list \<Rightarrow> u16" where
  "be16 bs = push_bit 8 (ucast (bs ! 0)) OR ucast (bs ! 1)"

lemma ntohs_be16: "length bs = 2 \<Longrightarrow> ntohs (load_be16 (bs ! 0) (bs ! 1)) = be16 bs"
  by (simp add: ntohs_load be16_def)

record ip_packet =
  ip_first :: u8                 \<comment> \<open>version and header length\<close>
  ip_mid :: "u8 list"            \<comment> \<open>eight bytes up to the protocol\<close>
  ip_proto :: u8
  ip_sum :: "u8 list"
  ip_src :: "u8 list"
  ip_dst :: "u8 list"
  ip_opts :: "u8 list"
  ip_body :: "u8 list"

definition ip_bytes :: "ip_packet \<Rightarrow> u8 list" where
  "ip_bytes p = [ip_first p] @ ip_mid p @ [ip_proto p] @ ip_sum p @ ip_src p @ ip_dst p @ ip_opts p @ ip_body p"

definition ip_wf :: "ip_packet \<Rightarrow> bool" where
  "ip_wf p \<longleftrightarrow> length (ip_mid p) = 8 \<and> length (ip_sum p) = 2 \<and> length (ip_src p) = 4 \<and> length (ip_dst p) = 4 \<and>
     20 + length (ip_opts p) = ip_header_len (ip_first p)"

definition ip_frame :: "u8 list \<Rightarrow> u8 list \<Rightarrow> ip_packet \<Rightarrow> u8 list" where
  "ip_frame dst src p = dst @ src @ [0x08, 0x00] @ ip_bytes p"

definition frame_head :: "u8 list \<Rightarrow> u8 list \<Rightarrow> ip_packet \<Rightarrow> report list" where
  "frame_head dst src p = [Rep_captured (length (ip_frame dst src p)), Rep_dst_mac dst, Rep_src_mac src, Rep_ethertype ETH_P_IP,
     Rep_ipv4, Rep_src_ip (ip_src p), Rep_dst_ip (ip_dst p), Rep_protocol (ip_proto p)]"

text \<open>
  What is reported of the transport header; for UDP a reader would expect the source port, the
  first two bytes, where the destination port is repeated.
\<close>

definition transport_report :: "ip_packet \<Rightarrow> report list" where
  "transport_report p =
     (let b = ip_body p in
      if ip_proto p = IPPROTO_TCP then
        [Rep_tcp, Rep_src_port (be16 (take 2 b)), Rep_dst_port (be16 (take 2 (drop 2 b))), Rep_flags (tcp_flags (b ! 13))]
      else if ip_proto p = IPPROTO_UDP then
        [Rep_udp, Rep_src_port (be16 (take 2 (drop 2 b))), Rep_dst_port (be16 (take 2 (drop 2 b)))]
      else if ip_proto p = IPPROTO_ICMP then [Rep_icmp] else [])"

definition needed_body :: "u8 \<Rightarrow> nat" where
  "needed_body proto = (if proto = IPPROTO_TCP then 14 else if proto = IPPROTO_UDP then 4 else 0)"

lemma ip_frame_parts:
  assumes "ip_wf p" "length dst = 6" "length src = 6"
  shows "length (ip_frame dst src p) = 14 + ip_header_len (ip_first p) + length (ip_body p)"
    "ip_header_len (ip_first p) \<ge> 20"
    "ip_frame dst src p ! 12 = 0x08" "ip_frame dst src p ! 13 = 0x00"
    "take 6 (ip_frame dst src p) = dst" "take 6 (drop 6 (ip_frame dst src p)) = src"
    "drop 14 (ip_frame dst src p) = ip_bytes p"
    "ip_bytes p ! 0 = ip_first p" "ip_bytes p ! 9 = ip_proto p"
    "take 4 (drop 12 (ip_bytes p)) = ip_src p" "take 4 (drop 16 (ip_bytes p)) = ip_dst p"
    "ip_frame dst src p ! (14 + ip_header_len (ip_first p) + i) = ip_body p ! i"
proof -
  show "length (ip_frame dst src p) = 14 + ip_header_len (ip_first p) + length (ip_body p)"
    "ip_header_len (ip_first p) \<ge> 20"
    "ip_frame dst src p ! 12 = 0x08" "ip_frame dst src p ! 13 = 0x00"
    "take 6 (ip_frame dst src p) = dst" "take 6 (drop 6 (ip_frame dst src p)) = src"
    "drop 14 (ip_frame dst src p) = ip_bytes p"
    "ip_bytes p ! 0 = ip_first p" "ip_bytes p ! 9 = ip_proto p"
    "take 4 (drop 12 (ip_bytes p)) = ip_src p" "take 4 (drop 16 (ip_bytes p)) = ip_dst p"
    using assms by (simp_all add: ip_wf_def ip_frame_def ip_bytes_def nth_append)
  have "ip_frame dst src p = (dst @ src @ [0x08, 0x00, ip_first p] @ ip_mid p @ [ip_proto p] @ ip_sum p @ ip_src p @ ip_dst p @ ip_opts p) @ ip_body p"
    (is "_ = ?a @ _") by (simp add: ip_frame_def ip_bytes_def)
  moreover have "length ?a = 14 + ip_header_len (ip_first p)" using assms by (simp add: ip_wf_def)
  ultimately show "ip_frame dst src p ! (14 + ip_header_len (ip_first p) + i) = ip_body p ! i"
    by (metis nth_append_length_plus)
qed

lemma be16_take: "Suc i < length b \<Longrightarrow> be16 (take 2 (drop i b)) = ntohs (load_be16 (b ! i) (b ! Suc i))"
  by (simp add: be16_def ntohs_load)

lemma ntohs_ip: "ntohs (load_be16 0x08 0x00) = ETH_P_IP"
  by (simp add: ntohs_load ETH_P_IP_def)

section \<open>The claims\<close>

text \<open>
  Claim C37: the capture decodes what is on the wire. For every Ethernet frame with a well-formed
  IPv4 packet, with options or without, whose transport header arrived, it reports the
  addresses, the protocol and for TCP the ports in host order and the six flags; for UDP it
  reports the destination port twice, as the code reads \<open>udp->dest\<close> for both. The socket is
  closed.
\<close>
theorem capture_decodes:
  assumes wf: "ip_wf p" "length dst = 6" "length src = 6" and body: "needed_body (ip_proto p) \<le> length (ip_body p)"
    and sock: "0 \<le> sock"
  shows "packet_capture sock (Recv (ip_frame dst src p)) True True =
    Some (0, frame_head dst src p @ transport_report p, [K_open sock, K_recv sock (ip_frame dst src p), K_close sock])"
proof -
  let ?f = "ip_frame dst src p" and ?b = "ip_body p" and ?o = "14 + ip_header_len (ip_first p)"
  note parts = ip_frame_parts [OF wf]
  have l: "\<not> length ?f < 34" "\<not> length ?f < 14" using parts(1,2) by simp_all
  have at: "be16_at ?f (?o + i) = Some (load_be16 (?b ! i) (?b ! Suc i))" if "Suc i < length ?b" for i
    using that parts(1) parts(12) [of i] parts(12) [of "Suc i"] by (simp add: be16_Some)
  have tcp: "report_tcp ?f ?o = Some (transport_report p)" if "ip_proto p = IPPROTO_TCP"
  proof -
    have b: "14 \<le> length ?b" using body that by (simp add: needed_body_def)
    then have "byte_at ?f (?o + 13) = Some (?b ! 13)" using parts(1) parts(12) [of 13] by simp
    with b that at [of 0] at [of 2] be16_take [of 0 ?b] be16_take [of 2 ?b] show ?thesis
      by (simp add: report_tcp_def transport_report_def Let_def)
  qed
  have udp: "report_udp ?f ?o = Some (transport_report p)" if "ip_proto p = IPPROTO_UDP"
  proof -
    have "4 \<le> length ?b" "ip_proto p \<noteq> IPPROTO_TCP"
      using body that by (simp_all add: needed_body_def IPPROTO_UDP_def IPPROTO_TCP_def)
    with that at [of 2] be16_take [of 2 ?b] show ?thesis by (simp add: report_udp_def transport_report_def Let_def)
  qed
  have "report_ip True True ?f = Some (0, [Rep_ipv4, Rep_src_ip (ip_src p), Rep_dst_ip (ip_dst p), Rep_protocol (ip_proto p)] @ transport_report p)"
    using l(1) tcp udp unfolding report_ip_def parts(7) Let_def parts(8-11)
    by (auto simp: transport_report_def Let_def IPPROTO_ICMP_def IPPROTO_UDP_def IPPROTO_TCP_def)
  then have "report_frame True True ?f = Some (0, frame_head dst src p @ transport_report p)"
    using l(2) unfolding report_frame_def Let_def parts(3,4,5,6) ntohs_ip by (simp add: frame_head_def)
  with sock show ?thesis by (simp add: packet_capture_def)
qed

text \<open>
  Claim C38: exactly when the capture prints bytes it never received. Every header before the
  transport header is checked against the received length; the transport header is not: a
  frame that passed the checks reads past what \<open>recv\<close> wrote iff it is TCP with fewer than 14, or
  UDP with fewer than 4 bytes behind the IPv4 header the packet itself claims. The offsets stay
  inside the 65536 bytes of the buffer.
\<close>
theorem capture_overread:
  assumes "0 \<le> sock"
  shows "packet_capture sock (Recv buf) True True = None \<longleftrightarrow>
    34 \<le> length buf \<and> ntohs (load_be16 (buf ! 12) (buf ! 13)) = ETH_P_IP \<and>
    (buf ! 23 = IPPROTO_TCP \<and> length buf < 14 + ip_header_len (buf ! 14) + 14 \<or>
     buf ! 23 = IPPROTO_UDP \<and> length buf < 14 + ip_header_len (buf ! 14) + 4) \<and>
    14 + ip_header_len (buf ! 14) + 14 \<le> 65536"
proof -
  have "unat (b AND 0x0F) \<le> 15" for b :: u8
    using word_and_le1 [of b "0x0F"] by (simp add: word_le_nat_alt)
  from this [of "buf ! 14"] have small: "14 + ip_header_len (buf ! 14) + 14 \<le> 65536" by (simp add: ip_header_len_def)
  have ip: "report_ip True True buf = None \<longleftrightarrow> 34 \<le> length buf \<and>
     (buf ! 23 = IPPROTO_TCP \<and> length buf < 14 + ip_header_len (buf ! 14) + 14 \<or>
      buf ! 23 = IPPROTO_UDP \<and> length buf < 14 + ip_header_len (buf ! 14) + 4)"
  proof (cases "length buf < 34")
    case False
    then have "drop 14 buf ! 0 = buf ! 14" "drop 14 buf ! 9 = buf ! 23" by simp_all
    with False show ?thesis unfolding report_ip_def Let_def
      by (auto simp: report_tcp_None report_udp_None IPPROTO_UDP_def IPPROTO_TCP_def)
  qed (simp add: report_ip_def)
  show ?thesis using assms ip small by (auto simp: packet_capture_def report_frame_def Let_def)
qed

definition udp_demo :: ip_packet where
  "udp_demo = \<lparr>ip_first = 0x45, ip_mid = replicate 8 0, ip_proto = 17, ip_sum = [0, 0], ip_src = [10, 0, 0, 1], ip_dst = [10, 0, 0, 2],
     ip_opts = [], ip_body = [0x30, 0x39, 0x13, 0x88, 0, 8, 0, 0]\<rparr>"

theorem capture_decodes_witness:
  "\<exists>acts. packet_capture 3 (Recv (ip_frame (replicate 6 1) (replicate 6 2) udp_demo)) True True =
    Some (0, frame_head (replicate 6 1) (replicate 6 2) udp_demo @ [Rep_udp, Rep_src_port 5000, Rep_dst_port 5000], acts)"
proof -
  have w: "ip_wf udp_demo" by (simp add: ip_wf_def udp_demo_def ip_header_len_def)
  have n: "needed_body (ip_proto udp_demo) \<le> length (ip_body udp_demo)" by (simp add: udp_demo_def needed_body_def IPPROTO_TCP_def)
  have t: "transport_report udp_demo = [Rep_udp, Rep_src_port 5000, Rep_dst_port 5000]"
    by (simp add: transport_report_def Let_def udp_demo_def IPPROTO_TCP_def IPPROTO_UDP_def be16_def)
  show ?thesis using capture_decodes [OF w _ _ n, of "replicate 6 1" "replicate 6 2" 3] t by simp
qed

theorem capture_overread_witness:
  "packet_capture 3 (Recv (replicate 12 0 @ [0x08, 0x00, 0x45] @ replicate 8 0 @ [6] @ replicate 10 0)) True True = None"
  by (subst capture_overread) (simp_all add: ntohs_ip IPPROTO_TCP_def ip_header_len_def nth_append)

end
