(* ===== verification/Packet_Mmap.thy ===== *)
theory Packet_Mmap
  imports Capture "HOL-Library.Sublist"
begin

text \<open>
  The ring capture \<open>packet_capture/packet_mmap.c\<close>: a \<open>TPACKET_V3\<close> ring of four blocks shared with
  the kernel. The program waits for the block at \<open>block_num\<close>, walks its packets by the offsets
  the kernel wrote, gives the block back and goes on to the next. A block is the record of its
  header, the packet headers by their offset, and its bytes; a read outside is \<open>None\<close>.
\<close>

section \<open>Set-up\<close>

definition BLOCK_SIZE :: nat where "BLOCK_SIZE = 2 ^ 20"
definition BLOCK_NR :: nat where "BLOCK_NR = 4"
definition FRAME_SIZE :: nat where "FRAME_SIZE = 2048"

definition TP_STATUS_KERNEL :: u32 where "TP_STATUS_KERNEL = 0"
definition TP_STATUS_USER :: u32 where "TP_STATUS_USER = 1"

record mmap_env =
  me_socket :: int
  me_version :: int
  me_rx_ring :: int
  me_mmap :: bool

text \<open>
  Either the exit status with the log, or the frame count and the ring size the kernel was
  asked for.
\<close>

definition mmap_setup :: "mmap_env \<Rightarrow> (int \<times> sock_act list) + nat \<times> nat" where
  "mmap_setup e =
     (let s = me_socket e in
      if s < 0 then Inl (1, [])
      else if me_version e < 0 then Inl (1, [K_open s, K_close s])
      else if me_rx_ring e < 0 then Inl (1, [K_open s, K_close s])
      else if \<not> me_mmap e then Inl (1, [K_open s, K_close s])
      else Inr (BLOCK_SIZE * BLOCK_NR div FRAME_SIZE, BLOCK_SIZE * BLOCK_NR))"

section \<open>Blocks\<close>

record tpacket3_hdr =
  tp_next_offset :: nat
  tp_snaplen :: nat
  tp_len :: nat
  tp_mac :: nat

record tp_block =
  block_status :: u32
  num_pkts :: nat
  offset_to_first_pkt :: nat
  packet_at :: "nat \<Rightarrow> tpacket3_hdr option"
  block_bytes :: "u8 list"

datatype frame_report =
    Frame nat nat "u8 option" "u8 list" "u8 list" u16
      \<comment> \<open>captured and original length, IPv4 protocol, destination, source, EtherType\<close>

definition report_packet :: "tp_block \<Rightarrow> nat \<Rightarrow> tpacket3_hdr \<Rightarrow> frame_report option" where
  "report_packet b off h =
     (let frame = drop (off + tp_mac h) (block_bytes b) in
      if length frame < 14 then None
      else
        let proto = ntohs (load_be16 (frame ! 12) (frame ! 13)) in
        if proto = ETH_P_IP \<and> length frame < 14 + 20 then None
        else Some (Frame (tp_snaplen h) (tp_len h) (if proto = ETH_P_IP then Some (frame ! 23) else None)
               (take 6 frame) (take 6 (drop 6 frame)) proto))"

text \<open>The loop over the packets of a block; \<open>left\<close> is \<open>num_pkts - packet_num\<close>.\<close>

fun walk_packets :: "tp_block \<Rightarrow> nat \<Rightarrow> nat \<Rightarrow> frame_report list option" where
  "walk_packets b 0 off = Some []"
| "walk_packets b (Suc left) off =
     (case packet_at b off of None \<Rightarrow> None
      | Some h \<Rightarrow>
        (case report_packet b off h of None \<Rightarrow> None
         | Some r \<Rightarrow>
             if tp_next_offset h = 0 then Some [r]
             else map_option (\<lambda>rs. r # rs) (walk_packets b left (off + tp_next_offset h))))"

record mmap_state =
  block_num :: nat
  ring_blocks :: "tp_block list"
  reported :: "frame_report list"

text \<open>One turn of the loop: sleep when the kernel still owns the block, or handle it.\<close>

definition mmap_turn :: "mmap_state \<Rightarrow> mmap_state option" where
  "mmap_turn m =
     (if length (ring_blocks m) \<le> block_num m then None
      else let b = ring_blocks m ! block_num m in
        if block_status b AND TP_STATUS_USER = 0 then Some m
        else map_option (\<lambda>rs. m\<lparr>block_num := (block_num m + 1) mod BLOCK_NR,
                 ring_blocks := (ring_blocks m)[block_num m := b\<lparr>block_status := TP_STATUS_KERNEL\<rparr>],
                 reported := reported m @ rs\<rparr>)
               (walk_packets b (num_pkts b) (offset_to_first_pkt b)))"

section \<open>The kernel's side\<close>

text \<open>
  What \<open>TPACKET_V3\<close> documents: a retired block holds \<open>num_pkts\<close> packets chained by
  \<open>tp_next_offset\<close>, each frame inside the block, the last offset 0 or unused; the kernel fills the
  blocks in ring order and only blocks it owns.
\<close>

fun laid_out :: "tp_block \<Rightarrow> nat \<Rightarrow> frame_report list \<Rightarrow> bool" where
  "laid_out b off [] \<longleftrightarrow> True"
| "laid_out b off (r # rs) \<longleftrightarrow>
     (\<exists>h. packet_at b off = Some h \<and> report_packet b off h = Some r \<and>
        (rs \<noteq> [] \<longrightarrow> tp_next_offset h \<noteq> 0 \<and> laid_out b (off + tp_next_offset h) rs))"

definition block_ok :: "tp_block \<Rightarrow> frame_report list \<Rightarrow> bool" where
  "block_ok b rs \<longleftrightarrow> block_status b AND TP_STATUS_USER \<noteq> 0 \<and> num_pkts b = length rs \<and>
     laid_out b (offset_to_first_pkt b) rs"

lemma walk_laid_out: "laid_out b off rs \<Longrightarrow> walk_packets b (length rs) off = Some rs"
proof (induction rs arbitrary: off)
  case (Cons r rs)
  then obtain h where h: "packet_at b off = Some h" "report_packet b off h = Some r"
    "rs \<noteq> [] \<longrightarrow> tp_next_offset h \<noteq> 0 \<and> laid_out b (off + tp_next_offset h) rs" by auto
  show ?case
  proof (cases rs)
    case Nil
    with h show ?thesis by simp
  next
    case (Cons r' rs')
    with h Cons.IH [of "off + tp_next_offset h"] show ?thesis by simp
  qed
qed simp

text \<open>A filled block arrives, or the program takes a turn.\<close>

datatype mmap_op = M_fill tp_block "frame_report list" | M_turn

record mmap_system =
  sys_prog :: mmap_state
  sys_next :: nat                           \<comment> \<open>the block the kernel fills next\<close>
  sys_filled :: "frame_report list"         \<comment> \<open>all packets the kernel delivered\<close>

fun mmap_step :: "mmap_op \<Rightarrow> mmap_system \<Rightarrow> mmap_system option" where
  "mmap_step (M_fill b rs) y =
     (let m = sys_prog y in
      if sys_next y < length (ring_blocks m) \<and> block_status (ring_blocks m ! sys_next y) AND TP_STATUS_USER = 0
      then Some (y\<lparr>sys_prog := m\<lparr>ring_blocks := (ring_blocks m)[sys_next y := b]\<rparr>,
                   sys_next := (sys_next y + 1) mod BLOCK_NR, sys_filled := sys_filled y @ rs\<rparr>)
      else Some y)"
| "mmap_step M_turn y = map_option (\<lambda>m. y\<lparr>sys_prog := m\<rparr>) (mmap_turn (sys_prog y))"

fun mmap_run :: "mmap_op list \<Rightarrow> mmap_system \<Rightarrow> mmap_system option" where
  "mmap_run [] y = Some y"
| "mmap_run (op # ops) y = (case mmap_step op y of None \<Rightarrow> None | Some y' \<Rightarrow> mmap_run ops y')"

fun fill_ok :: "mmap_op \<Rightarrow> bool" where
  "fill_ok (M_fill b rs) \<longleftrightarrow> block_ok b rs"
| "fill_ok M_turn \<longleftrightarrow> True"

section \<open>The ring is a queue of blocks\<close>

text \<open>\<open>pend\<close> are the packets of the blocks waiting between the program and the kernel.\<close>

definition mmap_inv :: "mmap_system \<Rightarrow> frame_report list list \<Rightarrow> bool" where
  "mmap_inv y pend \<longleftrightarrow> (let m = sys_prog y in
     length (ring_blocks m) = 4 \<and> block_num m < 4 \<and> length pend \<le> 4 \<and> sys_next y = (block_num m + length pend) mod 4 \<and>
     (\<forall>i < length pend. block_ok (ring_blocks m ! ((block_num m + i) mod 4)) (pend ! i)) \<and>
     (\<forall>i < 4. length pend \<le> i \<longrightarrow> block_status (ring_blocks m ! ((block_num m + i) mod 4)) AND TP_STATUS_USER = 0) \<and>
     sys_filled y = reported m @ concat pend)"

lemma slot_eq: "b < 4 \<Longrightarrow> i < 4 \<Longrightarrow> j < 4 \<Longrightarrow> (b + i) mod 4 = (b + j) mod 4 \<longleftrightarrow> i = (j::nat)"
  by (auto simp: mod_if split: if_splits)

lemma fill_inv:
  assumes inv: "mmap_inv y pend" and ok: "block_ok b rs"
  shows "\<exists>y' pend'. mmap_step (M_fill b rs) y = Some y' \<and> mmap_inv y' pend'"
proof -
  let ?m = "sys_prog y" and ?n = "length pend"
  let ?b = "block_num ?m"
  have l: "length (ring_blocks ?m) = 4" "?b < 4" "?n \<le> 4" "sys_next y = (?b + ?n) mod 4"
    and busy: "\<And>i. i < ?n \<Longrightarrow> block_ok (ring_blocks ?m ! ((?b + i) mod 4)) (pend ! i)"
    and free: "\<And>i. i < 4 \<Longrightarrow> ?n \<le> i \<Longrightarrow> block_status (ring_blocks ?m ! ((?b + i) mod 4)) AND TP_STATUS_USER = 0"
    and all: "sys_filled y = reported ?m @ concat pend"
    using inv by (simp_all add: mmap_inv_def Let_def)
  show ?thesis
  proof (cases "?n = 4")
    case True
    then have "sys_next y = ?b" using l by simp
    moreover have "block_status (ring_blocks ?m ! ?b) AND TP_STATUS_USER \<noteq> 0"
      using busy [of 0] True l(2) by (simp add: block_ok_def)
    ultimately have "mmap_step (M_fill b rs) y = Some y" by simp
    with inv show ?thesis by blast
  next
    case False
    then have n: "?n < 4" using l(3) by simp
    define y' where "y' = y\<lparr>sys_prog := ?m\<lparr>ring_blocks := (ring_blocks ?m)[sys_next y := b]\<rparr>,
        sys_next := (sys_next y + 1) mod BLOCK_NR, sys_filled := sys_filled y @ rs\<rparr>"
    have st: "mmap_step (M_fill b rs) y = Some y'"
      using free [OF n] l by (simp add: y'_def Let_def)
    have nx: "(sys_next y + 1) mod 4 = (?b + (?n + 1)) mod 4" using l(4) by (simp add: mod_simps)
    have "mmap_inv y' (pend @ [rs])" unfolding mmap_inv_def Let_def
    proof (intro conjI allI impI)
      fix i assume "i < length (pend @ [rs])"
      then show "block_ok (ring_blocks (sys_prog y') ! ((block_num (sys_prog y') + i) mod 4)) ((pend @ [rs]) ! i)"
        using busy [of i] ok l n slot_eq [OF l(2), of ?n i] by (cases "i = ?n") (auto simp: y'_def nth_append)
    next
      fix i assume "i < 4" "length (pend @ [rs]) \<le> i"
      then show "block_status (ring_blocks (sys_prog y') ! ((block_num (sys_prog y') + i) mod 4)) AND TP_STATUS_USER = 0"
        using free [of i] l n slot_eq [OF l(2), of ?n i] by (auto simp: y'_def)
    qed (use l n nx all in \<open>simp_all add: y'_def BLOCK_NR_def\<close>)
    with st show ?thesis by blast
  qed
qed

lemma turn_inv:
  assumes inv: "mmap_inv y pend"
  shows "\<exists>y' pend'. mmap_step M_turn y = Some y' \<and> mmap_inv y' pend' \<and> (pend \<noteq> [] \<longrightarrow> pend' = tl pend) \<and> sys_filled y' = sys_filled y"
proof -
  let ?m = "sys_prog y" and ?n = "length pend"
  let ?b = "block_num ?m"
  have l: "length (ring_blocks ?m) = 4" "?b < 4" "?n \<le> 4" "sys_next y = (?b + ?n) mod 4"
    and busy: "\<And>i. i < ?n \<Longrightarrow> block_ok (ring_blocks ?m ! ((?b + i) mod 4)) (pend ! i)"
    and free: "\<And>i. i < 4 \<Longrightarrow> ?n \<le> i \<Longrightarrow> block_status (ring_blocks ?m ! ((?b + i) mod 4)) AND TP_STATUS_USER = 0"
    and all: "sys_filled y = reported ?m @ concat pend"
    using inv by (simp_all add: mmap_inv_def Let_def)
  show ?thesis
  proof (cases pend)
    case Nil
    then have "block_status (ring_blocks ?m ! ?b) AND TP_STATUS_USER = 0" using free [of 0] l by simp
    then have "mmap_step M_turn y = Some y" using l by (simp add: mmap_turn_def Let_def)
    with inv Nil show ?thesis by blast
  next
    case (Cons rs ps)
    let ?blk = "ring_blocks ?m ! ?b"
    have ok: "block_ok ?blk rs" using busy [of 0] Cons l(2) by simp
    then have w: "walk_packets ?blk (num_pkts ?blk) (offset_to_first_pkt ?blk) = Some rs" "block_status ?blk AND TP_STATUS_USER \<noteq> 0"
      using walk_laid_out [of ?blk _ rs] by (simp_all add: block_ok_def)
    define y' where "y' = y\<lparr>sys_prog := ?m\<lparr>block_num := (?b + 1) mod 4,
        ring_blocks := (ring_blocks ?m)[?b := ?blk\<lparr>block_status := TP_STATUS_KERNEL\<rparr>], reported := reported ?m @ rs\<rparr>\<rparr>"
    have st: "mmap_step M_turn y = Some y'"
      using w l by (simp add: mmap_turn_def Let_def y'_def BLOCK_NR_def)
    have sh: "((?b + 1) mod 4 + i) mod 4 = (?b + Suc i) mod 4" for i by (simp add: mod_simps)
    have b0: "?b = (?b + 0) mod 4" using l(2) by simp
    have "mmap_inv y' ps" unfolding mmap_inv_def Let_def
    proof (intro conjI allI impI)
      fix i assume "i < length ps"
      then show "block_ok (ring_blocks (sys_prog y') ! ((block_num (sys_prog y') + i) mod 4)) (ps ! i)"
        using busy [of "Suc i"] Cons l slot_eq [OF l(2), of 0 "Suc i"] sh [of i] by (auto simp: y'_def)
    next
      fix i assume i: "i < 4" "length ps \<le> i"
      show "block_status (ring_blocks (sys_prog y') ! ((block_num (sys_prog y') + i) mod 4)) AND TP_STATUS_USER = 0"
      proof (cases "i = 3")
        case True
        then have "(?b + Suc i) mod 4 = ?b" using l(2) by simp
        then show ?thesis using l sh [of i] by (simp add: y'_def TP_STATUS_KERNEL_def)
      next
        case False
        then show ?thesis using i free [of "Suc i"] Cons l slot_eq [OF l(2), of 0 "Suc i"] sh [of i] by (auto simp: y'_def)
      qed
    next
      show "sys_next y' = (block_num (sys_prog y') + length ps) mod 4"
        using l(4) Cons sh [of "length ps"] by (simp add: y'_def)
    qed (use l Cons all in \<open>simp_all add: y'_def\<close>)
    with st Cons show ?thesis by (auto simp: y'_def)
  qed
qed

lemma run_inv:
  "mmap_inv y pend \<Longrightarrow> list_all fill_ok ops \<Longrightarrow> \<exists>y' pend'. mmap_run ops y = Some y' \<and> mmap_inv y' pend'"
proof (induction ops arbitrary: y pend)
  case (Cons op ops)
  have "\<exists>y1 pend1. mmap_step op y = Some y1 \<and> mmap_inv y1 pend1"
    using fill_inv [OF Cons.prems(1)] turn_inv [OF Cons.prems(1)] Cons.prems(2) by (cases op) (simp_all del: mmap_step.simps, blast+)
  with Cons show ?case by fastforce
qed auto

lemma drain_inv:
  "mmap_inv y pend \<Longrightarrow> \<exists>y'. mmap_run (replicate (length pend) M_turn) y = Some y' \<and> reported (sys_prog y') = sys_filled y"
proof (induction pend arbitrary: y)
  case Nil
  then show ?case by (simp add: mmap_inv_def Let_def)
next
  case (Cons rs ps)
  from turn_inv [OF Cons.prems] obtain y1 where "mmap_step M_turn y = Some y1" "mmap_inv y1 ps" "sys_filled y1 = sys_filled y" by auto
  with Cons.IH [of y1] show ?case by (auto simp del: mmap_step.simps)
qed

section \<open>The claim\<close>

definition mmap_start :: "tp_block list \<Rightarrow> mmap_system" where
  "mmap_start bs = \<lparr>sys_prog = \<lparr>block_num = 0, ring_blocks = bs, reported = []\<rparr>, sys_next = 0, sys_filled = []\<rparr>"

text \<open>
  Claim C8: the ring capture loses, repeats and reorders nothing. However the kernel's filling of
  blocks and the program's turns interleave (the kernel fills in ring order, only blocks it
  owns, and chains the packets as documented), the program never reads outside a block, and
  what it has reported is a prefix of all packets of all filled blocks, in order; after at most
  four more turns it has reported them all.
\<close>
theorem mmap_fifo:
  assumes "length bs = 4" "\<forall>b \<in> set bs. block_status b = TP_STATUS_KERNEL" "list_all fill_ok ops"
  shows "\<exists>y n z. mmap_run ops (mmap_start bs) = Some y \<and> prefix (reported (sys_prog y)) (sys_filled y) \<and>
    n \<le> 4 \<and> mmap_run (replicate n M_turn) y = Some z \<and> reported (sys_prog z) = sys_filled y"
proof -
  have "mmap_inv (mmap_start bs) []"
    using assms(1,2) by (simp add: mmap_inv_def mmap_start_def Let_def TP_STATUS_KERNEL_def)
  from run_inv [OF this assms(3)] obtain y pend where y: "mmap_run ops (mmap_start bs) = Some y" "mmap_inv y pend" by blast
  then have "sys_filled y = reported (sys_prog y) @ concat pend" "length pend \<le> 4" by (simp_all add: mmap_inv_def Let_def)
  with y drain_inv [OF y(2)] show ?thesis by (metis prefixI)
qed

definition block_demo :: tp_block where
  "block_demo = \<lparr>block_status = 1, num_pkts = 2, offset_to_first_pkt = 48,
     packet_at = (\<lambda>off. if off = 48 then Some \<lparr>tp_next_offset = 128, tp_snaplen = 60, tp_len = 60, tp_mac = 68\<rparr>
        else if off = 176 then Some \<lparr>tp_next_offset = 0, tp_snaplen = 14, tp_len = 90, tp_mac = 68\<rparr> else None),
     block_bytes = replicate 400 0\<rparr>"

theorem mmap_fifo_witness:
  "\<exists>y n z. mmap_run [M_fill block_demo [Frame 60 60 None (replicate 6 0) (replicate 6 0) 0, Frame 14 90 None (replicate 6 0) (replicate 6 0) 0], M_turn]
       (mmap_start (replicate 4 (block_demo\<lparr>block_status := 0\<rparr>))) = Some y \<and> n \<le> 4 \<and>
     mmap_run (replicate n M_turn) y = Some z \<and> reported (sys_prog z) = sys_filled y"
proof -
  let ?rs = "[Frame 60 60 None (replicate 6 0) (replicate 6 0) 0, Frame 14 90 None (replicate 6 0) (replicate 6 0) 0]"
  have z: "ntohs (load_be16 0 0) = 0" by (simp add: ntohs_load)
  have f: "report_packet block_demo off h = Some (Frame (tp_snaplen h) (tp_len h) None (replicate 6 0) (replicate 6 0) 0)"
    if "off + tp_mac h < 380" for off h
    using that by (simp add: report_packet_def block_demo_def Let_def z ETH_P_IP_def min_def, arith)
  have "laid_out block_demo 48 ?rs" using f by (simp add: block_demo_def)
  then have ok: "block_ok block_demo ?rs" by (simp add: block_ok_def TP_STATUS_USER_def) (simp add: block_demo_def)
  have "list_all fill_ok [M_fill block_demo ?rs, M_turn]" using ok by simp
  from mmap_fifo [OF _ _ this, of "replicate 4 (block_demo\<lparr>block_status := 0\<rparr>)"] show ?thesis
    by (simp add: TP_STATUS_KERNEL_def del: mmap_run.simps) blast
qed

end
