(* ===== verification/Program_Props.thy ===== *)
theory Program_Props
  imports Programs Packet_Mmap
begin

text \<open>
  Properties of the single-socket programs: the account of their descriptors on every path, and
  the echo of the lab's servers and clients through buffers of the sizes the programs have.
\<close>

section \<open>Descriptors of the loops\<close>

lemma session_fds: "echo_session c io = Some as \<Longrightarrow> c \<in> F \<Longrightarrow> fds (F, W) as = Some (F, W)"
  by (induction c io arbitrary: as rule: echo_session.induct)
    (auto split: recv_ans.splits send_ans.splits if_splits)

fun round_fds :: "accept_round list \<Rightarrow> int set" where
  "round_fds [] = {}"
| "round_fds (Round_err e # rs) = round_fds rs"
| "round_fds (Round c io # rs) = insert c (round_fds rs)"

lemma rounds_fds:
  "serve_rounds rs = Some as \<Longrightarrow> F \<inter> round_fds rs = {} \<Longrightarrow> fds (F, {}) as = Some (F, {})"
proof (induction rs arbitrary: as rule: serve_rounds.induct)
  case (2 e rs)
  then show ?case by (auto split: if_splits)
next
  case (3 c io rs)
  then obtain xs bs where x: "echo_session c io = Some xs" "serve_rounds rs = Some bs" "as = K_open c # xs @ K_close c # bs"
    by (auto split: option.splits)
  have c: "c \<notin> F" "insert c F - {c} = F" using 3(3) by auto
  have "fds (F, {}) bs = Some (F, {})" using 3(1) [OF x(1,2)] 3(3) by auto
  with c x(3) session_fds [OF x(1), of "insert c F" "{}"] show ?case by (simp add: fds_append)
qed simp

lemma datagram_fds: "s \<in> F \<Longrightarrow> fds (F, W) (serve_datagrams s io) = Some (F, W)"
  by (induction s io rule: serve_datagrams.induct) (auto simp: fds_append split: recv_ans.splits send_ans.splits)

lemma chat_rounds_fds: "chat_rounds s rs = Some as \<Longrightarrow> s \<in> F \<Longrightarrow> fds (F, W) as = Some (F, W)"
  by (induction s rs arbitrary: as rule: chat_rounds.induct)
    (auto simp: Let_def split: if_splits option.splits recv_ans.splits prod.splits)

text \<open>A log that opens nothing it does not close again.\<close>

definition balanced :: "sock_act list \<Rightarrow> bool" where
  "balanced as \<longleftrightarrow> fds ({}, {}) as = Some ({}, {})"

section \<open>The claims\<close>

text \<open>
  Claim C39: the eight socket programs and the chat client, whatever the kernel answers to any of
  their calls, close every descriptor they opened exactly once on every path out of \<open>main\<close>, and
  use none after closing it. The kernel is asked to give \<open>accept\<close> a descriptor other than the
  listening one.
\<close>
theorem programs_close:
  assumes "ts_socket a \<noteq> ts_accept a" "lts_socket b \<notin> round_fds (lts_rounds b)"
  shows "balanced (snd (tcp_server_main a)) \<and> balanced (snd (tcp_client_main c)) \<and> balanced (snd (udp_server_main d)) \<and>
    balanced (snd (udp_client_main e)) \<and> (\<forall>st as. lab_tcp_server b = Some (st, as) \<longrightarrow> balanced as) \<and>
    balanced (snd (lab_udp_server f)) \<and> balanced (snd (lab_tcp_client g)) \<and> balanced (snd (lab_udp_client g)) \<and>
    (\<forall>st as. chat_client_main h = Some (st, as) \<longrightarrow> balanced as)"
proof (intro conjI allI impI)
  show "balanced (snd (tcp_server_main a))"
    using assms(1) by (auto simp: tcp_server_main_def balanced_def Let_def split: recv_ans.split send_ans.split)
  show "balanced (snd (tcp_client_main c))"
    by (simp add: tcp_client_main_def balanced_def Let_def split: recv_ans.split send_ans.split)
  show "balanced (snd (udp_server_main d))"
    by (simp add: udp_server_main_def balanced_def Let_def split: recv_ans.split send_ans.split)
  show "balanced (snd (udp_client_main e))"
    by (simp add: udp_client_main_def balanced_def Let_def split: recv_ans.split send_ans.split)
  show "balanced as" if "lab_tcp_server b = Some (st, as)" for st as
    using that assms(2) rounds_fds [of "lts_rounds b" _ "{lts_socket b}"]
    by (auto simp: lab_tcp_server_def balanced_def Let_def fds_append split: if_splits)
  show "balanced (snd (lab_udp_server f))"
    using datagram_fds [of "lus_socket f" "{lus_socket f}" "{}" "lus_io f"]
    by (simp add: lab_udp_server_def balanced_def Let_def fds_append)
  show "balanced (snd (lab_tcp_client g))"
    by (simp add: lab_tcp_client_def balanced_def Let_def split: recv_ans.split send_ans.split)
  show "balanced (snd (lab_udp_client g))"
    by (simp add: lab_udp_client_def balanced_def Let_def split: recv_ans.split send_ans.split)
  show "balanced as" if "chat_client_main h = Some (st, as)" for st as
    using that chat_rounds_fds [of "ce_socket h" "ce_rounds h" _ "{ce_socket h}" "{}"]
    by (auto simp: chat_client_main_def balanced_def Let_def fds_append split: if_splits)
qed

definition full :: "(u8 list \<Rightarrow> send_ans) \<Rightarrow> bool" where
  "full w \<longleftrightarrow> (\<forall>bs. w bs = Sent (length bs))"

lemma bytes_of_simps [simp]: "bytes_of [] = []" "bytes_of (c # s) = of_char c # bytes_of s" "length (bytes_of s) = length s"
  by (simp_all add: bytes_of_def)

section \<open>The echo of the lab\<close>

text \<open>
  The reads of \<open>n\<close> bytes of a session up to its end, and those of the connections accepted on
  descriptor \<open>c\<close> while the server accepts.
\<close>

fun session_input :: "nat \<Rightarrow> io_step list \<Rightarrow> u8 list list" where
  "session_input n [] = []"
| "session_input n ((rd, wr) # io) =
     (case rd n of Recv_err e \<Rightarrow> [] | Recv buf \<Rightarrow> if buf = [] then [] else buf # session_input n io)"

fun accepted_input :: "nat \<Rightarrow> int \<Rightarrow> accept_round list \<Rightarrow> u8 list list" where
  "accepted_input n c [] = []"
| "accepted_input n c (Round_err e # rs) = (if e = EINTR then accepted_input n c rs else [])"
| "accepted_input n c (Round d io # rs) = (if d = c then session_input n io else []) @ accepted_input n c rs"

fun whole_writes :: "accept_round list \<Rightarrow> bool" where
  "whole_writes [] = True"
| "whole_writes (Round_err e # rs) = whole_writes rs"
| "whole_writes (Round d io # rs) = ((\<forall>x \<in> set io. full (snd x)) \<and> whole_writes rs)"

text \<open>
  What the network brings to a UDP socket, a datagram or an error, and the datagrams that come
  before the first error other than an interruption.
\<close>

primrec from_net :: "u8 list + errno \<Rightarrow> nat \<Rightarrow> recv_ans" where
  "from_net (Inl d) = datagram d"
| "from_net (Inr e) = (\<lambda>n. Recv_err e)"

fun arrivals :: "(u8 list + errno) list \<Rightarrow> u8 list list" where
  "arrivals [] = []"
| "arrivals (Inl d # xs) = d # arrivals xs"
| "arrivals (Inr e # xs) = (if e = EINTR then arrivals xs else [])"

definition client_up :: "lab_client_env \<Rightarrow> bool" where
  "client_up g \<longleftrightarrow> lc_args g \<noteq> [] \<and> 0 \<le> lc_socket g \<and> lc_pton g = 1 \<and> 0 \<le> lc_connect g \<and> full (lc_send g)"

lemma session_echo:
  "echo_session c io = Some as \<Longrightarrow> \<forall>x \<in> set io. full (snd x) \<Longrightarrow>
   sends d as = (if d = c then session_input 4096 io else [])"
  by (induction c io arbitrary: as rule: echo_session.induct)
    (auto simp: full_def TCP_BUF_SIZE_def split: recv_ans.splits send_ans.splits if_splits)

lemma rounds_echo:
  "serve_rounds rs = Some as \<Longrightarrow> whole_writes rs \<Longrightarrow> sends c as = accepted_input 4096 c rs"
  by (induction rs arbitrary: as rule: serve_rounds.induct)
    (auto simp: session_echo split: option.splits if_splits)

lemma datagrams_echo:
  "full w \<Longrightarrow> sends s (serve_datagrams s (map (\<lambda>x. (from_net x, w)) xs)) = map (take 1499) (arrivals xs)"
  by (induction xs rule: arrivals.induct) (simp_all add: full_def datagram_def UDP_BUF_SIZE_def min_def)

lemma udp_client_sends:
  "client_up g \<Longrightarrow> sends (lc_socket g) (snd (lab_udp_client g)) = [lab_message ''hello from udp_client'' (lc_args g)]"
  by (cases "lc_recv g 1499") (simp_all add: client_up_def lab_udp_client_def full_def Let_def UDP_BUF_SIZE_def)

lemma tcp_client_sends:
  "client_up g \<Longrightarrow> sends (lc_socket g) (snd (lab_tcp_client g)) = [lab_message ''hello from tcp_client'' (lc_args g)]"
  by (cases "lc_recv g 4095") (simp_all add: client_up_def lab_tcp_client_def full_def Let_def TCP_BUF_SIZE_def)

lemma udp_client_prints:
  "client_up g \<Longrightarrow> lc_recv g = datagram d \<Longrightarrow>
   fst (lab_udp_client g) = 0 \<and> printed (snd (lab_udp_client g)) = until_nul (take 1499 d)"
  by (simp add: client_up_def lab_udp_client_def full_def Let_def UDP_BUF_SIZE_def datagram_def)

lemma tcp_client_prints:
  "client_up g \<Longrightarrow> lc_recv g = stream_of k q \<Longrightarrow>
   fst (lab_tcp_client g) = 0 \<and> printed (snd (lab_tcp_client g)) = until_nul (take (min k 4095) q)"
  by (auto simp: client_up_def lab_tcp_client_def full_def Let_def TCP_BUF_SIZE_def stream_of_def until_nul_def)

text \<open>
  Claim C40: the lab's servers echo and its clients print what comes back, through buffers of
  the sizes the programs have. With the writes taken whole,
  the TCP server sends on each connection exactly what its reads of up to 4096 bytes gave, read
  by read, over all the connections it accepts; the UDP server answers every datagram that
  arrives before a fatal error with the datagram itself cut to 1499 bytes, in order. A UDP
  client whose message is the \<open>k\<close>-th datagram and that receives the \<open>k\<close>-th answer prints its own
  message cut to 1499 bytes, up to the first NUL; a TCP client whose message is what the server
  read on its connection prints, of the message that comes back whole, only what its single
  read gave: the first \<open>n\<close> bytes that were there, at most 4095, up to the first NUL.
\<close>
theorem lab_echo:
  assumes tcp: "lab_tcp_server b = Some (0, as)" "whole_writes (lts_rounds b)"
    and udp: "0 \<le> lus_socket f" "0 \<le> lus_bind f" "lus_io f = map (\<lambda>x. (from_net x, w)) xs" "full w"
    and g: "client_up g" "k < length (arrivals xs)" "sends (lc_socket g) (snd (lab_udp_client g)) = [arrivals xs ! k]"
      "lc_recv g = datagram (sends (lus_socket f) (snd (lab_udp_server f)) ! k)"
    and h: "client_up h" "concat (sends (lc_socket h) (snd (lab_tcp_client h))) = concat (accepted_input 4096 c (lts_rounds b))"
      "lc_recv h = stream_of n (concat (sends c as))"
  shows "sends d as = accepted_input 4096 d (lts_rounds b) \<and>
    sends (lus_socket f) (snd (lab_udp_server f)) = map (take 1499) (arrivals xs) \<and>
    fst (lab_udp_client g) = 0 \<and>
    printed (snd (lab_udp_client g)) = until_nul (take 1499 (lab_message ''hello from udp_client'' (lc_args g))) \<and>
    fst (lab_tcp_client h) = 0 \<and>
    printed (snd (lab_tcp_client h)) = until_nul (take (min n 4095) (lab_message ''hello from tcp_client'' (lc_args h)))"
proof (intro conjI)
  obtain bs where bs: "serve_rounds (lts_rounds b) = Some bs" "as = K_open (lts_socket b) # bs @ [K_close (lts_socket b)]"
    using tcp(1) by (auto simp: lab_tcp_server_def Let_def split: if_splits)
  have echo: "sends d as = accepted_input 4096 d (lts_rounds b)" for d
    using rounds_echo [OF bs(1) tcp(2)] bs(2) by simp
  then show "sends d as = accepted_input 4096 d (lts_rounds b)" .
  show u: "sends (lus_socket f) (snd (lab_udp_server f)) = map (take 1499) (arrivals xs)"
    using udp datagrams_echo [OF udp(4), of "lus_socket f" xs] by (simp add: lab_udp_server_def Let_def)
  have "lc_recv g = datagram (take 1499 (lab_message ''hello from udp_client'' (lc_args g)))"
    using g u udp_client_sends [OF g(1)] by simp
  from udp_client_prints [OF g(1) this] show "fst (lab_udp_client g) = 0"
    "printed (snd (lab_udp_client g)) = until_nul (take 1499 (lab_message ''hello from udp_client'' (lc_args g)))" by simp_all
  have "concat (sends c as) = lab_message ''hello from tcp_client'' (lc_args h)"
    using h(2) tcp_client_sends [OF h(1)] echo [of c] by simp
  from tcp_client_prints [OF h(1) h(3) [unfolded this]] show "fst (lab_tcp_client h) = 0"
    "printed (snd (lab_tcp_client h)) = until_nul (take (min n 4095) (lab_message ''hello from tcp_client'' (lc_args h)))" by simp_all
qed

section \<open>Witnesses\<close>

definition whole :: "u8 list \<Rightarrow> send_ans" where "whole bs = Sent (length bs)"

definition srv_env_demo :: tcp_server_env where
  "srv_env_demo = \<lparr>ts_socket = 3, ts_bind = 0, ts_listen = 0, ts_accept = 4, ts_ntop = True,
     ts_recv = datagram (bytes_of ''merhaba tcp server''), ts_send = whole\<rparr>"

text \<open>A TCP server with one connection, whose message comes in two parts.\<close>

definition lab_env_demo :: lab_tcp_server_env where
  "lab_env_demo = \<lparr>lts_socket = 3, lts_bind = 0, lts_listen = 0, lts_rounds = [Round_err EINTR,
     Round 4 [(stream_of 1 [104, 105], whole), (stream_of 9 [105], whole), (stream_of 9 [], whole)], Round_err EAGAIN]\<rparr>"

definition lab_cli_demo :: "(nat \<Rightarrow> recv_ans) \<Rightarrow> lab_client_env" where
  "lab_cli_demo rd = \<lparr>lc_args = [''10.0.0.1'', ''5000'', ''hi''], lc_socket = 3, lc_pton = 1, lc_connect = 0, lc_send = whole,
     lc_recv = rd\<rparr>"

text \<open>A UDP server that is interrupted and answers two datagrams, of which the second is the client's.\<close>

definition lab_udp_demo :: lab_udp_server_env where
  "lab_udp_demo = \<lparr>lus_socket = 3, lus_bind = 0,
     lus_io = map (\<lambda>x. (from_net x, whole)) [Inl [7], Inr EINTR, Inl [104, 105], Inr EAGAIN]\<rparr>"

lemma lab_env_demo_runs:
  "lab_tcp_server lab_env_demo = Some (0, [K_open 3, K_open 4, K_recv 4 [104], K_send 4 [104], K_recv 4 [105], K_send 4 [105],
     K_close 4, K_close 3])"
  by (simp add: lab_tcp_server_def lab_env_demo_def Let_def whole_def stream_of_def TCP_BUF_SIZE_def)

theorem programs_close_witness:
  "balanced (snd (tcp_server_main srv_env_demo)) \<and>
   (\<exists>as. lab_tcp_server lab_env_demo = Some (0, as) \<and> length as = 8 \<and> balanced as)"
proof -
  have d: "ts_socket srv_env_demo \<noteq> ts_accept srv_env_demo" "lts_socket lab_env_demo \<notin> round_fds (lts_rounds lab_env_demo)"
    by (simp_all add: srv_env_demo_def lab_env_demo_def)
  from programs_close [OF d, of undefined undefined undefined lab_udp_demo "lab_cli_demo (datagram [])"] lab_env_demo_runs
  show ?thesis by auto
qed

theorem lab_echo_witness:
  "sends 4 [K_open 3, K_open 4, K_recv 4 [104], K_send 4 [104], K_recv 4 [105], K_send 4 [105], K_close 4, K_close 3] = [[104], [105]] \<and>
   printed (snd (lab_udp_client (lab_cli_demo (datagram [104, 105])))) = [104, 105] \<and>
   printed (snd (lab_tcp_client (lab_cli_demo (stream_of 1 [104, 105])))) = [104]"
proof -
  have f: "full whole" by (simp add: full_def whole_def)
  have up: "client_up (lab_cli_demo rd)" for rd using f by (simp add: client_up_def lab_cli_demo_def)
  have m: "lab_message usual (lc_args (lab_cli_demo rd)) = [104, 105]" for usual rd
    by (simp add: lab_message_def lab_cli_demo_def)
  have s: "sends 3 (snd (lab_udp_server lab_udp_demo)) = [[7], [104, 105]]"
    by (simp add: lab_udp_server_def lab_udp_demo_def Let_def whole_def datagram_def UDP_BUF_SIZE_def)
  have i: "accepted_input 4096 4 (lts_rounds lab_env_demo) = [[104], [105]]" "whole_writes (lts_rounds lab_env_demo)"
    using f by (simp_all add: lab_env_demo_def stream_of_def)
  have p: "0 \<le> lus_socket lab_udp_demo" "0 \<le> lus_bind lab_udp_demo"
    "lus_io lab_udp_demo = map (\<lambda>x. (from_net x, whole)) [Inl [7], Inr EINTR, Inl [104, 105], Inr EAGAIN]"
    "lus_socket lab_udp_demo = 3" by (simp_all add: lab_udp_demo_def)
  have e: "until_nul (take 1499 [104, 105]) = [104, 105]" "until_nul (take (min 1 4095) [104, 105]) = [104]"
    by (simp_all add: until_nul_def)
  have r: "lc_recv (lab_cli_demo rd) = rd" for rd by (simp add: lab_cli_demo_def)
  show ?thesis
    using lab_echo [OF lab_env_demo_runs i(2) p(1-3) f up [of "datagram [104, 105]"], of 1 "lab_cli_demo (stream_of 1 [104, 105])" 4 1 4]
      up m s i(1) e p(4) r udp_client_sends [OF up] tcp_client_sends [OF up] by simp
qed

end
