(* ===== verification/Spec2Isabelle.thy ===== *)
theory Spec2Isabelle
  imports Accel_Props Simple_Life_Props Firewall Chat_Props4 Edunic_Stats Edunic_Life_Props
    Group_Chunks Echo_Server Program_Props
begin

text \<open>
  A verification library for the repository linux-network-lab: two network drivers, a packet
  filter, and a family of event-driven TCP servers. It models the C sources under src/ and
  proves what makes each program correct, together with the places where it is not.

  \<^bold>\<open>How the code is read.\<close> A C struct is a record, an enum a datatype, a machine integer a
  word of its width (\<open>u8\<close>, \<open>u16\<close>, \<open>u32\<close>, \<open>u64\<close> of Prelude); an \<open>int\<close> that only carries return
  codes is an \<open>int\<close>. An array is a list, and reading or writing out of its bounds, dereferencing
  a null pointer or touching freed memory is the result \<open>None\<close>; so a theorem that a run gives
  \<open>Some\<close> says that it never reaches undefined behaviour. The answers of the kernel (system
  calls, allocators, DMA mapping, PCI and net_device registration) are arguments of the
  definitions, one per call, and what the code does to the outside is a log of actions in the
  order of the calls. What POSIX says of the byte counts of \<open>recv\<close> and \<open>send\<close> is stated as
  \<open>recv_ok\<close> and \<open>send_ok\<close> in Posix. Console output and error messages on \<open>stderr\<close> are left out.

  \<^bold>\<open>The TCP accelerator\<close> (tcp_accelerator/tcp_accelerator.c): a proxy that splits each TCP
  connection in two and forwards bytes through a buffer per direction.
  \<^item> Accel_Buffer: \<open>struct io_buffer\<close>, \<open>receive_into_buffer\<close>, \<open>flush_buffer\<close>, compaction; 64-bit
    indices, and the refinement of the buffer to the byte string it holds.
  \<^item> Accel_Conn: the two event handlers, the epoll interest, \<open>connection_finished\<close>.
  \<^item> Accel_Half: both handlers as two copies of one program with the endpoints exchanged, so
    that each fact is proved once.
  \<^item> Accel_Flow: runs of a connection, with the streams received and sent.
  \<^item> Accel_Main: sockets, \<open>create_connection\<close>, \<open>destroy_connection\<close>, \<open>accept_loop\<close>, a batch of
    epoll events over a heap of connections, and the start of the program.
  \<^item> Accel_Props: the streams are preserved, the half close is ordered, the interest is
    back-pressure, descriptors are closed on each error path, and when a batch of events can
    and when it cannot touch a connection already freed: never when no connection is in it
    twice, and always after an event that ends a connection whose address is not used again.

  \<^bold>\<open>The simple PCI driver\<close> (net_device/simple_netdev.c) and \<^bold>\<open>the edunic driver\<close>
  (linux_nic_lab/driver/). Both keep two descriptor rings shared with a device. Netdev_Base has
  what they share: packets, the log of kernel calls, the account of resources (\<open>ledger\<close>: running a
  log on a multiset of held resources fails as soon as something not held is released; it has the
  packets the stack handed over, from the call of \<open>ndo_start_xmit\<close> that took them to the
  \<open>dev_kfree_skb\<close> that ends them, beside mappings, buffers, rings and registrations), and the
  contract \<open>tx_dma_driver\<close> of a transmit path, whose consequence is that in any sequence of
  transmissions and completions each packet and each mapping is released exactly once. Ring has
  the contract \<open>ring_index\<close> of ring indices that leave one slot empty. Both are interpreted on
  both drivers.
  \<^item> Simple_Tx, Simple_Rx, Simple_Probe: the functions of simple_netdev.c in its order, from
    \<open>my_tx_ring_full\<close> to \<open>my_pci_remove\<close>. Simple_Run: runs of the device and their invariant.
    Simple_Life: what the device holds. Simple_Props, Simple_Life_Props: the properties.
  \<^item> Edunic_Base: nic.h and the register accessors, with the interrupt registers as nic.h describes
    them (ICR clears on reading, ICS sets, IMS unmasks, IMC masks). Edunic_Tx, Edunic_Rx, Edunic_Hw,
    Edunic_Main: nic_tx.c; nic_rx.c; nic_hw.c with nic_irq.c; nic_main.c with nic_pci.c.
  \<^item> Edunic_Tx_Inv, Edunic_Xmit, Edunic_Rx_Inv, Edunic_Rx_Ok, Edunic_Work: the invariants of the
    two rings (finished, posted and empty slots between three indices: consumer, device head,
    producer) and that each operation keeps them. Edunic_Run, Edunic_Loop: runs of the adapter.
    Edunic_Life, Edunic_Life_Rx: the account of resources.
  \<^item> Edunic_Props, Edunic_Flow_Props, Edunic_Life_Props: transmit accounting, no lost wakeup,
    the loopback as an ordered channel that loses only what it counts as dropped, the poll, the
    receive ring that shrinks and never grows back, probe and the whole life of the device.
    Edunic_Stats: reading the counters against concurrent writers, and that they are true.
  A handler or a call of the kernel is one step; steps are interleaved in any order. Where a race
  inside a handler matters the handler is cut at that place and both halves are definitions mapped
  to the lines (\<open>xmit_stop\<close>, \<open>stop_begin\<close>, \<open>stop_recheck\<close>). Loops over a ring recurse on a bound from
  the source: the poll on its budget; the engine's worker on \<open>EDUNIC_RING_SIZE\<close>, which is enough
  because the head reaches the tail in at most 255 steps, and \<open>Edunic_Work\<close> proves that it does.

  \<^bold>\<open>The packet filter\<close> (netfilter/mac_firewall.c): Firewall has the hook, load and unload, and
  which packets are dropped.

  \<^bold>\<open>The chat server\<close> (chat/server.c): users in a file, one-to-one messages in another, an epoll loop
  over 100 client slots, and a state machine of four modes per client.
  \<^item> Chat_Text: the C strings and the parts of \<open>sscanf\<close>, \<open>printf\<close> and \<open>fgets\<close> the code uses.
  \<^item> Chat_Data: clients, users, \<open>send_all\<close>, the lookups, the user database in both its formats.
  \<^item> Chat_Msgs: the message database, the last ten messages, the conversation list and its sort.
  \<^item> Chat_Session: \<open>process_login\<close>, \<open>process_menu\<close>, \<open>process_chat\<close>, \<open>process_admin\<close>.
  \<^item> Chat_Main: accept, receive, the framing of lines, the start of the program.
  \<^item> Framing: the contract \<open>line_server\<close> of a server whose lines do not look at the input buffer;
    Chat_Chunks interprets it, and Group_Chunks for the group server.
  \<^item> Chat_Inv, Chat_Reach: the invariant of the server and its preservation by each event.
  \<^item> Chat_Sort: what the loops over the message database compute.
  \<^item> Chat_Props to Chat_Props4: round trip of the user file, the invariant, \<open>send_all\<close> on every
    list of answers, framing,
    the message database, login, administration, start-up errors.
  A loop that retries a system call (\<open>send_all\<close>) recurses on the list of the kernel's answers.

  \<^bold>\<open>The group chat server\<close> (chat/server_group.c): one room for all, over the same kind of loop.
  \<^item> Group_Main: slots, texts, login, messages, accept, receive, the framing of lines.
  \<^item> Group_Room: the abstract room (a map from connections to a name and an unfinished line, with
    one step per event and the announcements it makes), the abstraction function, and how each
    change of a slot shows in the room.
  \<^item> Group_Sim: the simulation of a line; Group_Props: of a receive and of every event, that the
    server refines the room, and what the members hear; Group_Chunks: that the cuts of the byte
    stream do not matter.

  \<^bold>\<open>The echo server\<close> (epoll_server/epoll_server.c): Echo_Server, over the log of descriptors of
  Sockets, in which a double close or a use after close is a failing run (\<open>fds\<close>).

  \<^bold>\<open>Packet capture\<close> (packet_capture/): Capture is the decoder of one packet, with what it reports
  of a well-formed packet and exactly when it reads beyond what was received; Packet_Mmap is the
  ring of four blocks, with the kernel filling blocks as a second process, and the queue it is.

  \<^bold>\<open>The small socket programs\<close> (tcp/, udp/, linux_nic_lab/userspace/, chat/client.c) and the XDP
  program (ebpf/xdp_pass.c): Programs has each as a function of the kernel's answers, where the
  answer to a read is a function of the size the program asks for (\<open>datagram\<close> and \<open>stream_of\<close> in
  Sockets are what the kernel documents of the two kinds of socket); Program_Props has their
  descriptors and the echo of the lab's servers and clients.

  \<^bold>\<open>Not modelled.\<close> Module registration and its tables; the memory model below the
  granularity of the steps above; kernel_network/skb/skb_example.c and packet_capture/pcap_capture.c,
  which only call functions of the kernel and of libpcap whose code is not in the repository;
  netfilter/mac_firewall.mod.c, which the kernel build writes. The loop of \<open>send_all\<close> is the same in
  the three chat programs and is modelled once, in Chat_Data.
\<close>

end
